(* ===== verification/Prelude.thy ===== *)
theory Prelude
  imports Main "HOL-Library.AList" "HOL-Library.Sublist"
begin

text \<open>
  Shared vocabulary of the development: the names of the machine types, the collections of
  rewrite rules the component proofs draw on, and the generic facts about lists, tables and
  association lists that several components need.

  Go's pair \<open>(T, error)\<close> is modelled by the sum \<open>error + T\<close>: \<open>Inl e\<close> stands for a non-nil
  error (the accompanying zero value is dropped) and \<open>Inr x\<close> for \<open>(x, nil)\<close>.
\<close>

type_synonym int64 = int
type_synonym time = int    \<comment> \<open>an instant or a duration, in nanoseconds\<close>

named_theorems table_simps \<open>rewriting of SQL statements over tables\<close>
named_theorems tables_frame \<open>which tables an operation leaves alone\<close>
named_theorems handler_defs \<open>unfolding of one HTTP handler and its guards\<close>

section \<open>Results\<close>

abbreviation is_err :: "'e + 'a \<Rightarrow> bool" where
  "is_err r \<equiv> (case r of Inl _ \<Rightarrow> True | Inr _ \<Rightarrow> False)"

abbreviation second :: time where "second \<equiv> 1000000000"
abbreviation millisecond :: time where "millisecond \<equiv> 1000000"
abbreviation minute :: time where "minute \<equiv> 60 * second"

section \<open>Tables as lists of rows\<close>

text \<open>
  \<open>update_where P f rows\<close> is SQL's \<open>UPDATE ... SET f WHERE P\<close>; its row count is
  \<open>count_where P rows\<close>. \<open>select_one\<close> is \<open>QueryRow\<close>: the first matching row, if any.
\<close>

definition update_where :: "('a \<Rightarrow> bool) \<Rightarrow> ('a \<Rightarrow> 'a) \<Rightarrow> 'a list \<Rightarrow> 'a list" where
  "update_where P f rows = map (\<lambda>r. if P r then f r else r) rows"

definition count_where :: "('a \<Rightarrow> bool) \<Rightarrow> 'a list \<Rightarrow> nat" where
  "count_where P rows = length (filter P rows)"

definition select_one :: "('a \<Rightarrow> bool) \<Rightarrow> 'a list \<Rightarrow> 'a option" where
  "select_one P rows = find P rows"

lemma select_one_Some: "select_one P rows = Some r \<Longrightarrow> r \<in> set rows \<and> P r"
  by (auto simp: select_one_def find_Some_iff)

lemma select_one_None: "select_one P rows = None \<longleftrightarrow> (\<forall>r \<in> set rows. \<not> P r)"
  by (auto simp: select_one_def find_None_iff)

lemma select_one_unique:
  assumes "r \<in> set rows" "P r" "\<And>x. x \<in> set rows \<Longrightarrow> P x \<Longrightarrow> x = r"
  shows "select_one P rows = Some r"
proof (cases "select_one P rows")
  case None
  with assms(1,2) show ?thesis by (simp add: select_one_None)
next
  case (Some x)
  then have "x \<in> set rows" "P x" by (simp_all add: select_one_Some)
  then have "x = r" by (rule assms(3))
  with Some show ?thesis by simp
qed

lemma count_where_0 [table_simps]: "count_where P rows = 0 \<longleftrightarrow> (\<forall>r \<in> set rows. \<not> P r)"
  by (simp add: count_where_def filter_empty_conv)

lemma set_update_where:
  "set (update_where P f rows) = {r \<in> set rows. \<not> P r} \<union> f ` {r \<in> set rows. P r}"
  by (auto simp: update_where_def)

lemma map_update_where:
  "(\<And>r. P r \<Longrightarrow> g (f r) = g r) \<Longrightarrow> map g (update_where P f rows) = map g rows"
  by (simp add: update_where_def)

lemma update_where_none: "\<forall>r \<in> set rows. \<not> P r \<Longrightarrow> update_where P f rows = rows"
  by (induction rows) (auto simp: update_where_def)

lemma length_update_where [table_simps]: "length (update_where P f rows) = length rows"
  by (simp add: update_where_def)

lemma update_where_Nil [simp]: "update_where P f [] = []"
  by (simp add: update_where_def)

lemma update_where_Cons [simp]:
  "update_where P f (r # rows) = (if P r then f r else r) # update_where P f rows"
  by (simp add: update_where_def)

lemma distinct_map_eq:
  "distinct (map f xs) \<Longrightarrow> x \<in> set xs \<Longrightarrow> y \<in> set xs \<Longrightarrow> f x = f y \<Longrightarrow> x = y"
  by (auto simp: distinct_map inj_on_def)

lemma filter_unique_key:
  assumes "distinct (map f xs)" "x \<in> set xs"
  shows "filter (\<lambda>y. f y = f x) xs = [x]"
  using assms
proof (induction xs)
  case (Cons a xs)
  then show ?case by (auto simp: filter_empty_conv) (metis image_eqI)
qed simp

section \<open>Sorted selections\<close>

lemma sort_key_filter: "sort_key f (filter P xs) = filter P (sort_key f xs)"
  by (simp add: filter_sort)

lemma sorted_distinct_strict:
  assumes "sorted (map f xs)" "distinct (map f xs)"
  shows "sorted_wrt (<) (map f xs)"
  using assms by (simp add: strict_sorted_iff)

text \<open>
  On a strictly sorted list, cutting at the key of an element is the same as dropping up to
  and including it: the fact behind every cursor.
\<close>

lemma filter_gt_strict_sorted:
  fixes f :: "'a \<Rightarrow> 'k::linorder"
  assumes "sorted_wrt (<) (map f xs)" "i < length xs"
  shows "filter (\<lambda>x. f (xs ! i) < f x) xs = drop (Suc i) xs"
  using assms
proof (induction xs arbitrary: i)
  case (Cons a xs)
  show ?case
  proof (cases i)
    case 0
    with Cons.prems show ?thesis by simp
  next
    case (Suc j)
    with Cons.prems have "f a < f (xs ! j)" by simp
    then have "\<not> f (xs ! j) < f a" by simp
    with Suc Cons show ?thesis by simp
  qed
qed simp

lemma filter_lt_strict_sorted:
  fixes f :: "'a \<Rightarrow> 'k::linorder"
  assumes "sorted_wrt (<) (map f xs)" "i < length xs"
  shows "filter (\<lambda>x. f x < f (xs ! i)) xs = take i xs"
  using assms
proof (induction xs arbitrary: i)
  case (Cons a xs)
  show ?case
  proof (cases i)
    case 0
    with Cons.prems show ?thesis by (auto simp: filter_empty_conv)
  next
    case (Suc j)
    with Cons.prems have "f a < f (xs ! j)" by simp
    with Suc Cons show ?thesis by simp
  qed
qed simp

lemma distinct_sort_key_map: "distinct (map f (sort_key g xs)) = distinct (map f xs)"
  by (metis distinct_map distinct_sort set_sort)

lemma insort_key_snoc:
  assumes "\<forall>z \<in> set zs. f z < f x" "f y < f x"
  shows "insort_key f y (zs @ [x]) = insort_key f y zs @ [x]"
  using assms by (induction zs) auto

lemma sort_key_snoc:
  fixes f :: "'a \<Rightarrow> 'k::linorder"
  assumes "\<forall>y \<in> set xs. f y < f x"
  shows "sort_key f (xs @ [x]) = sort_key f xs @ [x]"
  using assms
proof (induction xs)
  case (Cons y xs)
  then have "sort_key f ((y # xs) @ [x]) = insort_key f y (sort_key f xs @ [x])" by simp
  also have "\<dots> = insort_key f y (sort_key f xs) @ [x]"
    using Cons.prems by (intro insort_key_snoc) auto
  finally show ?case by simp
qed simp

lemma insort_key_map:
  assumes "\<And>x. f (g x) = f x"
  shows "insort_key f (g x) (map g ys) = map g (insort_key f x ys)"
  by (induction ys) (auto simp: assms)

lemma sort_key_map:
  assumes "\<And>x. f (g x) = f x"
  shows "sort_key f (map g xs) = map g (sort_key f xs)"
  by (induction xs) (auto simp: insort_key_map [of f g, OF assms])

text \<open>An update that keeps key and selection acts on the sorted selection row by row.\<close>

lemma sort_key_update_where:
  assumes "\<And>r. f (g r) = f r" "\<And>r. P (g r) = P r"
  shows "sort_key f (filter P (update_where Q g rows)) =
         map (\<lambda>r. if Q r then g r else r) (sort_key f (filter P rows))"
proof -
  let ?h = "\<lambda>r. if Q r then g r else r"
  have "filter P (update_where Q g rows) = map ?h (filter P rows)"
    unfolding update_where_def by (induction rows) (auto simp: assms)
  then show ?thesis by (simp add: sort_key_map [of f ?h] assms)
qed

section \<open>Association lists\<close>

lemma map_of_delete: "map_of (AList.delete k al) = (map_of al)(k := None)"
  by (simp add: delete_conv')

lemma map_of_update: "map_of (AList.update k v al) = (map_of al)(k \<mapsto> v)"
  by (simp add: update_conv')

lemmas alist_simps = map_of_delete map_of_update

end
