(* ===== verification/Go_Strings.thy ===== *)
theory Go_Strings
  imports Prelude
begin

text \<open>
  The parts of Go's \<open>strings\<close> and \<open>strconv\<close> packages the program uses. A Go string is a
  sequence of bytes and \<open>len\<close> counts bytes, so it is a \<open>string\<close> (a list of \<open>char\<close>, each one
  byte); a rune outside ASCII is the list of the bytes of its UTF-8 encoding.
\<close>

section \<open>strings.TrimSpace\<close>

text \<open>The UTF-8 encodings of the runes for which \<open>unicode.IsSpace\<close> holds.\<close>

definition space_runes :: "string list" where
  "space_runes =
     [[CHR 0x09], [CHR 0x0A], [CHR 0x0B], [CHR 0x0C], [CHR 0x0D], [CHR 0x20],
      [CHR 0xC2, CHR 0x85], [CHR 0xC2, CHR 0xA0], [CHR 0xE1, CHR 0x9A, CHR 0x80],
      [CHR 0xE2, CHR 0x80, CHR 0x80], [CHR 0xE2, CHR 0x80, CHR 0x81],
      [CHR 0xE2, CHR 0x80, CHR 0x82], [CHR 0xE2, CHR 0x80, CHR 0x83],
      [CHR 0xE2, CHR 0x80, CHR 0x84], [CHR 0xE2, CHR 0x80, CHR 0x85],
      [CHR 0xE2, CHR 0x80, CHR 0x86], [CHR 0xE2, CHR 0x80, CHR 0x87],
      [CHR 0xE2, CHR 0x80, CHR 0x88], [CHR 0xE2, CHR 0x80, CHR 0x89],
      [CHR 0xE2, CHR 0x80, CHR 0x8A], [CHR 0xE2, CHR 0x80, CHR 0xA8],
      [CHR 0xE2, CHR 0x80, CHR 0xA9], [CHR 0xE2, CHR 0x80, CHR 0xAF],
      [CHR 0xE2, CHR 0x81, CHR 0x9F], [CHR 0xE3, CHR 0x80, CHR 0x80]]"

fun drop_rune :: "string list \<Rightarrow> string \<Rightarrow> string option" where
  "drop_rune [] s = None"
| "drop_rune (w # ws) s =
     (if w \<noteq> [] \<and> take (length w) s = w then Some (drop (length w) s) else drop_rune ws s)"

lemma drop_rune_Some:
  "drop_rune ws s = Some t \<Longrightarrow> \<exists>w \<in> set ws. w \<noteq> [] \<and> s = w @ t"
proof (induction ws s rule: drop_rune.induct)
  case (2 w ws s)
  then show ?case by (metis append_take_drop_id drop_rune.simps(2) list.set_intros option.inject)
qed simp

lemma drop_rune_shorter: "drop_rune ws s = Some t \<Longrightarrow> length t < length s"
  by (auto dest!: drop_rune_Some)

function trim_left_by :: "string list \<Rightarrow> string \<Rightarrow> string" where
  "trim_left_by ws s = (case drop_rune ws s of None \<Rightarrow> s | Some t \<Rightarrow> trim_left_by ws t)"
  by pat_completeness auto
termination
  by (relation "measure (\<lambda>(ws, s). length s)") (auto simp: drop_rune_shorter)

declare trim_left_by.simps [simp del]

definition trim_right_by :: "string list \<Rightarrow> string \<Rightarrow> string" where
  "trim_right_by ws s = rev (trim_left_by (map rev ws) (rev s))"

definition TrimSpace :: "string \<Rightarrow> string" where
  "TrimSpace s = trim_right_by space_runes (trim_left_by space_runes s)"

lemma trim_left_by_clean: "drop_rune ws (trim_left_by ws s) = None"
proof (induction ws s rule: trim_left_by.induct)
  case (1 ws s)
  then show ?case by (subst trim_left_by.simps) (auto split: option.split)
qed

lemma trim_left_by_fixed: "drop_rune ws s = None \<Longrightarrow> trim_left_by ws s = s"
  by (subst trim_left_by.simps) simp

lemma trim_left_by_suffix: "\<exists>p. s = p @ trim_left_by ws s"
proof (induction ws s rule: trim_left_by.induct)
  case (1 ws s)
  show ?case
  proof (cases "drop_rune ws s")
    case None
    then show ?thesis by (simp add: trim_left_by_fixed)
  next
    case (Some t)
    with 1 obtain p where "t = p @ trim_left_by ws t" by blast
    moreover from Some obtain w where "s = w @ t" by (auto dest: drop_rune_Some)
    ultimately have "s = (w @ p) @ trim_left_by ws t" by (metis append_assoc)
    moreover have "trim_left_by ws s = trim_left_by ws t"
      by (subst trim_left_by.simps) (simp add: Some)
    ultimately show ?thesis by metis
  qed
qed

lemma trim_right_by_prefix: "\<exists>q. s = trim_right_by ws s @ q"
proof -
  obtain p where "rev s = p @ trim_left_by (map rev ws) (rev s)"
    using trim_left_by_suffix by blast
  then have "s = rev (trim_left_by (map rev ws) (rev s)) @ rev p"
    by (metis rev_append rev_rev_ident)
  then show ?thesis by (auto simp: trim_right_by_def)
qed

lemma drop_rune_None_prefix: "drop_rune ws (s @ t) = None \<Longrightarrow> drop_rune ws s = None"
  by (induction ws) (auto split: if_splits)

lemma trim_right_by_idem: "trim_right_by ws (trim_right_by ws s) = trim_right_by ws s"
  by (simp add: trim_right_by_def trim_left_by_clean trim_left_by_fixed)

lemma TrimSpace_no_leading: "drop_rune space_runes (TrimSpace s) = None"
  by (metis TrimSpace_def drop_rune_None_prefix trim_left_by_clean trim_right_by_prefix)

lemma TrimSpace_idem: "TrimSpace (TrimSpace s) = TrimSpace s"
  by (metis TrimSpace_def TrimSpace_no_leading trim_left_by_fixed trim_right_by_idem)

lemma TrimSpace_infix: "\<exists>p q. s = p @ TrimSpace s @ q"
  by (metis TrimSpace_def trim_left_by_suffix trim_right_by_prefix)

lemma TrimSpace_length: "length (TrimSpace s) \<le> length s"
  by (metis TrimSpace_infix le_add1 le_add2 le_trans length_append)

section \<open>strings.Split, SplitN and Contains\<close>

fun split_on :: "char \<Rightarrow> string \<Rightarrow> string list" where
  "split_on c [] = [[]]"
| "split_on c (x # xs) =
     (if x = c then [] # split_on c xs
      else (case split_on c xs of [] \<Rightarrow> [[x]] | w # ws \<Rightarrow> (x # w) # ws))"

text \<open>\<open>strings.SplitN(s, sep, 2)\<close> for a one-byte separator.\<close>

definition split_n2 :: "char \<Rightarrow> string \<Rightarrow> string list" where
  "split_n2 c s =
     (case dropWhile (\<lambda>x. x \<noteq> c) s of
        [] \<Rightarrow> [s]
      | _ # rest \<Rightarrow> [takeWhile (\<lambda>x. x \<noteq> c) s, rest])"

definition contains :: "string \<Rightarrow> string \<Rightarrow> bool" where
  "contains s sub = sublist sub s"

lemma split_on_nonempty [simp]: "split_on c s \<noteq> []"
  by (induction s) (auto split: list.split)

lemma not_in_set_neq: "c \<notin> set s \<Longrightarrow> x \<in> set s \<Longrightarrow> x \<noteq> c"
  by blast

lemma split_n2_append: "c \<notin> set a \<Longrightarrow> split_n2 c (a @ c # b) = [a, b]"
  by (simp add: split_n2_def takeWhile_append2 dropWhile_append2 not_in_set_neq)

lemma split_n2_none: "c \<notin> set s \<Longrightarrow> split_n2 c s = [s]"
proof -
  assume "c \<notin> set s"
  then have eq: "dropWhile (\<lambda>x. x \<noteq> c) s = []" by (auto simp: dropWhile_eq_Nil_conv)
  show ?thesis unfolding split_n2_def eq by simp
qed

lemma split_n2_length: "length (split_n2 c s) = 1 \<or> length (split_n2 c s) = 2"
  by (auto simp: split_n2_def split: list.split)

lemma split_on_hd: "hd (split_on c s) = takeWhile (\<lambda>x. x \<noteq> c) s"
  by (induction s) (auto split: list.split)

section \<open>ASCII case\<close>

definition ascii_lower :: "char \<Rightarrow> char" where
  "ascii_lower c =
     (let n = of_char c :: nat in if 65 \<le> n \<and> n \<le> 90 then char_of (n + 32) else c)"

text \<open>
  \<open>strings.EqualFold(s, t)\<close> for a \<open>t\<close> whose letters have no other Unicode case fold than
  their two ASCII forms; the program uses it so on the literal \<open>Bearer\<close>.
\<close>

definition ascii_equal_fold :: "string \<Rightarrow> string \<Rightarrow> bool" where
  "ascii_equal_fold s t = (map ascii_lower s = map ascii_lower t)"

section \<open>strconv.ParseInt and FormatInt, base 10, 64 bits\<close>

datatype num_error = ErrSyntax | ErrRange

abbreviation max_int64 :: int where "max_int64 \<equiv> 9223372036854775807"
abbreviation min_int64 :: int where "min_int64 \<equiv> - 9223372036854775808"
abbreviation max_uint64 :: nat where "max_uint64 \<equiv> 18446744073709551615"

definition digit_val :: "char \<Rightarrow> nat option" where
  "digit_val c =
     (let n = of_char c :: nat in if 48 \<le> n \<and> n \<le> 57 then Some (n - 48) else None)"

definition digit_char :: "nat \<Rightarrow> char" where
  "digit_char d = char_of (48 + d)"

text \<open>
  The digit loop of \<open>ParseUint\<close>. Overflow stops it at once, so characters after the point
  of overflow are not looked at; \<open>1844674407370955162\<close> is Go's \<open>cutoff\<close>.
\<close>

fun uint_loop :: "nat \<Rightarrow> string \<Rightarrow> nat \<times> num_error option" where
  "uint_loop n [] = (n, None)"
| "uint_loop n (c # cs) =
     (case digit_val c of
        None \<Rightarrow> (0, Some ErrSyntax)
      | Some d \<Rightarrow>
          if n \<ge> 1844674407370955162 then (max_uint64, Some ErrRange)
          else if n * 10 + d > max_uint64 then (max_uint64, Some ErrRange)
          else uint_loop (n * 10 + d) cs)"

definition ParseUint :: "string \<Rightarrow> nat \<times> num_error option" where
  "ParseUint s = (if s = [] then (0, Some ErrSyntax) else uint_loop 0 s)"

text \<open>
  Go returns a value together with the error; on a range error it is the nearest bound, and
  a caller that ignores the error goes on with it.
\<close>

definition sign_split :: "string \<Rightarrow> bool \<times> string" where
  "sign_split s =
     (case s of [] \<Rightarrow> (False, [])
      | c # cs \<Rightarrow> if c = CHR ''+'' then (False, cs)
                 else if c = CHR ''-'' then (True, cs) else (False, s))"

definition ParseInt :: "string \<Rightarrow> int64 \<times> num_error option" where
  "ParseInt s =
     (if s = [] then (0, Some ErrSyntax)
      else let (neg, t) = sign_split s; (un, err) = ParseUint t in
        if err = Some ErrSyntax then (0, Some ErrSyntax)
        else if \<not> neg \<and> int un > max_int64 then (max_int64, Some ErrRange)
        else if neg \<and> - int un < min_int64 then (min_int64, Some ErrRange)
        else (if neg then - int un else int un, None))"

text \<open>The two-valued view for callers that test \<open>err != nil\<close> first.\<close>

definition parse_int64 :: "string \<Rightarrow> num_error + int64" where
  "parse_int64 s = (case ParseInt s of (_, Some e) \<Rightarrow> Inl e | (n, None) \<Rightarrow> Inr n)"

fun fmt_nat :: "nat \<Rightarrow> string" where
  "fmt_nat n = (if n < 10 then [digit_char n] else fmt_nat (n div 10) @ [digit_char (n mod 10)])"

declare fmt_nat.simps [simp del]

definition FormatInt :: "int64 \<Rightarrow> string" where
  "FormatInt i = (if i < 0 then CHR ''-'' # fmt_nat (nat (- i)) else fmt_nat (nat i))"

lemma digit_val_char: "d < 10 \<Longrightarrow> digit_val (digit_char d) = Some d"
  by (simp add: digit_val_def digit_char_def Let_def)

lemma fmt_nat_small: "n < 10 \<Longrightarrow> fmt_nat n = [digit_char n]"
  by (simp add: fmt_nat.simps)

lemma fmt_nat_big: "\<not> n < 10 \<Longrightarrow> fmt_nat n = fmt_nat (n div 10) @ [digit_char (n mod 10)]"
  by (subst fmt_nat.simps) simp

lemma fmt_nat_nonempty [simp]: "fmt_nat n \<noteq> []"
  by (cases "n < 10") (simp_all add: fmt_nat_small fmt_nat_big)

lemma uint_loop_fmt_nat: "n \<le> max_uint64 \<Longrightarrow> uint_loop 0 (fmt_nat n @ s) = uint_loop n s"
proof (induction n arbitrary: s rule: fmt_nat.induct)
  case (1 n)
  show ?case
  proof (cases "n < 10")
    case True
    then show ?thesis by (simp add: fmt_nat_small digit_val_char)
  next
    case False
    have "n div 10 \<le> max_uint64" and small: "n div 10 < 1844674407370955162"
      using "1.prems" by simp_all
    with False "1.IH" have "uint_loop 0 (fmt_nat n @ s) = uint_loop (n div 10) (digit_char (n mod 10) # s)"
      by (simp add: fmt_nat_big)
    also have "\<dots> = uint_loop n s"
      using small "1.prems" by (simp add: digit_val_char)
    finally show ?thesis .
  qed
qed

lemma digit_char_digits: "d < 10 \<Longrightarrow> of_char (digit_char d) \<in> {48..57::nat}"
  by (simp add: digit_char_def)

lemma fmt_nat_digits: "c \<in> set (fmt_nat n) \<Longrightarrow> of_char c \<in> {48..57::nat}"
proof (induction n rule: fmt_nat.induct)
  case (1 n)
  show ?case
  proof (cases "n < 10")
    case True
    with 1 show ?thesis by (simp add: fmt_nat_small digit_char_def)
  next
    case False
    with "1.prems" have "c \<in> set (fmt_nat (n div 10)) \<or> c = digit_char (n mod 10)"
      by (auto simp: fmt_nat_big)
    with 1(1)[OF False] show ?thesis by (auto simp: digit_char_def)
  qed
qed

lemma fmt_nat_no_char:
  assumes "of_char c < (48::nat)  \<or> (57::nat) < of_char c"
  shows "c \<notin> set (fmt_nat n)"
  using assms fmt_nat_digits [of c n] by auto

lemma sign_split_fmt_nat: "sign_split (fmt_nat n) = (False, fmt_nat n)"
proof (cases "fmt_nat n")
  case (Cons c cs)
  then have "c \<in> set (fmt_nat n)" by simp
  moreover have "CHR ''+'' \<notin> set (fmt_nat n)" and "CHR ''-'' \<notin> set (fmt_nat n)"
    by (rule fmt_nat_no_char, simp)+
  ultimately show ?thesis using Cons by (auto simp: sign_split_def)
qed simp

lemma ParseUint_fmt_nat: "n \<le> max_uint64 \<Longrightarrow> ParseUint (fmt_nat n) = (n, None)"
  using uint_loop_fmt_nat [of n "[]"] by (simp add: ParseUint_def)

lemma ParseInt_FormatInt:
  assumes "min_int64 \<le> i" "i \<le> max_int64"
  shows "ParseInt (FormatInt i) = (i, None)"
proof (cases "i < 0")
  case True
  with assms have "ParseUint (fmt_nat (nat (- i))) = (nat (- i), None)"
    by (intro ParseUint_fmt_nat) linarith
  with True assms show ?thesis
    by (simp add: FormatInt_def ParseInt_def sign_split_def)
next
  case False
  with assms have "ParseUint (fmt_nat (nat i)) = (nat i, None)"
    by (intro ParseUint_fmt_nat) linarith
  with False assms show ?thesis
    by (simp add: FormatInt_def ParseInt_def sign_split_fmt_nat)
qed

lemma parse_int64_FormatInt:
  "min_int64 \<le> i \<Longrightarrow> i \<le> max_int64 \<Longrightarrow> parse_int64 (FormatInt i) = Inr i"
  by (simp add: parse_int64_def ParseInt_FormatInt)

lemma ParseInt_range: "min_int64 \<le> fst (ParseInt s) \<and> fst (ParseInt s) \<le> max_int64"
  by (auto simp: ParseInt_def Let_def split: prod.splits)

lemma parse_int64_range: "parse_int64 s = Inr n \<Longrightarrow> min_int64 \<le> n \<and> n \<le> max_int64"
  using ParseInt_range [of s] by (auto simp: parse_int64_def split: prod.splits option.splits)

text \<open>\<open>FormatInt\<close> is injective on all integers, so keys built from it never collide.\<close>

definition digits_val :: "string \<Rightarrow> nat" where
  "digits_val s = foldl (\<lambda>a c. a * 10 + (of_char c - 48)) 0 s"

lemma digits_val_fmt_nat: "digits_val (fmt_nat n) = n"
proof (induction n rule: fmt_nat.induct)
  case (1 n)
  show ?case
  proof (cases "n < 10")
    case True
    then show ?thesis by (simp add: fmt_nat_small digits_val_def digit_char_def)
  next
    case False
    with 1 have "digits_val (fmt_nat (n div 10)) = n div 10" by simp
    with False show ?thesis by (simp add: fmt_nat_big digits_val_def digit_char_def)
  qed
qed

lemma fmt_nat_inject [simp]: "fmt_nat m = fmt_nat n \<longleftrightarrow> m = n"
  by (metis digits_val_fmt_nat)

lemma of_char_minus: "of_char (CHR ''-'') < (48::nat) \<or> (57::nat) < of_char (CHR ''-'')"
  by simp

lemma fmt_nat_not_minus: "fmt_nat n \<noteq> CHR ''-'' # s"
  using fmt_nat_no_char [of "CHR ''-''" n] by (metis list.set_intros(1) of_char_minus)

lemma minus_not_fmt_nat: "CHR ''-'' # s \<noteq> fmt_nat n"
  by (metis fmt_nat_not_minus)

lemma FormatInt_inject [simp]: "FormatInt i = FormatInt j \<longleftrightarrow> i = j"
proof (cases "i < 0"; cases "j < 0")
  assume "i < 0" "j < 0"
  then show ?thesis by (simp add: FormatInt_def eq_nat_nat_iff)
next
  assume "\<not> i < 0" "\<not> j < 0"
  then show ?thesis by (simp add: FormatInt_def eq_nat_nat_iff)
next
  assume "i < 0" "\<not> j < 0"
  then show ?thesis by (auto simp: FormatInt_def minus_not_fmt_nat)
next
  assume "\<not> i < 0" "j < 0"
  then show ?thesis by (auto simp: FormatInt_def fmt_nat_not_minus)
qed

lemma FormatInt_nonempty [simp]: "FormatInt i \<noteq> []"
  by (simp add: FormatInt_def)

lemma FormatInt_no_colon: "CHR '':'' \<notin> set (FormatInt i)"
  by (simp add: FormatInt_def fmt_nat_no_char)

end
