(* ===== verification/Rate_Limit.thy ===== *)
theory Rate_Limit
  imports Prelude
begin

text \<open>
  \<open>internal/http/ratelimit.go\<close>: one limiter per key with eviction of idle keys. The limiter
  itself is \<open>golang.org/x/time/rate\<close>, so it is an argument: how to make one from a rate and a
  burst, and its \<open>Allow\<close> at an instant. \<open>time.Now()\<close> is an argument too; the limiter's own
  reading of the clock is taken to be the same instant. The mutex makes \<open>Allow\<close> one step.
\<close>

record 'l limiter_lib =
  NewLimiter :: "nat \<Rightarrow> nat \<Rightarrow> 'l"
  lim_Allow :: "time \<Rightarrow> 'l \<Rightarrow> bool \<times> 'l"

record 'l KeyedLimiter =
  byKey :: "(string \<times> ('l \<times> time)) list"   \<comment> \<open>key to \<open>limiterEntry\<close>\<close>
  kl_r :: nat
  kl_burst :: nat
  kl_ttl :: time

definition NewKeyedLimiter :: "nat \<Rightarrow> nat \<Rightarrow> time \<Rightarrow> 'l KeyedLimiter" where
  "NewKeyedLimiter r burst ttl = \<lparr>byKey = [], kl_r = r, kl_burst = burst, kl_ttl = ttl\<rparr>"

definition kl_Allow :: "'l limiter_lib \<Rightarrow> time \<Rightarrow> string \<Rightarrow> 'l KeyedLimiter \<Rightarrow> bool \<times> 'l KeyedLimiter" where
  "kl_Allow lib now key kl =
     (let swept = filter (\<lambda>(k, lim, seen). \<not> now - seen > kl_ttl kl) (byKey kl);
          lim = (case map_of swept key of
                   None \<Rightarrow> NewLimiter lib (kl_r kl) (kl_burst kl)
                 | Some (lim, _) \<Rightarrow> lim);
          (ok, lim') = lim_Allow lib now lim
      in (ok, kl\<lparr>byKey := AList.update key (lim', now) swept\<rparr>))"

section \<open>Keys do not influence each other\<close>

fun decisions :: "'l limiter_lib \<Rightarrow> 'l KeyedLimiter \<Rightarrow> (time \<times> string) list \<Rightarrow> bool list" where
  "decisions lib kl [] = []"
| "decisions lib kl ((now, key) # cs) =
     (case kl_Allow lib now key kl of (ok, kl') \<Rightarrow> ok # decisions lib kl' cs)"

text \<open>
  The specification of one key in isolation: a single limiter, replaced by a fresh one when it
  has been idle for longer than the eviction time.
\<close>

fun solo :: "'l limiter_lib \<Rightarrow> nat \<Rightarrow> nat \<Rightarrow> time \<Rightarrow> ('l \<times> time) option \<Rightarrow> time list \<Rightarrow> bool list" where
  "solo lib r b ttl st [] = []"
| "solo lib r b ttl st (now # ts) =
     (let lim = (case st of
                   None \<Rightarrow> NewLimiter lib r b
                 | Some (lim, seen) \<Rightarrow> if now - seen > ttl then NewLimiter lib r b else lim);
          (ok, lim') = lim_Allow lib now lim
      in ok # solo lib r b ttl (Some (lim', now)) ts)"

definition decisions_for :: "string \<Rightarrow> (time \<times> string) list \<Rightarrow> bool list \<Rightarrow> bool list" where
  "decisions_for key cs oks = map snd (filter (\<lambda>((now, k), ok). k = key) (zip cs oks))"

definition times_of :: "string \<Rightarrow> (time \<times> string) list \<Rightarrow> time list" where
  "times_of key cs = map fst (filter (\<lambda>(now, k). k = key) cs)"

text \<open>
  The two runs agree on a key when they hold the same entry for it, or the shared one has
  already evicted an entry that will have expired whenever it is asked for next.
\<close>

definition agrees :: "string \<Rightarrow> time \<Rightarrow> 'l KeyedLimiter \<Rightarrow> ('l \<times> time) option \<Rightarrow> bool" where
  "agrees key t kl st \<longleftrightarrow>
     distinct (map fst (byKey kl)) \<and>
     (map_of (byKey kl) key = st \<or>
      map_of (byKey kl) key = None \<and> (\<exists>lim seen. st = Some (lim, seen) \<and> t - seen > kl_ttl kl))"

lemma map_of_filter_entry:
  assumes "distinct (map fst al)"
  shows "map_of (filter (\<lambda>(k, v). P v) al) key =
    (case map_of al key of None \<Rightarrow> None | Some v \<Rightarrow> if P v then Some v else None)"
  using assms
proof (induction al)
  case (Cons a al)
  obtain k v where a: "a = (k, v)" by fastforce
  show ?case
  proof (cases "k = key")
    case True
    then have "map_of al key = None" using Cons.prems a by (auto simp: map_of_eq_None_iff)
    then show ?thesis using Cons a True by (auto split: option.splits)
  next
    case False
    then show ?thesis using Cons a by auto
  qed
qed simp

lemma kl_Allow_step:
  assumes "agrees key t kl st" "t \<le> now" "kl_Allow lib now k kl = (ok, kl')"
  shows "kl_ttl kl' = kl_ttl kl" "kl_r kl' = kl_r kl" "kl_burst kl' = kl_burst kl"
    and "k \<noteq> key \<Longrightarrow> agrees key now kl' st"
    and "k = key \<Longrightarrow> solo lib (kl_r kl) (kl_burst kl) (kl_ttl kl) st (now # ts) =
      ok # solo lib (kl_r kl) (kl_burst kl) (kl_ttl kl) (map_of (byKey kl') key) ts \<and>
      agrees key now kl' (map_of (byKey kl') key)"
proof -
  let ?live = "\<lambda>(lim, seen). \<not> now - seen > kl_ttl kl"
  define swept where "swept = filter (\<lambda>(k, v). ?live v) (byKey kl)"
  have dist: "distinct (map fst (byKey kl))" using assms(1) by (simp add: agrees_def)
  then have ds: "distinct (map fst swept)" unfolding swept_def by (rule distinct_map_filter)
  have look: "map_of swept x = (case map_of (byKey kl) x of None \<Rightarrow> None | Some v \<Rightarrow> if ?live v then Some v else None)" for x
    unfolding swept_def by (rule map_of_filter_entry [OF dist])
  define lim where "lim = (case map_of swept k of None \<Rightarrow> NewLimiter lib (kl_r kl) (kl_burst kl) | Some (lim, _) \<Rightarrow> lim)"
  obtain b lim' where l: "lim_Allow lib now lim = (b, lim')" by fastforce
  have sw: "swept = filter (\<lambda>(k, lim, seen). \<not> now - seen > kl_ttl kl) (byKey kl)"
    unfolding swept_def by (rule filter_cong) auto
  have kl': "ok = b" "kl' = kl\<lparr>byKey := AList.update k (lim', now) swept\<rparr>"
    using assms(3) l by (simp_all add: kl_Allow_def Let_def sw [symmetric] lim_def [symmetric])
  then show par: "kl_ttl kl' = kl_ttl kl" "kl_r kl' = kl_r kl" "kl_burst kl' = kl_burst kl" by simp_all
  have d': "distinct (map fst (byKey kl'))" using ds by (simp add: kl' distinct_update)
  have other: "map_of (byKey kl') x = map_of swept x" if "x \<noteq> k" for x
    using that by (simp add: kl' map_of_update)
  have old: "st = Some (lm, lst) \<Longrightarrow> t - lst > kl_ttl kl \<Longrightarrow> now - lst > kl_ttl kl" for lm lst
    using assms(2) by linarith
  show "agrees key now kl' st" if "k \<noteq> key"
  proof (cases "map_of (byKey kl) key = st")
    case True
    then show ?thesis
      using d' other [of key] that look [of key] par(1)
      by (cases st) (auto simp: agrees_def split: if_splits)
  next
    case False
    then obtain lm lst where "st = Some (lm, lst)" "t - lst > kl_ttl kl" "map_of (byKey kl) key = None"
      using assms(1) by (auto simp: agrees_def)
    then show ?thesis
      using d' other [of key] that look [of key] par(1) old by (auto simp: agrees_def)
  qed
  assume k: "k = key"
  have new: "map_of (byKey kl') key = Some (lim', now)" by (simp add: kl' k map_of_update)
  have "lim = (case st of None \<Rightarrow> NewLimiter lib (kl_r kl) (kl_burst kl)
      | Some (lim, seen) \<Rightarrow> if now - seen > kl_ttl kl then NewLimiter lib (kl_r kl) (kl_burst kl) else lim)"
  proof (cases "map_of (byKey kl) key = st")
    case True
    then show ?thesis using look [of key] k by (cases st) (auto simp: lim_def split: if_splits)
  next
    case False
    then obtain lm lst where "st = Some (lm, lst)" "t - lst > kl_ttl kl" "map_of (byKey kl) key = None"
      using assms(1) by (auto simp: agrees_def)
    then show ?thesis using look [of key] k old by (simp add: lim_def)
  qed
  then show "solo lib (kl_r kl) (kl_burst kl) (kl_ttl kl) st (now # ts) =
      ok # solo lib (kl_r kl) (kl_burst kl) (kl_ttl kl) (map_of (byKey kl') key) ts \<and>
      agrees key now kl' (map_of (byKey kl') key)"
    using l kl'(1) new d' by (simp add: agrees_def)
qed

lemma per_key_Cons [simp]:
  "decisions_for key ((now, k) # cs) (ok # oks) =
     (if k = key then ok # decisions_for key cs oks else decisions_for key cs oks)"
  "times_of key ((now, k) # cs) = (if k = key then now # times_of key cs else times_of key cs)"
  "times_of key [] = []" "decisions_for key [] oks = []"
  by (simp_all add: decisions_for_def times_of_def)

lemma decisions_solo:
  assumes "agrees key t kl st" "sorted (map fst cs)" "\<forall>c \<in> set cs. t \<le> fst c"
  shows "decisions_for key cs (decisions lib kl cs) =
    solo lib (kl_r kl) (kl_burst kl) (kl_ttl kl) st (times_of key cs)"
  using assms
proof (induction cs arbitrary: kl st t)
  case (Cons c cs)
  obtain now k where c: "c = (now, k)" by fastforce
  obtain ok kl' where a: "kl_Allow lib now k kl = (ok, kl')" by fastforce
  have "t \<le> now" using Cons.prems(3) c by simp
  note step = kl_Allow_step [OF Cons.prems(1) this a]
  have rest: "sorted (map fst cs)" "\<forall>c \<in> set cs. now \<le> fst c" using Cons.prems(2) c by auto
  have run: "decisions lib kl (c # cs) = ok # decisions lib kl' cs" by (simp add: c a)
  show ?case
  proof (cases "k = key")
    case True
    note s = step(5) [OF True, of "times_of key cs"]
    from Cons.IH [OF conjunct2 [OF s] rest] s show ?thesis
      unfolding run using c True step(1-3) by simp
  next
    case False
    from Cons.IH [OF step(4) [OF False] rest] show ?thesis
      unfolding run using c False step(1-3) by simp
  qed
qed simp

text \<open>
  C39: the keyed limiter isolates its keys. For any sequence of calls with a clock that does not
  run backwards, the decisions for one key are those of a private limiter that sees only the
  calls for this key and is replaced by a fresh one after being idle longer than the eviction
  time: neither other keys nor the eviction sweep has any influence.
\<close>

theorem keyed_limiter_isolates:
  assumes "sorted (map fst cs)"
  shows "decisions_for key cs (decisions lib (NewKeyedLimiter r burst ttl) cs) =
    solo lib r burst ttl None (times_of key cs)"
proof (cases cs)
  case Nil
  then show ?thesis by simp
next
  case (Cons c cs')
  have "agrees key (fst c) (NewKeyedLimiter r burst ttl) None"
    by (simp add: agrees_def NewKeyedLimiter_def)
  from decisions_solo [OF this assms] show ?thesis
    using assms Cons by (auto simp: NewKeyedLimiter_def)
qed

text \<open>A limiter that admits a fixed number of calls, for concrete instances.\<close>

definition counting_lib :: "nat limiter_lib" where
  "counting_lib = \<lparr>NewLimiter = (\<lambda>r burst. burst), lim_Allow = (\<lambda>now n. (0 < n, n - 1))\<rparr>"

theorem keyed_limiter_isolates_witness:
  "decisions_for ''a'' [(1, ''a''), (2, ''b''), (3, ''a''), (4, ''b''), (9, ''a'')]
     (decisions counting_lib (NewKeyedLimiter 1 1 4) [(1, ''a''), (2, ''b''), (3, ''a''), (4, ''b''), (9, ''a'')])
   = [True, False, True]"
  by (subst keyed_limiter_isolates) (simp_all add: counting_lib_def)

end
