(* ===== verification/Http.thy ===== *)
theory Http
  imports Go_Strings Rate_Limit
begin

text \<open>
  Requests, responses and the small middleware of \<open>internal/http\<close>: \<open>respond.go\<close>, \<open>client_ip.go\<close>,
  \<open>middleware_cors.go\<close>, \<open>body_limit_middleware.go\<close> and the two rate-limit middlewares.

  A handler is a function from a request and a world to a response and a world. The headers a
  handler has set are an association list in which the latest setting comes first. A request
  body is the first JSON value of the body as a tree (\<open>None\<close>: not readable as JSON); turning
  the tree into a Go struct is modelled, turning bytes into the tree is not.
\<close>

section \<open>JSON\<close>

datatype jv =
    JNull
  | JBool bool
  | JInt int
  | JNum string         \<comment> \<open>a number literal that is not an integer\<close>
  | JStr string
  | JTime time          \<comment> \<open>a marshalled \<open>time.Time\<close>\<close>
  | JArr "jv list"
  | JObj "(string \<times> jv) list"

text \<open>
  Member names match field names by Go's fold: ASCII case, and the two other code points that
  fold to ASCII letters, the long s and the Kelvin sign (here by their UTF-8 bytes).
\<close>

fun fold_rare :: "string \<Rightarrow> string" where
  "fold_rare (a # b # c # s) =
     (if a = CHR 0xC5 \<and> b = CHR 0xBF then CHR ''s'' # fold_rare (c # s)
      else if a = CHR 0xE2 \<and> b = CHR 0x84 \<and> c = CHR 0xAA then CHR ''k'' # fold_rare s
      else a # fold_rare (b # c # s))"
| "fold_rare [a, b] = (if a = CHR 0xC5 \<and> b = CHR 0xBF then ''s'' else [a, b])"
| "fold_rare s = s"

definition member_is :: "string \<Rightarrow> string \<Rightarrow> bool" where
  "member_is k f = ascii_equal_fold (fold_rare k) f"

text \<open>
  \<open>Decode(&struct)\<close>, one field: members are visited in order, a member matches a field when the
  names match, \<open>null\<close> leaves the field as it is, a value of the wrong type is an
  error, absent members leave the zero value. A top-level \<open>null\<close> decodes to the zero struct.
\<close>

fun string_member :: "string \<Rightarrow> (string \<times> jv) list \<Rightarrow> string \<Rightarrow> string option" where
  "string_member f [] acc = Some acc"
| "string_member f ((k, v) # ms) acc =
     (if member_is k f
      then (case v of JNull \<Rightarrow> string_member f ms acc
                    | JStr s \<Rightarrow> string_member f ms s
                    | JTime t \<Rightarrow> None | JBool b \<Rightarrow> None | JInt i \<Rightarrow> None | JNum s \<Rightarrow> None
                    | JArr xs \<Rightarrow> None | JObj os \<Rightarrow> None)
      else string_member f ms acc)"

fun bool_member :: "string \<Rightarrow> (string \<times> jv) list \<Rightarrow> bool \<Rightarrow> bool option" where
  "bool_member f [] acc = Some acc"
| "bool_member f ((k, v) # ms) acc =
     (if member_is k f
      then (case v of JNull \<Rightarrow> bool_member f ms acc
                    | JBool b \<Rightarrow> bool_member f ms b
                    | JTime t \<Rightarrow> None | JStr s \<Rightarrow> None | JInt i \<Rightarrow> None | JNum s \<Rightarrow> None
                    | JArr xs \<Rightarrow> None | JObj os \<Rightarrow> None)
      else bool_member f ms acc)"

fun int_member :: "string \<Rightarrow> (string \<times> jv) list \<Rightarrow> int64 \<Rightarrow> int64 option" where
  "int_member f [] acc = Some acc"
| "int_member f ((k, v) # ms) acc =
     (if member_is k f
      then (case v of JNull \<Rightarrow> int_member f ms acc
                    | JInt i \<Rightarrow> if min_int64 \<le> i \<and> i \<le> max_int64 then int_member f ms i else None
                    | JTime t \<Rightarrow> None | JBool b \<Rightarrow> None | JStr s \<Rightarrow> None | JNum s \<Rightarrow> None
                    | JArr xs \<Rightarrow> None | JObj os \<Rightarrow> None)
      else int_member f ms acc)"

fun members :: "jv \<Rightarrow> (string \<times> jv) list option" where
  "members JNull = Some []"
| "members (JObj ms) = Some ms"
| "members _ = None"

definition get_string :: "string \<Rightarrow> (string \<times> jv) list \<Rightarrow> string option" where
  "get_string f ms = string_member f ms []"

definition get_bool :: "string \<Rightarrow> (string \<times> jv) list \<Rightarrow> bool option" where
  "get_bool f ms = bool_member f ms False"

definition get_int :: "string \<Rightarrow> (string \<times> jv) list \<Rightarrow> int64 option" where
  "get_int f ms = int_member f ms 0"

section \<open>Requests and responses\<close>

record AuthUser =
  au_ID :: int64
  au_Username :: string

record request =
  rq_method :: string
  rq_vars :: "(string \<times> string) list"      \<comment> \<open>\<open>mux.Vars\<close>\<close>
  rq_query :: "(string \<times> string) list"
  rq_header :: "(string \<times> string) list"
  rq_remote :: string
  rq_body :: "jv option"
  rq_body_len :: nat                        \<comment> \<open>bytes up to the end of that JSON value\<close>
  rq_user :: "AuthUser option"              \<comment> \<open>the context value of \<open>userContextKey\<close>\<close>

definition lookup :: "string \<Rightarrow> (string \<times> string) list \<Rightarrow> string" where
  "lookup k al = (case map_of al k of None \<Rightarrow> [] | Some v \<Rightarrow> v)"

definition CurrentUser :: "request \<Rightarrow> AuthUser option" where
  "CurrentUser r = rq_user r"

datatype payload = Empty | Text string | Json jv

record response =
  rs_status :: nat
  rs_headers :: "(string \<times> string) list"
  rs_payload :: payload

type_synonym 'w handler = "request \<Rightarrow> 'w \<Rightarrow> response \<times> 'w"

definition header :: "string \<Rightarrow> response \<Rightarrow> string" where
  "header k r = lookup k (rs_headers r)"

definition no_content :: "nat \<Rightarrow> response" where
  "no_content status = \<lparr>rs_status = status, rs_headers = [], rs_payload = Empty\<rparr>"

text \<open>\<open>writeJSON\<close> of \<open>respond.go\<close>; \<open>json_body\<close> is the \<open>Header().Set\<close> and \<open>Encode\<close> handlers spell out.\<close>

definition writeJSON :: "nat \<Rightarrow> jv \<Rightarrow> response" where
  "writeJSON status v =
     \<lparr>rs_status = status, rs_headers = [(''Content-Type'', ''application/json'')], rs_payload = Json v\<rparr>"

definition writeJSONError :: "nat \<Rightarrow> string \<Rightarrow> response" where
  "writeJSONError status msg = writeJSON status (JObj [(''error'', JStr msg)])"

definition json_body :: "nat \<Rightarrow> jv \<Rightarrow> response" where
  "json_body status v = writeJSON status v"

text \<open>\<open>http.Error\<close>.\<close>

definition http_Error :: "string \<Rightarrow> nat \<Rightarrow> response" where
  "http_Error msg status =
     \<lparr>rs_status = status,
      rs_headers = [(''X-Content-Type-Options'', ''nosniff''), (''Content-Type'', ''text/plain; charset=utf-8'')],
      rs_payload = Text (msg @ [CHR 0x0A])\<rparr>"

text \<open>
  Headers set before the next handler runs stay unless that handler sets them again.
\<close>

definition set_before :: "(string \<times> string) list \<Rightarrow> response \<Rightarrow> response" where
  "set_before hs r = r\<lparr>rs_headers := rs_headers r @ hs\<rparr>"

lemma status_simps [simp]:
  "rs_status (no_content s) = s" "rs_status (writeJSON s v) = s" "rs_status (writeJSONError s m) = s"
  "rs_status (json_body s v) = s" "rs_status (http_Error m s) = s" "rs_status (set_before hs r) = rs_status r"
  by (simp_all add: no_content_def writeJSON_def writeJSONError_def json_body_def http_Error_def set_before_def)

lemma payload_simps [simp]:
  "rs_payload (no_content s) = Empty" "rs_payload (writeJSON s v) = Json v"
  "rs_payload (writeJSONError s m) = Json (JObj [(''error'', JStr m)])" "rs_payload (json_body s v) = Json v"
  "rs_payload (http_Error m s) = Text (m @ [CHR 0x0A])" "rs_payload (set_before hs r) = rs_payload r"
  by (simp_all add: no_content_def writeJSON_def writeJSONError_def json_body_def http_Error_def set_before_def)

section \<open>Client address\<close>

text \<open>\<open>net.SplitHostPort\<close>: the host, or \<open>None\<close> for its errors.\<close>

definition index_of :: "char \<Rightarrow> string \<Rightarrow> nat option" where
  "index_of c s = (if c \<in> set s then Some (length (takeWhile (\<lambda>x. x \<noteq> c) s)) else None)"

definition last_index :: "char \<Rightarrow> string \<Rightarrow> nat option" where
  "last_index c s = (if c \<in> set s then Some (length s - 1 - length (takeWhile (\<lambda>x. x \<noteq> c) (rev s))) else None)"

definition SplitHostPort :: "string \<Rightarrow> string option" where
  "SplitHostPort hp =
     (case last_index CHR '':'' hp of
        None \<Rightarrow> None
      | Some i \<Rightarrow>
          if take 1 hp = ''['' then
            (case index_of CHR '']'' hp of
               None \<Rightarrow> None
             | Some e \<Rightarrow>
                 if e + 1 = i \<and> CHR ''['' \<notin> set (drop 1 hp) \<and> CHR '']'' \<notin> set (drop (e + 1) hp)
                 then Some (take (e - 1) (drop 1 hp)) else None)
          else
            (let host = take i hp
             in if CHR '':'' \<in> set host \<or> CHR ''['' \<in> set hp \<or> CHR '']'' \<in> set hp then None else Some host))"

definition ClientIP :: "request \<Rightarrow> string" where
  "ClientIP r =
     (let xff = lookup ''X-Forwarded-For'' (rq_header r);
          ip = TrimSpace (hd (split_on CHR '','' xff));
          xrip = lookup ''X-Real-Ip'' (rq_header r)
      in if xff \<noteq> [] \<and> ip \<noteq> [] then ip
         else if xrip \<noteq> [] then TrimSpace xrip
         else case SplitHostPort (rq_remote r) of
                Some host \<Rightarrow> if host \<noteq> [] then host else rq_remote r
              | None \<Rightarrow> rq_remote r)"

section \<open>Middleware\<close>

text \<open>\<open>MaxBodyBytes\<close>: past the limit the reader fails, so decoding does.\<close>

definition MaxBodyBytes :: "nat \<Rightarrow> 'w handler \<Rightarrow> 'w handler" where
  "MaxBodyBytes n next r w =
     next (if rq_body_len r > n then r\<lparr>rq_body := None\<rparr> else r) w"

definition origin_set :: "string list \<Rightarrow> string list" where
  "origin_set allowedOrigins = filter (\<lambda>s. s \<noteq> []) (map TrimSpace allowedOrigins)"

definition cors_headers :: "string \<Rightarrow> (string \<times> string) list" where
  "cors_headers origin =
     [(''Access-Control-Allow-Headers'', ''Authorization,Content-Type''),
      (''Access-Control-Allow-Methods'', ''GET,POST,PUT,PATCH,DELETE,OPTIONS''),
      (''Vary'', ''Origin''),
      (''Access-Control-Allow-Origin'', origin)]"

definition CORSMiddleware :: "string list \<Rightarrow> 'w handler \<Rightarrow> 'w handler" where
  "CORSMiddleware allowedOrigins next r w =
     (let origin = lookup ''Origin'' (rq_header r);
          ok = origin \<in> set (origin_set allowedOrigins);
          hs = (if origin \<noteq> [] \<and> ok then cors_headers origin else [])
      in if origin \<noteq> [] \<and> \<not> ok \<and> rq_method r = ''OPTIONS''
         then (http_Error ''CORS origin not allowed'' 403, w)
         else if rq_method r = ''OPTIONS'' then (set_before hs (no_content 204), w)
         else case next r w of (resp, w') \<Rightarrow> (set_before hs resp, w'))"

text \<open>
  The limiters live in the world; \<open>get\<close> and \<open>put\<close> select the one a middleware was given. The
  application's clock is read with \<open>now\<close>.
\<close>

definition limited ::
  "'l limiter_lib \<Rightarrow> ('w \<Rightarrow> time) \<Rightarrow> ('w \<Rightarrow> 'l KeyedLimiter) \<Rightarrow> ('l KeyedLimiter \<Rightarrow> 'w \<Rightarrow> 'w) \<Rightarrow>
   string \<Rightarrow> 'w \<Rightarrow> bool \<times> 'w" where
  "limited lib now get put key w =
     (case kl_Allow lib (now w) key (get w) of (ok, kl) \<Rightarrow> (ok, put kl w))"

definition LoginIPRateLimit ::
  "'l limiter_lib \<Rightarrow> ('w \<Rightarrow> time) \<Rightarrow> ('w \<Rightarrow> 'l KeyedLimiter) \<Rightarrow> ('l KeyedLimiter \<Rightarrow> 'w \<Rightarrow> 'w) \<Rightarrow>
   'w handler \<Rightarrow> 'w handler" where
  "LoginIPRateLimit lib now get put next r w =
     (case limited lib now get put (ClientIP r) w of
        (False, w1) \<Rightarrow> (set_before [(''Retry-After'', ''1'')] (http_Error ''too many requests'' 429), w1)
      | (True, w1) \<Rightarrow> next r w1)"

definition PerUserRateLimit ::
  "'l limiter_lib \<Rightarrow> ('w \<Rightarrow> time) \<Rightarrow> ('w \<Rightarrow> 'l KeyedLimiter) \<Rightarrow> ('l KeyedLimiter \<Rightarrow> 'w \<Rightarrow> 'w) \<Rightarrow>
   'w handler \<Rightarrow> 'w handler" where
  "PerUserRateLimit lib now get put next r w =
     (case CurrentUser r of
        None \<Rightarrow> next r w
      | Some u \<Rightarrow>
          (case limited lib now get put (FormatInt (au_ID u)) w of
             (False, w1) \<Rightarrow> (set_before [(''Retry-After'', ''1'')] (http_Error ''rate limit exceeded'' 429), w1)
           | (True, w1) \<Rightarrow> next r w1))"

section \<open>Cross-origin requests\<close>

lemma header_before:
  "header k (set_before hs r) =
     (case map_of (rs_headers r) k of None \<Rightarrow> lookup k hs | Some v \<Rightarrow> v)"
  by (simp add: header_def lookup_def set_before_def map_of_append map_add_def split: option.split)

lemma header_no_content [simp]: "header k (no_content c) = []" "map_of (rs_headers (no_content c)) k = None"
  by (simp_all add: header_def lookup_def no_content_def)

lemma lookup_Nil [simp]: "lookup k [] = []"
  by (simp add: lookup_def)

text \<open>
  Cross-origin access is granted to configured origins only. If the protected handler sets no
  such header itself, the response names an allowed origin exactly when the request's origin is
  one of the configured (trimmed, non-empty) origins, and names that one; a preflight from
  another origin is refused with 403, and no \<open>OPTIONS\<close> request reaches the handler or changes
  the world.
\<close>

theorem cors_sound:
  assumes "\<And>r w. ''Access-Control-Allow-Origin'' \<notin> fst ` set (rs_headers (fst (next r w)))"
  shows "(let (resp, w') = CORSMiddleware allowed next r w;
              origin = lookup ''Origin'' (rq_header r);
              ok = origin \<noteq> [] \<and> origin \<in> TrimSpace ` set allowed
          in header ''Access-Control-Allow-Origin'' resp = (if ok then origin else []) \<and>
             (rq_method r = ''OPTIONS'' \<longrightarrow> w' = w \<and> rs_payload resp \<in> {Empty, Text (''CORS origin not allowed'' @ [CHR 0x0A])} \<and>
                rs_status resp = (if origin \<noteq> [] \<and> \<not> ok then 403 else 204)) \<and>
             (rq_method r \<noteq> ''OPTIONS'' \<longrightarrow> w' = snd (next r w) \<and>
                rs_status resp = rs_status (fst (next r w)) \<and> rs_payload resp = rs_payload (fst (next r w))))"
proof -
  obtain resp w' where n: "next r w = (resp, w')" by fastforce
  have a: "map_of (rs_headers resp) ''Access-Control-Allow-Origin'' = None"
    using assms [of r w] n by (simp add: map_of_eq_None_iff)
  let ?o = "lookup ''Origin'' (rq_header r)"
  have mem: "?o \<noteq> [] \<Longrightarrow> ?o \<in> set (origin_set allowed) \<longleftrightarrow> ?o \<in> TrimSpace ` set allowed"
    by (auto simp: origin_set_def)
  have look: "lookup ''Access-Control-Allow-Origin'' (cors_headers x) = x" for x
    by (simp add: lookup_def cors_headers_def)
  have err: "header ''Access-Control-Allow-Origin'' (http_Error m c) = []" for m c
    by (simp add: header_def lookup_def http_Error_def)
  show ?thesis
    unfolding CORSMiddleware_def Let_def
    using a n mem by (cases "?o = []"; cases "?o \<in> TrimSpace ` set allowed"; cases "rq_method r = ''OPTIONS''")
      (simp_all add: header_before look err)
qed

theorem cors_sound_witness:
  "header ''Access-Control-Allow-Origin''
     (fst (CORSMiddleware ['' https://chat.example'', ''''] (\<lambda>r w. (no_content 200, w))
        \<lparr>rq_method = ''GET'', rq_vars = [], rq_query = [], rq_header = [(''Origin'', ''https://chat.example'')],
         rq_remote = [], rq_body = None, rq_body_len = 0, rq_user = None\<rparr> (0::nat)))
   = ''https://chat.example''"
proof -
  have "TrimSpace '' https://chat.example'' = ''https://chat.example''" by code_simp
  then have "''https://chat.example'' \<in> TrimSpace ` set ['' https://chat.example'', []]" by force
  then show ?thesis
    using cors_sound [of "\<lambda>r w. (no_content 200, w)" "['' https://chat.example'', []]"
        "\<lparr>rq_method = ''GET'', rq_vars = [], rq_query = [], rq_header = [(''Origin'', ''https://chat.example'')],
         rq_remote = [], rq_body = None, rq_body_len = 0, rq_user = None\<rparr>" "0::nat"]
    by (simp add: no_content_def Let_def lookup_def case_prod_beta)
qed

end
