(* ===== verification/Database_URL.thy ===== *)
theory Database_URL
  imports Http
begin

text \<open>
  \<open>internal/store/db.go\<close> and \<open>schema.go\<close>: where a secret and the connection string of the database come from, and
  the pool that is opened on it, and the migrations. The environment is the function \<open>os.Getenv\<close>;
  the AWS clients, \<open>sql.Open\<close>, the server's answer to a ping and golang-migrate are parameters. A process that ends before it
  serves anything is a value: \<open>log.Fatalf\<close> or a panic.
\<close>

section \<open>Processes that end early\<close>

datatype exit = Fatal string | Panic string

definition or_exit :: "'e + 'a \<Rightarrow> ('a \<Rightarrow> 'e + 'b) \<Rightarrow> 'e + 'b" where
  "or_exit r k = (case r of Inl e \<Rightarrow> Inl e | Inr a \<Rightarrow> k a)"

lemma or_exit_simps [simp]: "or_exit (Inl e) k = Inl e" "or_exit (Inr a) k = k a"
  by (simp_all add: or_exit_def)

lemma or_exit_Inr: "or_exit r k = Inr b \<longleftrightarrow> (\<exists>a. r = Inr a \<and> k a = Inr b)"
  by (cases r) simp_all

section \<open>ResolveSecret\<close>

type_synonym getenv = "string \<Rightarrow> string"

text \<open>
  The error of loading the default configuration, if any; the answer of \<open>GetParameter\<close> for a
  name, with the pointer it holds; and the answer of \<open>GetSecretValue\<close> for an ARN, with the JSON
  value that the string behind its pointer spells, if it does.
\<close>

record aws =
  aws_LoadDefaultConfig :: "string option"
  aws_GetParameter :: "string \<Rightarrow> string + string option"
  aws_GetSecretValue :: "string \<Rightarrow> string + jv option option"

definition deref :: "'a option \<Rightarrow> exit + 'a" where
  "deref p = (case p of None \<Rightarrow> Inl (Panic ''invalid memory address or nil pointer dereference'') | Some v \<Rightarrow> Inr v)"

definition ResolveSecret :: "getenv \<Rightarrow> aws \<Rightarrow> string \<Rightarrow> string \<Rightarrow> exit + string" where
  "ResolveSecret getenv A envKey ssmPath =
     (let v = getenv envKey in
      if v \<noteq> [] then Inr v
      else case aws_LoadDefaultConfig A of
             Some e \<Rightarrow> Inl (Fatal (''failed to load AWS config: '' @ e))
           | None \<Rightarrow> (case aws_GetParameter A ssmPath of
                 Inl e \<Rightarrow> Inl (Fatal (''failed to fetch SSM param '' @ ssmPath @ '': '' @ e))
               | Inr p \<Rightarrow> deref p))"

section \<open>url.QueryEscape and the reading of a connection string\<close>

definition unreserved :: "char \<Rightarrow> bool" where
  "unreserved c \<longleftrightarrow>
     (let n = of_char c :: nat in
      (48 \<le> n \<and> n \<le> 57) \<or> (65 \<le> n \<and> n \<le> 90) \<or> (97 \<le> n \<and> n \<le> 122) \<or> c \<in> set ''-_.~'')"

definition upper_hex :: "nat \<Rightarrow> char" where
  "upper_hex n = ''0123456789ABCDEF'' ! n"

definition escape_byte :: "char \<Rightarrow> string" where
  "escape_byte c =
     (if unreserved c then [c]
      else if c = CHR '' '' then ''+''
      else [CHR ''%'', upper_hex (of_char c div 16), upper_hex (of_char c mod 16)])"

definition QueryEscape :: "string \<Rightarrow> string" where
  "QueryEscape s = concat (map escape_byte s)"

definition unhex :: "char \<Rightarrow> nat option" where
  "unhex c =
     (let n = of_char c :: nat in
      if 48 \<le> n \<and> n \<le> 57 then Some (n - 48)
      else if 97 \<le> n \<and> n \<le> 102 then Some (n - 87)
      else if 65 \<le> n \<and> n \<le> 70 then Some (n - 55)
      else None)"

text \<open>
  What \<open>url.Parse\<close>, by which the driver reads a connection string, makes of one: user name and
  password, host with port, and path. A plus sign stands for itself in all of them. After the last
  colon of the host only digits may follow. Hosts in brackets and escapes in a host, which the
  connection strings built here never have, are not modelled and count as refused.
\<close>

fun unescape :: "string \<Rightarrow> string option" where
  "unescape [] = Some []"
| "unescape (c # s) =
     (if c \<noteq> CHR ''%'' then map_option ((#) c) (unescape s)
      else case s of
             a # b # s1 \<Rightarrow>
               (case (unhex a, unhex b) of
                  (Some x, Some y) \<Rightarrow> map_option ((#) (char_of (16 * x + y))) (unescape s1)
                | _ \<Rightarrow> None)
           | _ \<Rightarrow> None)"

definition valid_userinfo :: "char \<Rightarrow> bool" where
  "valid_userinfo c \<longleftrightarrow>
     (let n = of_char c :: nat in
      (48 \<le> n \<and> n \<le> 57) \<or> (65 \<le> n \<and> n \<le> 90) \<or> (97 \<le> n \<and> n \<le> 122) \<or>
      c \<in> set ''-._:~!$&()*+,;=%@'' \<or> n = 39)"

definition until :: "char \<Rightarrow> string \<Rightarrow> string" where
  "until c s = takeWhile (\<lambda>x. x \<noteq> c) s"

definition after_last :: "char \<Rightarrow> string \<Rightarrow> string" where
  "after_last c s = rev (until c (rev s))"

definition is_digit :: "char \<Rightarrow> bool" where
  "is_digit c \<longleftrightarrow> (let n = of_char c :: nat in 48 \<le> n \<and> n \<le> 57)"

definition valid_host :: "char \<Rightarrow> bool" where
  "valid_host c \<longleftrightarrow> unreserved c \<or> c \<in> set ''!$&()*+,;=:<>'' \<or> (of_char c :: nat) \<in> {34, 39} \<or> (of_char c :: nat) \<ge> 128"

definition parse_host :: "string \<Rightarrow> string option" where
  "parse_host host =
     (if CHR '':'' \<in> set host \<and> \<not> list_all is_digit (after_last (CHR '':'') host) then None
      else if \<not> list_all valid_host host then None
      else Some host)"

definition parse_userinfo :: "string \<Rightarrow> (string \<times> string) option" where
  "parse_userinfo info =
     (if \<not> list_all valid_userinfo info then None
      else case split_n2 (CHR '':'') info of
             [u, p] \<Rightarrow> (case (unescape u, unescape p) of (Some u', Some p') \<Rightarrow> Some (u', p') | _ \<Rightarrow> None)
           | _ \<Rightarrow> map_option (\<lambda>u'. (u', [])) (unescape info))"

definition parse_postgres_url :: "string \<Rightarrow> (string \<times> string \<times> string \<times> string) option" where
  "parse_postgres_url s =
     (let main = until (CHR ''#'') s; fragment = drop (length main + 1) s; rest = until (CHR ''?'') main in
      if list_ex (\<lambda>c. of_char c < (32::nat) \<or> of_char c = (127::nat)) main \<or> unescape fragment = None \<or>
         take 11 rest \<noteq> ''postgres://'' then None
      else let authority = until (CHR ''/'') (drop 11 rest);
               path = dropWhile (\<lambda>x. x \<noteq> CHR ''/'') (drop 11 rest);
               info = take (length authority - length (after_last (CHR ''@'') authority) - 1) authority
           in case (parse_host (after_last (CHR ''@'') authority),
                    if CHR ''@'' \<in> set authority then parse_userinfo info else Some ([], []),
                    unescape path) of
                (Some host, Some (u, p), Some path') \<Rightarrow> Some (u, p, host, path')
              | _ \<Rightarrow> None)"

section \<open>resolveDBDSN and MustOpen\<close>

definition dsn_of :: "string \<Rightarrow> string \<Rightarrow> string \<Rightarrow> string \<Rightarrow> string \<Rightarrow> string" where
  "dsn_of username password host port name =
     ''postgres://'' @ username @ '':'' @ QueryEscape password @ ''@'' @ host @ '':'' @ port @ ''/'' @ name"

definition decode_creds :: "jv option \<Rightarrow> (string \<times> string) option" where
  "decode_creds v =
     (case v of None \<Rightarrow> None | Some j \<Rightarrow>
        (case members j of None \<Rightarrow> None | Some ms \<Rightarrow>
           (case (get_string ''username'' ms, get_string ''password'' ms) of
              (Some u, Some p) \<Rightarrow> Some (u, p) | _ \<Rightarrow> None)))"

definition resolveDBDSN :: "getenv \<Rightarrow> aws \<Rightarrow> exit + string" where
  "resolveDBDSN getenv A =
     (let v = getenv ''SM_DB_DSN'' in
      if v \<noteq> [] then Inr v
      else let secretARN = getenv ''SM_DB_SECRET_ARN'' in
      case aws_LoadDefaultConfig A of
        Some e \<Rightarrow> Inl (Fatal (''failed to load AWS config: '' @ e))
      | None \<Rightarrow>
      case aws_GetSecretValue A secretARN of
        Inl e \<Rightarrow> Inl (Fatal (''failed to fetch DB secret '' @ secretARN @ '': '' @ e))
      | Inr out \<Rightarrow>
      or_exit (deref out) (\<lambda>secret.
      case decode_creds secret of
        None \<Rightarrow> Inl (Fatal ''failed to parse DB secret: '')
      | Some (u, p) \<Rightarrow> Inr (dsn_of u p (getenv ''SM_DB_HOST'') (getenv ''SM_DB_PORT'') (getenv ''SM_DB_NAME''))))"

text \<open>The pool on a connection string; the errors of opening it and of the first ping are given.\<close>

record db_pool =
  po_dsn :: string
  po_MaxOpenConns :: nat
  po_MaxIdleConns :: nat
  po_ConnMaxLifetime :: time
  po_ConnMaxIdleTime :: time

definition maxOpenConnsPerTask :: nat where "maxOpenConnsPerTask = 8"

definition MustOpen ::
  "getenv \<Rightarrow> aws \<Rightarrow> (string \<Rightarrow> string option) \<Rightarrow> (db_pool \<Rightarrow> string option) \<Rightarrow> exit + db_pool" where
  "MustOpen getenv A open_err ping_err =
     or_exit (resolveDBDSN getenv A) (\<lambda>dsn.
     case open_err dsn of
       Some e \<Rightarrow> Inl (Fatal (''failed to open db: '' @ e))
     | None \<Rightarrow>
     let db = \<lparr>po_dsn = dsn, po_MaxOpenConns = maxOpenConnsPerTask, po_MaxIdleConns = maxOpenConnsPerTask,
               po_ConnMaxLifetime = 5 * minute, po_ConnMaxIdleTime = 1 * minute\<rparr>
     in case ping_err db of
          Some e \<Rightarrow> Inl (Fatal (''failed to ping db: '' @ e))
        | None \<Rightarrow> Inr db)"

text \<open>golang-migrate, on the embedded migrations: the error of each call, if any.\<close>

datatype migrate_error = ErrNoChange | ErrNilVersion | MigrateErr string

record migrate =
  mg_iofs :: "string option"
  mg_WithInstance :: "db_pool \<Rightarrow> string option"
  mg_New :: "string option"
  mg_Up :: "migrate_error option"
  mg_Version :: "migrate_error option"

definition RunMigrations :: "migrate \<Rightarrow> db_pool \<Rightarrow> string option" where
  "RunMigrations M db =
     (if mg_iofs M \<noteq> None then Some ''create migration source''
      else if mg_WithInstance M db \<noteq> None then Some ''create migration driver''
      else if mg_New M \<noteq> None then Some ''create migrator''
      else if mg_Up M \<noteq> None \<and> mg_Up M \<noteq> Some ErrNoChange then Some ''run migrations''
      else if mg_Version M \<noteq> None \<and> mg_Version M \<noteq> Some ErrNilVersion then Some ''check migration version''
      else None)"

section \<open>The password survives\<close>

lemma unhex_upper_hex:
  assumes "n < 16"
  shows "unhex (upper_hex n) = Some n"
proof -
  have "list_all (\<lambda>n. unhex (upper_hex n) = Some n) [0..<16]" by code_simp
  with assms show ?thesis by (simp add: list_all_iff)
qed

text \<open>The characters an escaped string or an unreserved name is made of.\<close>

definition url_char :: "char \<Rightarrow> bool" where
  "url_char c \<longleftrightarrow> unreserved c \<or> c = CHR ''%'' \<or> c = CHR ''+''"

lemma upper_hex_url_char: "n < 16 \<Longrightarrow> url_char (upper_hex n)"
proof -
  have "list_all (\<lambda>n. url_char (upper_hex n)) [0..<16]" by code_simp
  then show "n < 16 \<Longrightarrow> url_char (upper_hex n)" by (simp add: list_all_iff)
qed

lemma high_nibble: "of_char (c :: char) div 16 < (16 :: nat)"
  by (rule less_mult_imp_div_less) (simp add: nat_of_char_less_256)

lemma escape_byte_chars: "c \<in> set (escape_byte x) \<Longrightarrow> url_char c"
  using upper_hex_url_char [OF high_nibble [of x]] upper_hex_url_char [of "of_char x mod 16"]
  by (auto simp: escape_byte_def url_char_def split: if_split_asm)

lemma QueryEscape_chars: "c \<in> set (QueryEscape s) \<Longrightarrow> url_char c"
  by (auto simp: QueryEscape_def intro: escape_byte_chars)

lemma url_char_not:
  "\<not> url_char (CHR ''@'')" "\<not> url_char (CHR ''/'')" "\<not> url_char (CHR '':'')" "\<not> url_char (CHR ''?'')" "\<not> url_char (CHR ''#'')"
  "\<not> unreserved (CHR ''%'')" "\<not> unreserved (CHR ''+'')" "\<not> unreserved (CHR '' '')"
  by code_simp+

lemma unescape_byte:
  "unescape (escape_byte c @ s) =
     map_option ((#) (if c = CHR '' '' then CHR ''+'' else c)) (unescape s)"
proof -
  have "char_of (16 * (of_char c div 16) + of_char c mod 16 :: nat) = c" by simp
  then show ?thesis
    using url_char_not(6,8) by (auto simp: escape_byte_def unhex_upper_hex high_nibble)
qed

lemma unescape_QueryEscape:
  "unescape (QueryEscape s) = Some (map (\<lambda>c. if c = CHR '' '' then CHR ''+'' else c) s)"
  by (induction s) (simp_all add: QueryEscape_def unescape_byte)

lemma unescape_unreserved: "list_all unreserved s \<Longrightarrow> unescape s = Some s"
  using url_char_not(6) by (induction s) auto

lemma until_all: "c \<notin> set s \<Longrightarrow> until c s = s"
  unfolding until_def by (simp add: takeWhile_eq_all_conv not_in_set_neq)

lemma until_append: "c \<notin> set s \<Longrightarrow> until c (s @ c # t) = s"
  unfolding until_def by (simp add: takeWhile_append2 not_in_set_neq)

lemma url_char_properties:
  assumes "url_char c"
  shows "valid_userinfo c" "\<not> of_char c < (32 :: nat)" "of_char c \<noteq> (127 :: nat)"
  using assms by (auto simp: url_char_def unreserved_def valid_userinfo_def Let_def)

lemma after_last_append: "c \<notin> set t \<Longrightarrow> after_last c (s @ c # t) = t"
  unfolding after_last_def by (simp add: until_append)

lemma unreserved_host: "unreserved c \<Longrightarrow> valid_host c"
  by (simp add: valid_host_def)

lemma parse_host_port:
  assumes "list_all unreserved host" "list_all unreserved port"
  shows "parse_host (host @ '':'' @ port) = (if list_all is_digit port then Some (host @ '':'' @ port) else None)"
proof -
  have "CHR '':'' \<notin> set port" using assms(2) url_char_not(3) by (auto simp: list_all_iff url_char_def)
  then have "after_last (CHR '':'') (host @ '':'' @ port) = port" using after_last_append [of "CHR '':''" port host] by simp
  moreover have "valid_host (CHR '':'')" by (simp add: valid_host_def)
  then have "list_all valid_host (host @ '':'' @ port)" using assms by (auto simp: list_all_iff intro: unreserved_host)
  ultimately show ?thesis by (simp add: parse_host_def)
qed

lemma parse_dsn_of:
  assumes "list_all unreserved (u @ host @ port @ name)"
  shows "parse_postgres_url (dsn_of u p host port name) =
    (if list_all is_digit port
     then Some (u, map (\<lambda>c. if c = CHR '' '' then CHR ''+'' else c) p, host @ '':'' @ port, ''/'' @ name) else None)"
proof -
  let ?p = "QueryEscape p" let ?info = "u @ '':'' @ QueryEscape p" let ?host = "host @ '':'' @ port"
  let ?rest = "?info @ ''@'' @ ?host @ ''/'' @ name"
  have chars: "c \<in> set u \<Longrightarrow> url_char c" "c \<in> set host \<Longrightarrow> url_char c" "c \<in> set port \<Longrightarrow> url_char c"
    "c \<in> set name \<Longrightarrow> url_char c" "c \<in> set ?p \<Longrightarrow> url_char c" for c
    using assms QueryEscape_chars [of c p] by (auto simp: list_all_iff url_char_def)
  have out: "\<not> url_char c \<Longrightarrow> c \<notin> set u \<and> c \<notin> set ?p \<and> c \<notin> set host \<and> c \<notin> set port \<and> c \<notin> set name" for c
    using chars by blast
  have dsn: "dsn_of u p host port name = ''postgres://'' @ ?rest" by (simp add: dsn_of_def)
  have main: "until (CHR ''#'') (''postgres://'' @ ?rest) = ''postgres://'' @ ?rest"
    using out [OF url_char_not(5)] by (subst until_all) simp_all
  have cut: "until (CHR ''?'') (''postgres://'' @ ?rest) = ''postgres://'' @ ?rest"
    using out [OF url_char_not(4)] by (subst until_all) simp_all
  have ctl: "\<not> list_ex (\<lambda>c. of_char c < (32::nat) \<or> of_char c = (127::nat)) (''postgres://'' @ ?rest)"
    using chars url_char_properties(2,3) by (auto simp: list_ex_iff)
  have auth: "until (CHR ''/'') ?rest = ?info @ ''@'' @ ?host"
    using until_append [of "CHR ''/''" "?info @ ''@'' @ ?host" name] out [OF url_char_not(2)] by simp
  have path: "dropWhile (\<lambda>x. x \<noteq> CHR ''/'') ?rest = ''/'' @ name"
    using dropWhile_append2 [of "?info @ ''@'' @ ?host" "\<lambda>x. x \<noteq> CHR ''/''" "''/'' @ name"] out [OF url_char_not(2)]
    by (auto simp: not_in_set_neq)
  have host: "after_last (CHR ''@'') (?info @ ''@'' @ ?host) = ?host"
    using after_last_append [of "CHR ''@''" ?host ?info] out [OF url_char_not(1)] by simp
  have "list_all valid_userinfo ?info"
    using chars url_char_properties(1) by (auto simp: list_all_iff valid_userinfo_def)
  moreover have "split_n2 (CHR '':'') ?info = [u, ?p]"
    using split_n2_append [of "CHR '':''" u ?p] out [OF url_char_not(3)] by simp
  moreover have "unescape u = Some u" using assms by (simp add: unescape_unreserved)
  ultimately have info: "parse_userinfo ?info = Some (u, map (\<lambda>c. if c = CHR '' '' then CHR ''+'' else c) p)"
    by (simp add: parse_userinfo_def unescape_QueryEscape)
  have "list_all unreserved name" using assms by simp
  then have un: "unescape (''/'' @ name) = Some (''/'' @ name)" by (simp add: unescape_unreserved)
  have d: "drop 11 (''postgres://'' @ ?rest) = ?rest" "take 11 (''postgres://'' @ ?rest) = ''postgres://''"
    "unescape (drop (length (''postgres://'' @ ?rest) + 1) (''postgres://'' @ ?rest)) = Some []" by simp_all
  have t: "take (length (?info @ ''@'' @ ?host) - length ?host - 1) (?info @ ''@'' @ ?host) = ?info" by simp
  have at: "CHR ''@'' \<in> set (?info @ ''@'' @ ?host)" by simp
  have "parse_host ?host = (if list_all is_digit port then Some ?host else None)"
    using assms by (intro parse_host_port) simp_all
  then show ?thesis
    unfolding parse_postgres_url_def dsn main Let_def cut d auth path host t
    using ctl at by (simp only: info un if_False if_True simp_thms option.distinct) simp
qed

lemma map_space_id: "map (\<lambda>c. if c = CHR '' '' then CHR ''+'' else c) s = s \<longleftrightarrow> CHR '' '' \<notin> set s"
  by (induction s) auto

text \<open>
  C29: without a connection string in the environment, the one that is built from the secret, with
  user name, host, port and database name made of unreserved characters (they are put in as they
  are), is accepted by \<open>url.Parse\<close>, with which the driver starts, exactly if the port has only digits.
  It is then read back as the same user, host, port and database, and as the same password whatever
  bytes it has, except that every space in it has become a plus sign: the password arrives intact
  exactly if it has no space.
\<close>

theorem dsn_roundtrip:
  assumes "getenv ''SM_DB_DSN'' = []" "aws_LoadDefaultConfig A = None"
    "aws_GetSecretValue A (getenv ''SM_DB_SECRET_ARN'') = Inr (Some (Some v))" "members v = Some ms"
    "get_string ''username'' ms = Some u" "get_string ''password'' ms = Some p"
    "host = getenv ''SM_DB_HOST''" "port = getenv ''SM_DB_PORT''" "name = getenv ''SM_DB_NAME''"
    "list_all unreserved (u @ host @ port @ name)"
  shows "\<exists>dsn p'. resolveDBDSN getenv A = Inr dsn \<and>
    parse_postgres_url dsn = (if list_all is_digit port then Some (u, p', host @ '':'' @ port, ''/'' @ name) else None) \<and>
    p' = map (\<lambda>c. if c = CHR '' '' then CHR ''+'' else c) p \<and> (p' = p \<longleftrightarrow> CHR '' '' \<notin> set p)"
proof -
  have "resolveDBDSN getenv A = Inr (dsn_of u p host port name)"
    using assms(1-9) by (simp add: resolveDBDSN_def deref_def decode_creds_def)
  with parse_dsn_of [OF assms(10), of p] map_space_id [of p] show ?thesis by blast
qed

text \<open>A password of awkward characters.\<close>

definition demo_env :: "(string \<times> string) list \<Rightarrow> getenv" where
  "demo_env vars k = (case map_of vars k of None \<Rightarrow> [] | Some v \<Rightarrow> v)"

theorem dsn_roundtrip_witness:
  "let getenv = demo_env [(''SM_DB_HOST'', ''db''), (''SM_DB_PORT'', ''5432''), (''SM_DB_NAME'', ''onyx'')];
       A = \<lparr>aws_LoadDefaultConfig = None, aws_GetParameter = (\<lambda>_. Inl ''none''),
            aws_GetSecretValue = (\<lambda>_. Inr (Some (Some (JObj [(''username'', JStr ''app''), (''password'', JStr ''p@s:/%'')]))))\<rparr>
   in \<exists>dsn. resolveDBDSN getenv A = Inr dsn \<and> parse_postgres_url dsn = Some (''app'', ''p@s:/%'', ''db:5432'', ''/onyx'')"
proof -
  let ?env = "demo_env [(''SM_DB_HOST'', ''db''), (''SM_DB_PORT'', ''5432''), (''SM_DB_NAME'', ''onyx'')]"
  let ?ms = "[(''username'', JStr ''app''), (''password'', JStr ''p@s:/%'')]"
  let ?A = "\<lparr>aws_LoadDefaultConfig = None, aws_GetParameter = (\<lambda>_. Inl ''none''),
    aws_GetSecretValue = (\<lambda>_. Inr (Some (Some (JObj ?ms))))\<rparr>"
  have env: "?env ''SM_DB_DSN'' = []" "''db'' = ?env ''SM_DB_HOST''" "''5432'' = ?env ''SM_DB_PORT''"
    "''onyx'' = ?env ''SM_DB_NAME''" by (simp_all add: demo_env_def)
  have creds: "get_string ''username'' ?ms = Some ''app''" "get_string ''password'' ?ms = Some ''p@s:/%''"
    "list_all unreserved (''app'' @ ''db'' @ ''5432'' @ ''onyx'')" "list_all is_digit ''5432''" by code_simp+
  have A: "aws_LoadDefaultConfig ?A = None"
    "aws_GetSecretValue ?A (?env ''SM_DB_SECRET_ARN'') = Inr (Some (Some (JObj ?ms)))" "members (JObj ?ms) = Some ?ms"
    by simp_all
  from dsn_roundtrip [OF env(1) A creds(1,2) env(2-4) creds(3)] creds(4) show ?thesis by simp
qed

lemma MustOpen_pool:
  "MustOpen getenv A o_err p_err = Inr db \<Longrightarrow>
     resolveDBDSN getenv A = Inr (po_dsn db) \<and> o_err (po_dsn db) = None \<and> p_err db = None \<and> po_MaxOpenConns db = 8"
  by (auto simp: MustOpen_def or_exit_Inr Let_def maxOpenConnsPerTask_def split: option.split_asm)

end
