(* ===== verification/Redis_API.thy ===== *)
theory Redis_API
  imports Http
begin

text \<open>
  The Redis server is not part of the repository: the commands the program issues through
  \<open>go-redis\<close> are a record of functions over an abstract state, an argument of every definition
  that uses them. \<open>redis_laws\<close> collects the documented behaviour the theorems rely on: what a
  command does when it succeeds, and that a failed command did all of it or nothing. An
  in-memory server with a schedule of failures shows that the laws can hold.
\<close>

datatype redis_error = RedisNil | RedisErr string

record 's redis =
  rd_Get :: "string \<Rightarrow> 's \<Rightarrow> (redis_error + string) \<times> 's"
  rd_GetDel :: "string \<Rightarrow> 's \<Rightarrow> (redis_error + string) \<times> 's"
  rd_Set :: "string \<Rightarrow> string \<Rightarrow> time \<Rightarrow> 's \<Rightarrow> (redis_error + unit) \<times> 's"
  rd_Del :: "string \<Rightarrow> 's \<Rightarrow> (redis_error + unit) \<times> 's"
  rd_Incr :: "string \<Rightarrow> 's \<Rightarrow> (redis_error + int64) \<times> 's"
  rd_Decr :: "string \<Rightarrow> 's \<Rightarrow> (redis_error + int64) \<times> 's"
  rd_Expire :: "string \<Rightarrow> time \<Rightarrow> 's \<Rightarrow> (redis_error + unit) \<times> 's"
  rd_HSet :: "string \<Rightarrow> string \<Rightarrow> string \<Rightarrow> 's \<Rightarrow> (redis_error + unit) \<times> 's"
  rd_HDel :: "string \<Rightarrow> string \<Rightarrow> 's \<Rightarrow> (redis_error + unit) \<times> 's"
  rd_HGetAll :: "string \<Rightarrow> 's \<Rightarrow> (redis_error + (string \<times> string) list) \<times> 's"
  rd_Publish :: "string \<Rightarrow> jv \<Rightarrow> 's \<Rightarrow> (redis_error + unit) \<times> 's"

section \<open>The documented effects\<close>

text \<open>What can be observed of a server: string keys, their deadlines, hashes, published messages.\<close>

record redis_view =
  rv_now :: time
  rv_str :: "string \<Rightarrow> string option"
  rv_deadline :: "string \<Rightarrow> time option"
  rv_hash :: "string \<Rightarrow> string \<Rightarrow> string option"
  rv_pub :: "(string \<times> jv) list"

definition e_set :: "string \<Rightarrow> string \<Rightarrow> time \<Rightarrow> redis_view \<Rightarrow> redis_view" where
  "e_set k v ttl w =
     w\<lparr>rv_str := (rv_str w)(k \<mapsto> v), rv_deadline := (rv_deadline w)(k \<mapsto> rv_now w + ttl)\<rparr>"

definition e_del :: "string \<Rightarrow> redis_view \<Rightarrow> redis_view" where
  "e_del k w = w\<lparr>rv_str := (rv_str w)(k := None), rv_deadline := (rv_deadline w)(k := None)\<rparr>"

definition counter :: "string \<Rightarrow> redis_view \<Rightarrow> int64 option" where
  "counter k w =
     (case rv_str w k of
        None \<Rightarrow> Some 0
      | Some s \<Rightarrow> (case parse_int64 s of Inr n \<Rightarrow> Some n | Inl _ \<Rightarrow> None))"

text \<open>A counter that is no integer, or would leave 64 bits, makes the command fail.\<close>

definition counter_ok :: "int64 \<Rightarrow> string \<Rightarrow> redis_view \<Rightarrow> bool" where
  "counter_ok d k w \<longleftrightarrow>
     (case counter k w of None \<Rightarrow> False | Some n \<Rightarrow> min_int64 \<le> n + d \<and> n + d \<le> max_int64)"

definition e_add :: "int64 \<Rightarrow> string \<Rightarrow> redis_view \<Rightarrow> redis_view" where
  "e_add d k w =
     (case counter k w of
        None \<Rightarrow> w
      | Some n \<Rightarrow> if counter_ok d k w then w\<lparr>rv_str := (rv_str w)(k \<mapsto> FormatInt (n + d))\<rparr> else w)"

definition e_expire :: "string \<Rightarrow> time \<Rightarrow> redis_view \<Rightarrow> redis_view" where
  "e_expire k ttl w =
     (if rv_str w k = None then w else w\<lparr>rv_deadline := (rv_deadline w)(k \<mapsto> rv_now w + ttl)\<rparr>)"

definition e_hset :: "string \<Rightarrow> string \<Rightarrow> string \<Rightarrow> redis_view \<Rightarrow> redis_view" where
  "e_hset h f v w = w\<lparr>rv_hash := (rv_hash w)(h := (rv_hash w h)(f \<mapsto> v))\<rparr>"

definition e_hdel :: "string \<Rightarrow> string \<Rightarrow> redis_view \<Rightarrow> redis_view" where
  "e_hdel h f w = w\<lparr>rv_hash := (rv_hash w)(h := (rv_hash w h)(f := None))\<rparr>"

definition e_publish :: "string \<Rightarrow> jv \<Rightarrow> redis_view \<Rightarrow> redis_view" where
  "e_publish c m w = w\<lparr>rv_pub := rv_pub w @ [(c, m)]\<rparr>"

text \<open>Time passes: keys whose deadline has come disappear, nothing else changes.\<close>

definition e_elapse :: "time \<Rightarrow> redis_view \<Rightarrow> redis_view" where
  "e_elapse dt w =
     (let now = rv_now w + dt;
          dead = (\<lambda>k. case rv_deadline w k of None \<Rightarrow> False | Some t \<Rightarrow> t \<le> now)
      in w\<lparr>rv_now := now,
           rv_str := (\<lambda>k. if dead k then None else rv_str w k),
           rv_deadline := (\<lambda>k. if dead k then None else rv_deadline w k)\<rparr>)"

section \<open>The laws\<close>

definition applies ::
  "('s \<Rightarrow> redis_view) \<Rightarrow> (redis_view \<Rightarrow> redis_view) \<Rightarrow> ('a \<Rightarrow> bool) \<Rightarrow> 's \<Rightarrow> (redis_error + 'a) \<times> 's \<Rightarrow> bool" where
  "applies view eff good s res =
     (case res of
        (Inr y, s') \<Rightarrow> good y \<and> view s' = eff (view s)
      | (Inl e, s') \<Rightarrow> e \<noteq> RedisNil \<and> (view s' = view s \<or> view s' = eff (view s)))"

text \<open>Reads of a string key: \<open>redis.Nil\<close> when it is absent; \<open>eff\<close> is what a hit does.\<close>

definition reads ::
  "('s \<Rightarrow> redis_view) \<Rightarrow> (redis_view \<Rightarrow> redis_view) \<Rightarrow> string \<Rightarrow> 's \<Rightarrow> (redis_error + string) \<times> 's \<Rightarrow> bool" where
  "reads view eff k s res =
     (case res of
        (Inr v, s') \<Rightarrow> rv_str (view s) k = Some v \<and> view s' = eff (view s)
      | (Inl RedisNil, s') \<Rightarrow> rv_str (view s) k = None \<and> view s' = view s
      | (Inl (RedisErr _), s') \<Rightarrow> view s' = view s \<or> view s' = eff (view s))"

definition redis_laws :: "'s redis \<Rightarrow> ('s \<Rightarrow> redis_view) \<Rightarrow> bool" where
  "redis_laws R view \<longleftrightarrow>
     (\<forall>k s. reads view id k s (rd_Get R k s)) \<and>
     (\<forall>k s. reads view (e_del k) k s (rd_GetDel R k s)) \<and>
     (\<forall>k v ttl s. applies view (e_set k v ttl) (\<lambda>_. True) s (rd_Set R k v ttl s)) \<and>
     (\<forall>k s. applies view (e_del k) (\<lambda>_. True) s (rd_Del R k s)) \<and>
     (\<forall>k s. applies view (e_add 1 k) (\<lambda>n. counter_ok 1 k (view s) \<and> counter k (view s) = Some (n - 1)) s (rd_Incr R k s)) \<and>
     (\<forall>k s. applies view (e_add (- 1) k) (\<lambda>n. counter_ok (- 1) k (view s) \<and> counter k (view s) = Some (n + 1)) s (rd_Decr R k s)) \<and>
     (\<forall>k ttl s. applies view (e_expire k ttl) (\<lambda>_. True) s (rd_Expire R k ttl s)) \<and>
     (\<forall>h f v s. applies view (e_hset h f v) (\<lambda>_. True) s (rd_HSet R h f v s)) \<and>
     (\<forall>h f s. applies view (e_hdel h f) (\<lambda>_. True) s (rd_HDel R h f s)) \<and>
     (\<forall>h s. applies view id (\<lambda>al. distinct (map fst al) \<and> map_of al = rv_hash (view s) h) s (rd_HGetAll R h s)) \<and>
     (\<forall>c m s. applies view (e_publish c m) (\<lambda>_. True) s (rd_Publish R c m s))"

lemma redis_lawsD:
  assumes "redis_laws R view"
  shows "reads view id k s (rd_Get R k s)" "reads view (e_del k) k s (rd_GetDel R k s)"
    "applies view (e_set k v ttl) (\<lambda>_. True) s (rd_Set R k v ttl s)"
    "applies view (e_del k) (\<lambda>_. True) s (rd_Del R k s)"
    "applies view (e_add 1 k) (\<lambda>n. counter_ok 1 k (view s) \<and> counter k (view s) = Some (n - 1)) s (rd_Incr R k s)"
    "applies view (e_add (- 1) k) (\<lambda>n. counter_ok (- 1) k (view s) \<and> counter k (view s) = Some (n + 1)) s (rd_Decr R k s)"
    "applies view (e_expire k ttl) (\<lambda>_. True) s (rd_Expire R k ttl s)"
    "applies view (e_hset k f v) (\<lambda>_. True) s (rd_HSet R k f v s)"
    "applies view (e_hdel k f) (\<lambda>_. True) s (rd_HDel R k f s)"
    "applies view id (\<lambda>al. distinct (map fst al) \<and> map_of al = rv_hash (view s) k) s (rd_HGetAll R k s)"
    "applies view (e_publish k m) (\<lambda>_. True) s (rd_Publish R k m s)"
  using assms unfolding redis_laws_def by simp_all

lemma appliesD:
  assumes "applies view eff good s (r, s')"
  shows "r = Inr y \<Longrightarrow> good y" "r = Inr y \<Longrightarrow> view s' = eff (view s)"
    "r = Inl e \<Longrightarrow> e \<noteq> RedisNil" "view s' = view s \<or> view s' = eff (view s)"
  using assms by (cases r; simp add: applies_def)+

lemma readsD:
  assumes "reads view eff k s (r, s')"
  shows "r = Inr v \<Longrightarrow> rv_str (view s) k = Some v \<and> view s' = eff (view s)"
    "r = Inl RedisNil \<Longrightarrow> rv_str (view s) k = None \<and> view s' = view s"
    "view s' = view s \<or> view s' = eff (view s)"
  using assms by (cases r; auto simp: reads_def split: redis_error.splits)+

section \<open>An in-memory server\<close>

text \<open>
  The schedule says for each command whether it is answered (\<open>None\<close>) or fails, and in that case
  whether it took effect before the connection broke. The hash fields are also kept as a list,
  so that \<open>HGETALL\<close> can enumerate them.
\<close>

record mem_server =
  mem_view :: redis_view
  mem_fields :: "string \<Rightarrow> (string \<times> string) list"
  mem_faults :: "(string \<times> bool) option list"

definition mem_op ::
  "(redis_view \<Rightarrow> redis_error + 'a) \<Rightarrow> (mem_server \<Rightarrow> mem_server) \<Rightarrow> mem_server \<Rightarrow> (redis_error + 'a) \<times> mem_server" where
  "mem_op ans eff s =
     (case mem_faults s of
        Some (e, applied) # fs \<Rightarrow>
          (Inl (RedisErr e), let s' = s\<lparr>mem_faults := fs\<rparr> in if applied then eff s' else s')
      | _ \<Rightarrow>
          (case ans (mem_view s) of
             Inl e \<Rightarrow> (Inl e, s\<lparr>mem_faults := tl (mem_faults s)\<rparr>)
           | Inr y \<Rightarrow> (Inr y, eff (s\<lparr>mem_faults := tl (mem_faults s)\<rparr>))))"

definition on_view :: "(redis_view \<Rightarrow> redis_view) \<Rightarrow> mem_server \<Rightarrow> mem_server" where
  "on_view f s = s\<lparr>mem_view := f (mem_view s)\<rparr>"

definition set_field :: "string \<Rightarrow> string \<Rightarrow> string \<Rightarrow> mem_server \<Rightarrow> mem_server" where
  "set_field h f v s =
     (let al = AList.update f v (mem_fields s h)
      in s\<lparr>mem_fields := (mem_fields s)(h := al)\<rparr>)"

definition del_field :: "string \<Rightarrow> string \<Rightarrow> mem_server \<Rightarrow> mem_server" where
  "del_field h f s = s\<lparr>mem_fields := (mem_fields s)(h := AList.delete f (mem_fields s h))\<rparr>"

text \<open>The observable hashes are those of the field lists.\<close>

definition mem_observe :: "mem_server \<Rightarrow> redis_view" where
  "mem_observe s = (mem_view s)\<lparr>rv_hash := (\<lambda>h. map_of (mem_fields s h))\<rparr>"

definition ask_str :: "string \<Rightarrow> redis_view \<Rightarrow> redis_error + string" where
  "ask_str k w = (case rv_str w k of None \<Rightarrow> Inl RedisNil | Some v \<Rightarrow> Inr v)"

definition ask_add :: "int64 \<Rightarrow> string \<Rightarrow> redis_view \<Rightarrow> redis_error + int64" where
  "ask_add d k w =
     (case counter k w of
        None \<Rightarrow> Inl (RedisErr ''ERR value is not an integer or out of range'')
      | Some n \<Rightarrow> if counter_ok d k w then Inr (n + d)
                   else Inl (RedisErr ''ERR increment or decrement would overflow''))"

definition mem_redis :: "mem_server redis" where
  "mem_redis =
     \<lparr>rd_Get = (\<lambda>k. mem_op (ask_str k) id),
      rd_GetDel = (\<lambda>k. mem_op (ask_str k) (on_view (e_del k))),
      rd_Set = (\<lambda>k v ttl. mem_op (\<lambda>_. Inr ()) (on_view (e_set k v ttl))),
      rd_Del = (\<lambda>k. mem_op (\<lambda>_. Inr ()) (on_view (e_del k))),
      rd_Incr = (\<lambda>k. mem_op (ask_add 1 k) (on_view (e_add 1 k))),
      rd_Decr = (\<lambda>k. mem_op (ask_add (- 1) k) (on_view (e_add (- 1) k))),
      rd_Expire = (\<lambda>k ttl. mem_op (\<lambda>_. Inr ()) (on_view (e_expire k ttl))),
      rd_HSet = (\<lambda>h f v. mem_op (\<lambda>_. Inr ()) (set_field h f v)),
      rd_HDel = (\<lambda>h f. mem_op (\<lambda>_. Inr ()) (del_field h f)),
      rd_HGetAll = (\<lambda>h s. mem_op (\<lambda>_. Inr (AList.clearjunk (mem_fields s h))) id s),
      rd_Publish = (\<lambda>c m. mem_op (\<lambda>_. Inr ()) (on_view (e_publish c m)))\<rparr>"

definition mem_empty :: mem_server where
  "mem_empty =
     \<lparr>mem_view = \<lparr>rv_now = 0, rv_str = (\<lambda>_. None), rv_deadline = (\<lambda>_. None), rv_hash = (\<lambda>_ _. None), rv_pub = []\<rparr>,
      mem_fields = (\<lambda>_. []), mem_faults = []\<rparr>"

lemma mem_observe_simps [simp]:
  "mem_observe (s\<lparr>mem_faults := fs\<rparr>) = mem_observe s"
  "mem_observe (on_view (e_set k v ttl) s) = e_set k v ttl (mem_observe s)"
  "mem_observe (on_view (e_del k) s) = e_del k (mem_observe s)"
  "mem_observe (on_view (e_expire k ttl) s) = e_expire k ttl (mem_observe s)"
  "mem_observe (on_view (e_publish c m) s) = e_publish c m (mem_observe s)"
  "mem_observe (set_field h f v s) = e_hset h f v (mem_observe s)"
  "mem_observe (del_field h f s) = e_hdel h f (mem_observe s)"
  by (simp_all add: mem_observe_def on_view_def e_set_def e_del_def e_expire_def e_publish_def
      set_field_def del_field_def e_hset_def e_hdel_def Let_def map_of_update map_of_delete fun_eq_iff)

lemma counter_observe [simp]:
  "counter k (mem_observe s) = counter k (mem_view s)"
  "counter_ok d k (mem_observe s) = counter_ok d k (mem_view s)"
  "rv_str (mem_observe s) k = rv_str (mem_view s) k"
  by (simp_all add: mem_observe_def counter_def counter_ok_def)

lemma mem_observe_add [simp]: "mem_observe (on_view (e_add d k) s) = e_add d k (mem_observe s)"
proof (cases "counter k (mem_view s)")
  case (Some n)
  then show ?thesis
    by (simp add: e_add_def) (simp add: mem_observe_def on_view_def e_add_def)
qed (simp add: e_add_def, simp add: mem_observe_def on_view_def e_add_def)

lemma mem_op_applies:
  assumes "\<And>s. mem_observe (eff s) = eff' (mem_observe s)"
    and "\<And>e. ans (mem_view s) = Inl e \<Longrightarrow> e \<noteq> RedisNil" "\<And>y. ans (mem_view s) = Inr y \<Longrightarrow> good y"
  shows "applies mem_observe eff' good s (mem_op ans eff s)"
  using assms(2,3)
  by (auto simp: mem_op_def applies_def assms(1) Let_def split: list.split option.split sum.split)

lemma mem_op_reads:
  assumes "\<And>s. mem_observe (eff s) = eff' (mem_observe s)"
  shows "reads mem_observe eff' k s (mem_op (ask_str k) eff s)"
  by (auto simp: mem_op_def reads_def assms Let_def ask_str_def split: list.split option.split sum.split)

lemma mem_redis_laws: "redis_laws mem_redis mem_observe"
  unfolding redis_laws_def
proof (intro conjI allI, goal_cases)
  case (10 h s)
  have "map_of (mem_fields s h) = rv_hash (mem_observe s) h" by (simp add: mem_observe_def)
  then show ?case
    by (simp add: mem_redis_def)
      (rule mem_op_applies, auto simp: map_of_clearjunk distinct_clearjunk)
qed (simp_all add: mem_redis_def, (rule mem_op_reads mem_op_applies; auto simp: ask_add_def split: option.splits if_splits)+)

text \<open>Its answers while no failure is scheduled.\<close>

lemma mem_op_no_faults:
  "mem_faults s = [] \<Longrightarrow> mem_op ans eff s =
     (case ans (mem_view s) of Inl e \<Rightarrow> (Inl e, s) | Inr y \<Rightarrow> (Inr y, eff s))"
  by (cases s) (simp add: mem_op_def split: sum.split)

lemma mem_redis_no_faults:
  assumes "mem_faults s = []"
  shows "rd_Set mem_redis k v ttl s = (Inr (), on_view (e_set k v ttl) s)"
    "rd_Del mem_redis k s = (Inr (), on_view (e_del k) s)"
    "rd_Get mem_redis k s = (case rv_str (mem_view s) k of None \<Rightarrow> (Inl RedisNil, s) | Some v \<Rightarrow> (Inr v, s))"
    "rd_GetDel mem_redis k s =
       (case rv_str (mem_view s) k of None \<Rightarrow> (Inl RedisNil, s) | Some v \<Rightarrow> (Inr v, on_view (e_del k) s))"
    "rd_Expire mem_redis k ttl s = (Inr (), on_view (e_expire k ttl) s)"
    "rd_HSet mem_redis k f v s = (Inr (), set_field k f v s)"
    "rd_HDel mem_redis k f s = (Inr (), del_field k f s)"
    "rd_Publish mem_redis k m s = (Inr (), on_view (e_publish k m) s)"
  using assms
  by (simp_all add: mem_redis_def mem_op_no_faults ask_str_def split: option.split)

lemma mem_faults_on_view [simp]:
  "mem_faults (on_view f s) = mem_faults s" "mem_view (on_view f s) = f (mem_view s)"
  "mem_faults (set_field h f' v s) = mem_faults s" "mem_view (set_field h f' v s) = mem_view s"
  "mem_faults (del_field h f' s) = mem_faults s" "mem_view (del_field h f' s) = mem_view s"
  by (simp_all add: on_view_def set_field_def del_field_def Let_def)

lemma mem_empty_simps [simp]:
  "mem_faults mem_empty = []" "rv_str (mem_view mem_empty) k = None" "rv_now (mem_view mem_empty) = 0"
  "rv_deadline (mem_view mem_empty) k = None"
  by (simp_all add: mem_empty_def)

text \<open>The same server without its schedule of failures.\<close>

definition calm :: "mem_server \<Rightarrow> mem_server" where
  "calm s = s\<lparr>mem_faults := []\<rparr>"

definition calm_redis :: "mem_server redis" where
  "calm_redis =
     \<lparr>rd_Get = (\<lambda>k s. rd_Get mem_redis k (calm s)), rd_GetDel = (\<lambda>k s. rd_GetDel mem_redis k (calm s)),
      rd_Set = (\<lambda>k v ttl s. rd_Set mem_redis k v ttl (calm s)), rd_Del = (\<lambda>k s. rd_Del mem_redis k (calm s)),
      rd_Incr = (\<lambda>k s. rd_Incr mem_redis k (calm s)), rd_Decr = (\<lambda>k s. rd_Decr mem_redis k (calm s)),
      rd_Expire = (\<lambda>k ttl s. rd_Expire mem_redis k ttl (calm s)),
      rd_HSet = (\<lambda>h f v s. rd_HSet mem_redis h f v (calm s)), rd_HDel = (\<lambda>h f s. rd_HDel mem_redis h f (calm s)),
      rd_HGetAll = (\<lambda>h s. rd_HGetAll mem_redis h (calm s)),
      rd_Publish = (\<lambda>c m s. rd_Publish mem_redis c m (calm s))\<rparr>"

lemma mem_observe_calm [simp]: "mem_observe (calm s) = mem_observe s" "mem_faults (calm s) = []"
  by (simp_all add: calm_def)

lemma applies_calm: "applies mem_observe eff good (calm s) res = applies mem_observe eff good s res"
  "reads mem_observe eff k (calm s) res2 = reads mem_observe eff k s res2"
  unfolding applies_def reads_def mem_observe_calm by (rule refl)+

lemma calm_redis_laws: "redis_laws calm_redis mem_observe"
proof -
  note L = redis_lawsD [OF mem_redis_laws, where s = "calm s" for s, unfolded applies_calm mem_observe_calm]
  show ?thesis unfolding redis_laws_def calm_redis_def redis.simps by (intro conjI allI L)
qed

section \<open>The server's passing of time\<close>

definition elapse_law :: "('s \<Rightarrow> redis_view) \<Rightarrow> (time \<Rightarrow> 's \<Rightarrow> 's) \<Rightarrow> bool" where
  "elapse_law view elapse \<longleftrightarrow> (\<forall>dt s. 0 \<le> dt \<longrightarrow> view (elapse dt s) = e_elapse dt (view s))"

definition mem_elapse :: "time \<Rightarrow> mem_server \<Rightarrow> mem_server" where
  "mem_elapse dt s = on_view (e_elapse dt) s"

lemma mem_elapse_law: "elapse_law mem_observe mem_elapse"
  unfolding elapse_law_def mem_elapse_def mem_observe_def on_view_def e_elapse_def Let_def
  by (intro allI impI, rule redis_view.equality) (simp_all cong: if_cong option.case_cong)

end
