(* ===== verification/Base64.thy ===== *)
theory Base64
  imports Prelude
begin

text \<open>
  Go's \<open>encoding/base64\<close>, which the program uses in three variants: \<open>StdEncoding\<close> (padded) and
  \<open>RawStdEncoding\<close> for the validation of nonces and public keys, \<open>RawURLEncoding\<close> for refresh
  tokens. Bytes are \<open>char\<close>s. The decoder is Go's default, non-strict one: it skips CR and LF
  wherever they stand and ignores the unused low bits of the last symbol.
\<close>

definition std_alphabet :: string where
  "std_alphabet = ''ABCDEFGHIJKLMNOPQRSTUVWXYZabcdefghijklmnopqrstuvwxyz0123456789+/''"

definition url_alphabet :: string where
  "url_alphabet = ''ABCDEFGHIJKLMNOPQRSTUVWXYZabcdefghijklmnopqrstuvwxyz0123456789-_''"

definition enc6 :: "string \<Rightarrow> nat \<Rightarrow> char" where
  "enc6 al n = al ! n"

definition dec6 :: "string \<Rightarrow> char \<Rightarrow> nat option" where
  "dec6 al c = map_of (zip al [0..<64]) c"

fun b64_encode :: "string \<Rightarrow> bool \<Rightarrow> string \<Rightarrow> string" where
  "b64_encode al pad [] = []"
| "b64_encode al pad [a] =
     [enc6 al (of_char a div 4), enc6 al ((of_char a mod 4) * 16)]
     @ (if pad then ''=='' else [])"
| "b64_encode al pad [a, b] =
     [enc6 al (of_char a div 4), enc6 al ((of_char a mod 4) * 16 + of_char b div 16),
      enc6 al ((of_char b mod 16) * 4)]
     @ (if pad then ''='' else [])"
| "b64_encode al pad (a # b # c # r) =
     [enc6 al (of_char a div 4), enc6 al ((of_char a mod 4) * 16 + of_char b div 16),
      enc6 al ((of_char b mod 16) * 4 + of_char c div 64), enc6 al (of_char c mod 64)]
     @ b64_encode al pad r"

fun dec_quanta :: "string \<Rightarrow> bool \<Rightarrow> string \<Rightarrow> string option" where
  "dec_quanta al pad [] = Some []"
| "dec_quanta al pad [a] = None"
| "dec_quanta al pad [a, b] =
     (if pad then None
      else case (dec6 al a, dec6 al b) of
        (Some x, Some y) \<Rightarrow> Some [char_of (x * 4 + y div 16)]
      | _ \<Rightarrow> None)"
| "dec_quanta al pad [a, b, c] =
     (if pad then None
      else case (dec6 al a, dec6 al b, dec6 al c) of
        (Some x, Some y, Some z) \<Rightarrow>
          Some [char_of (x * 4 + y div 16), char_of ((y mod 16) * 16 + z div 4)]
      | _ \<Rightarrow> None)"
| "dec_quanta al pad (a # b # c # d # r) =
     (case (dec6 al a, dec6 al b) of
        (Some x, Some y) \<Rightarrow>
          (case dec6 al c of
             Some z \<Rightarrow>
               (case dec6 al d of
                  Some w \<Rightarrow>
                    map_option (\<lambda>t. [char_of (x * 4 + y div 16),
                                     char_of ((y mod 16) * 16 + z div 4),
                                     char_of ((z mod 4) * 64 + w)] @ t)
                      (dec_quanta al pad r)
                | None \<Rightarrow>
                    if pad \<and> d = CHR ''='' \<and> r = []
                    then Some [char_of (x * 4 + y div 16), char_of ((y mod 16) * 16 + z div 4)]
                    else None)
           | None \<Rightarrow>
               if pad \<and> c = CHR ''='' \<and> d = CHR ''='' \<and> r = []
               then Some [char_of (x * 4 + y div 16)]
               else None)
      | _ \<Rightarrow> None)"

definition is_newline :: "char \<Rightarrow> bool" where
  "is_newline c \<longleftrightarrow> c = CHR 0x0A \<or> c = CHR 0x0D"

definition b64_decode :: "string \<Rightarrow> bool \<Rightarrow> string \<Rightarrow> string option" where
  "b64_decode al pad s = dec_quanta al pad (filter (\<lambda>c. \<not> is_newline c) s)"

definition StdEncoding_DecodeString :: "string \<Rightarrow> string option" where
  "StdEncoding_DecodeString s = b64_decode std_alphabet True s"

definition RawStdEncoding_DecodeString :: "string \<Rightarrow> string option" where
  "RawStdEncoding_DecodeString s = b64_decode std_alphabet False s"

definition RawURLEncoding_EncodeToString :: "string \<Rightarrow> string" where
  "RawURLEncoding_EncodeToString bs = b64_encode url_alphabet False bs"

text \<open>Induction in steps of three bytes and of four symbols.\<close>

lemmas quanta_induct =
  b64_encode.induct [of "\<lambda>_ _ bs. P bs" for P, simplified]

lemma quanta4_induct [case_names Nil One Two Three Quantum]:
  assumes "P []" "\<And>a. P [a]" "\<And>a b. P [a, b]" "\<And>a b c. P [a, b, c]"
    "\<And>a b c d r. P r \<Longrightarrow> P (a # b # c # d # r)"
  shows "P s"
  using assms by induction_schema (pat_completeness, lexicographic_order)

lemma div_bounds:
  "of_char (b::char) div 16 < (16::nat)" "of_char (c::char) div 64 < (4::nat)"
  by (rule less_mult_imp_div_less, simp)+

section \<open>What an alphabet promises\<close>

locale base64_alphabet =
  fixes al :: string
  assumes length_al: "length al = 64"
    and distinct_al: "distinct al"
    and special_al: "CHR ''='' \<notin> set al" "CHR 0x0A \<notin> set al" "CHR 0x0D \<notin> set al"
begin

lemma dec6_enc6 [simp]: "n < 64 \<Longrightarrow> dec6 al (enc6 al n) = Some n"
  using map_of_zip_nth [of al "[0..<64]" n] length_al distinct_al
  by (simp add: dec6_def enc6_def)

lemma enc6_in [simp]: "n < 64 \<Longrightarrow> enc6 al n \<in> set al"
  by (simp add: enc6_def length_al)

lemma dec6_Some_iff: "(\<exists>n. dec6 al c = Some n) \<longleftrightarrow> c \<in> set al"
  using map_of_zip_is_Some [of al "[0..<64]" c] length_al by (auto simp: dec6_def)

lemma dec6_pad [simp]: "dec6 al (CHR ''='') = None"
  using dec6_Some_iff [of "CHR ''=''"] special_al by (cases "dec6 al (CHR ''='')") auto

lemma of_char_bounds:
  "of_char (c::char) div 4 < (64::nat)" "of_char c mod 4 * 16 + of_char d div 16 < (64::nat)"
  "of_char c mod 4 * 16 < (64::nat)" "of_char c mod 16 * 4 < (64::nat)"
  "of_char c mod 16 * 4 + of_char (d::char) div 64 < (64::nat)"
proof -
  have m: "of_char c mod 4 < (4::nat)" "of_char c mod 16 < (16::nat)" by simp_all
  note d = div_bounds(1) [of d] div_bounds(2) [of d]
  show "of_char (c::char) div 4 < (64::nat)" by (rule less_mult_imp_div_less) simp
  show "of_char c mod 4 * 16 + of_char d div 16 < (64::nat)" using m d by linarith
  show "of_char c mod 4 * 16 < (64::nat)" using m by linarith
  show "of_char c mod 16 * 4 < (64::nat)" using m by linarith
  show "of_char c mod 16 * 4 + of_char d div 64 < (64::nat)" using m d by linarith
qed

lemma byte_1: "char_of (of_char a div 4 * 4 + (of_char a mod 4 * 16 + k) div 16) = a"
  if "k < 16" for a :: char and k :: nat
proof -
  have "(of_char a mod 4 * 16 + k) div 16 = (of_char a mod 4 :: nat)" using that by simp
  then have "of_char a div 4 * 4 + (of_char a mod 4 * 16 + k) div 16 = (of_char a :: nat)"
    by (metis div_mult_mod_eq)
  then show ?thesis by (metis char_of_char)
qed

lemma byte_2: "char_of ((j * 16 + of_char b div 16) mod 16 * 16 + (of_char b mod 16 * 4 + k) div 4) = b"
  if "k < 4" for b :: char and j k :: nat
proof -
  have "(j * 16 + of_char b div 16) mod 16 = (of_char b div 16 :: nat)" using div_bounds(1) [of b] by simp
  moreover have "(of_char b mod 16 * 4 + k) div 4 = (of_char b mod 16 :: nat)" using that by simp
  ultimately have "(j * 16 + of_char b div 16) mod 16 * 16 + (of_char b mod 16 * 4 + k) div 4
      = (of_char b :: nat)" by simp
  then show ?thesis by (metis char_of_char)
qed

lemma byte_3: "char_of ((j * 4 + of_char c div 64) mod 4 * 64 + of_char c mod 64) = c"
  for c :: char and j :: nat
proof -
  have "(j * 4 + of_char c div 64) mod 4 = (of_char c div 64 :: nat)" using div_bounds(2) [of c] by simp
  then have "(j * 4 + of_char c div 64) mod 4 * 64 + of_char c mod 64 = (of_char c :: nat)" by simp
  then show ?thesis by (metis char_of_char)
qed

lemma mod64_bound: "of_char (c::char) mod 64 < (64::nat)"
  by simp

lemmas quantum_dec =
  dec6_enc6 [OF of_char_bounds(1)] dec6_enc6 [OF of_char_bounds(2)]
  dec6_enc6 [OF of_char_bounds(3)] dec6_enc6 [OF of_char_bounds(4)]
  dec6_enc6 [OF of_char_bounds(5)] dec6_enc6 [OF mod64_bound]

lemmas quantum_bytes =
  byte_1 [OF div_bounds(1)] byte_1 [of 0, simplified add_0_right]
  byte_2 [OF div_bounds(2)] byte_2 [of 0, simplified add_0_right] byte_3

lemma dec_enc: "dec_quanta al pad (b64_encode al pad bs) = Some bs"
proof (induction bs rule: quanta_induct)
  case 1
  show ?case by simp
next
  case (2 a)
  show ?case
    by (cases pad) (simp_all only: b64_encode.simps dec_quanta.simps append.simps if_True if_False
        quantum_dec dec6_pad quantum_bytes option.case prod.case simp_thms)
next
  case (3 a b)
  show ?case
    by (cases pad) (simp_all only: b64_encode.simps dec_quanta.simps append.simps if_True if_False
        quantum_dec dec6_pad quantum_bytes option.case prod.case simp_thms)
next
  case (4 a b c r)
  then show ?case
    by (simp only: b64_encode.simps dec_quanta.simps append.simps
        quantum_dec quantum_bytes option.case prod.case option.map)
qed

lemma encode_alphabet: "set (b64_encode al False bs) \<subseteq> set al"
  by (induction bs rule: quanta_induct) (simp_all add: of_char_bounds)

lemma encode_no_newline: "filter (\<lambda>c. \<not> is_newline c) (b64_encode al pad bs) = b64_encode al pad bs"
proof -
  have al: "c \<in> set al \<Longrightarrow> \<not> is_newline c" for c
    using special_al by (auto simp: is_newline_def)
  have eq: "\<not> is_newline (CHR ''='')" by (simp add: is_newline_def)
  show ?thesis
    by (induction bs rule: quanta_induct) (simp_all add: al eq of_char_bounds)
qed

lemma decode_encode: "b64_decode al pad (b64_encode al pad bs) = Some bs"
  by (simp only: b64_decode_def encode_no_newline dec_enc)

lemma encode_inject: "b64_encode al pad xs = b64_encode al pad ys \<longleftrightarrow> xs = ys"
  by (metis dec_enc option.inject)

lemma dec6_None: "dec6 al c = None \<longleftrightarrow> c \<notin> set al"
  using dec6_Some_iff [of c] by (cases "dec6 al c") auto

lemma dec6_SomeD: "dec6 al c = Some n \<Longrightarrow> c \<in> set al"
  using dec6_Some_iff [of c] by auto

text \<open>A padded text is four symbols per three bytes, less the bytes the padding stands for.\<close>

lemma dec_quanta_shape:
  "dec_quanta al True s = Some bs \<Longrightarrow>
     \<exists>p \<le> 2. 3 * length s = 4 * (length bs + p) \<and> (p = 0 \<longrightarrow> set s \<subseteq> set al)"
proof (induction s arbitrary: bs rule: quanta4_induct)
  case (Quantum a b c d r)
  from Quantum.prems obtain x y where xy: "dec6 al a = Some x" "dec6 al b = Some y"
    by (auto split: option.splits)
  show ?case
  proof (cases "dec6 al c = None \<or> dec6 al d = None")
    case True
    with Quantum xy show ?thesis by (auto split: option.splits if_splits)
  next
    case False
    with Quantum xy obtain t where t: "dec_quanta al True r = Some t" and len: "length bs = 3 + length t"
      by (auto split: option.splits if_splits)
    from Quantum.IH[OF t] obtain p where p: "p \<le> 2" "3 * length r = 4 * (length t + p)"
      "p = 0 \<longrightarrow> set r \<subseteq> set al" by blast
    moreover have "{a, b, c, d} \<subseteq> set al"
      using False xy by (auto simp: dec6_None dest: dec6_SomeD)
    ultimately show ?thesis using len by (intro exI [of _ p]) auto
  qed
qed auto

lemma dec_quanta_total:
  assumes "set s \<subseteq> set al" "length s = 4 * k"
  shows "\<exists>bs. dec_quanta al pad s = Some bs \<and> length bs = 3 * k"
  using assms
proof (induction s arbitrary: k rule: quanta4_induct)
  case (Quantum a b c d r)
  then obtain k' where k: "k = Suc k'" by (cases k) auto
  with Quantum obtain t where "dec_quanta al pad r = Some t" "length t = 3 * k'" by auto
  moreover from Quantum.prems obtain x y z w
    where "dec6 al a = Some x" "dec6 al b = Some y" "dec6 al c = Some z" "dec6 al d = Some w"
    by (auto simp flip: dec6_Some_iff)
  ultimately show ?case using k by simp
next
  case (Two a b)
  then have "4 dvd (2::nat)" by (metis dvd_triv_left length_Cons list.size(3) numeral_2_eq_2)
  then show ?case by simp
next
  case (Three a b c)
  then have "4 dvd (3::nat)" by (metis dvd_triv_left length_Cons list.size(3) numeral_3_eq_3)
  then show ?case by simp
qed auto

end

interpretation std: base64_alphabet std_alphabet
  by unfold_locales (simp_all add: std_alphabet_def)

interpretation url: base64_alphabet url_alphabet
  by unfold_locales (simp_all add: url_alphabet_def)

section \<open>The three variants\<close>

lemma length_encode: "length (b64_encode al False bs) = (4 * length bs + 2) div 3"
  by (induction bs rule: quanta_induct) auto

lemma RawURLEncoding_inject:
  "RawURLEncoding_EncodeToString xs = RawURLEncoding_EncodeToString ys \<longleftrightarrow> xs = ys"
  by (simp add: RawURLEncoding_EncodeToString_def url.encode_inject)

text \<open>
  Go's decoder accepts a 12-byte value exactly when, line breaks removed, it is sixteen symbols
  of the alphabet.
\<close>

lemma StdEncoding_12_iff:
  "(\<exists>bs. StdEncoding_DecodeString s = Some bs \<and> length bs = 12) \<longleftrightarrow>
     length (filter (\<lambda>c. \<not> is_newline c) s) = 16 \<and>
     set (filter (\<lambda>c. \<not> is_newline c) s) \<subseteq> set std_alphabet"
  (is "?L \<longleftrightarrow> length ?t = 16 \<and> ?R")
proof
  assume ?L
  then obtain bs where bs: "dec_quanta std_alphabet True ?t = Some bs" "length bs = 12"
    by (auto simp: StdEncoding_DecodeString_def b64_decode_def)
  from std.dec_quanta_shape [OF bs(1)] obtain p where p: "p \<le> 2"
    "3 * length ?t = 4 * (12 + p)" "p = 0 \<longrightarrow> set ?t \<subseteq> set std_alphabet"
    using bs(2) by auto
  from p(1) have "p = 0 \<or> p = 1 \<or> p = 2" by linarith
  with p(2) have "p = 0" by (elim disjE) presburger+
  with p show "length ?t = 16 \<and> ?R" by simp
next
  assume R: "length ?t = 16 \<and> ?R"
  then have "length ?t = 4 * 4" by simp
  from std.dec_quanta_total [OF _ this] R show ?L
    by (auto simp: StdEncoding_DecodeString_def b64_decode_def)
qed

end
