(* ===== verification/Tokens.thy ===== *)
theory Tokens
  imports Redis_API Base64
begin

text \<open>
  The credentials of a session: \<open>jwt.go\<close>, \<open>refresh_token.go\<close> and \<open>ws_ticket.go\<close> of
  \<open>internal/http\<close>. Random bytes are an argument: \<open>None\<close> when \<open>rand.Read\<close> fails. The JWT library
  is an argument as well.
\<close>

section \<open>Access tokens\<close>

record Claims =
  cm_UserID :: int64
  cm_Username :: string
  cm_Subject :: string
  cm_ExpiresAt :: time
  cm_IssuedAt :: time

datatype signing_method = HMAC string | OtherMethod string

text \<open>
  \<open>ParseWithClaims\<close> gets the instant of the call, the token and the key function, and answers
  with the claims and \<open>token.Valid\<close>, or fails.
\<close>

record jwt_lib =
  SignedString :: "signing_method \<Rightarrow> string \<Rightarrow> Claims \<Rightarrow> string option"
  ParseWithClaims :: "time \<Rightarrow> string \<Rightarrow> (signing_method \<Rightarrow> string option) \<Rightarrow> (Claims \<times> bool) option"
  NewNumericDate :: "time \<Rightarrow> time"

record JWTManager =
  jm_secret :: string
  jm_ttl :: time

text \<open>\<open>NewJWTManager\<close> panics on an empty secret.\<close>

definition NewJWTManager :: "string \<Rightarrow> JWTManager option" where
  "NewJWTManager secret =
     (if secret = [] then None else Some \<lparr>jm_secret = secret, jm_ttl = 15 * minute\<rparr>)"

definition jwt_Generate :: "jwt_lib \<Rightarrow> JWTManager \<Rightarrow> time \<Rightarrow> int64 \<Rightarrow> string \<Rightarrow> string option" where
  "jwt_Generate lib m now userID username =
     SignedString lib (HMAC ''HS256'') (jm_secret m)
       \<lparr>cm_UserID = userID, cm_Username = username, cm_Subject = FormatInt userID,
        cm_ExpiresAt = NewNumericDate lib (now + jm_ttl m), cm_IssuedAt = NewNumericDate lib now\<rparr>"

definition key_func :: "JWTManager \<Rightarrow> signing_method \<Rightarrow> string option" where
  "key_func m meth = (case meth of HMAC _ \<Rightarrow> Some (jm_secret m) | OtherMethod _ \<Rightarrow> None)"

definition jwt_Parse :: "jwt_lib \<Rightarrow> JWTManager \<Rightarrow> time \<Rightarrow> string \<Rightarrow> Claims option" where
  "jwt_Parse lib m now tokenStr =
     (case ParseWithClaims lib now tokenStr (key_func m) of
        None \<Rightarrow> None
      | Some (claims, valid) \<Rightarrow> if \<not> valid then None else Some claims)"

section \<open>Refresh tokens\<close>

definition refreshTokenTTL :: time where
  "refreshTokenTTL = 30 * 24 * 60 * minute"

definition refreshTokenPrefix :: string where
  "refreshTokenPrefix = ''rt:''"

definition newRefreshToken :: "string option \<Rightarrow> string option" where
  "newRefreshToken entropy = map_option RawURLEncoding_EncodeToString entropy"

definition storeRefreshToken ::
  "'s redis \<Rightarrow> string \<Rightarrow> int64 \<Rightarrow> 's \<Rightarrow> (redis_error + unit) \<times> 's" where
  "storeRefreshToken R token userID =
     rd_Set R (refreshTokenPrefix @ token) (FormatInt userID) refreshTokenTTL"

datatype token_error = InvalidRefreshToken | TokenNotInt | TokenRedis string

definition lookupRefreshToken :: "'s redis \<Rightarrow> string \<Rightarrow> 's \<Rightarrow> (token_error + int64) \<times> 's" where
  "lookupRefreshToken R token s =
     (case rd_Get R (refreshTokenPrefix @ token) s of
        (Inl RedisNil, s') \<Rightarrow> (Inl InvalidRefreshToken, s')
      | (Inl (RedisErr e), s') \<Rightarrow> (Inl (TokenRedis e), s')
      | (Inr v, s') \<Rightarrow> (case parse_int64 v of Inr i \<Rightarrow> (Inr i, s') | Inl _ \<Rightarrow> (Inl TokenNotInt, s')))"

definition deleteRefreshToken :: "'s redis \<Rightarrow> string \<Rightarrow> 's \<Rightarrow> (redis_error + unit) \<times> 's" where
  "deleteRefreshToken R token = rd_Del R (refreshTokenPrefix @ token)"

section \<open>WebSocket tickets\<close>

definition ticketTTL :: time where
  "ticketTTL = 30 * second"

definition ticketPrefix :: string where
  "ticketPrefix = ''ws:ticket:''"

definition hex_digit :: "nat \<Rightarrow> char" where
  "hex_digit n = ''0123456789abcdef'' ! n"

text \<open>\<open>hex.EncodeToString\<close>.\<close>

definition hex_encode :: "string \<Rightarrow> string" where
  "hex_encode bs = concat (map (\<lambda>b. [hex_digit (of_char b div 16), hex_digit (of_char b mod 16)]) bs)"

definition generateTicket :: "string option \<Rightarrow> string option" where
  "generateTicket entropy = map_option hex_encode entropy"

definition ticket_value :: "AuthUser \<Rightarrow> string" where
  "ticket_value u = FormatInt (au_ID u) @ '':'' @ au_Username u"

definition WSTicketHandler :: "'s redis \<Rightarrow> string option \<Rightarrow> 's handler" where
  "WSTicketHandler R entropy r s =
     (case CurrentUser r of
        None \<Rightarrow> (http_Error ''unauthorized'' 401, s)
      | Some user \<Rightarrow>
          (case generateTicket entropy of
             None \<Rightarrow> (http_Error ''failed to generate ticket'' 500, s)
           | Some ticket \<Rightarrow>
               (case rd_Set R (ticketPrefix @ ticket) (ticket_value user) ticketTTL s of
                  (Inl _, s') \<Rightarrow> (http_Error ''failed to store ticket'' 500, s')
                | (Inr _, s') \<Rightarrow> (json_body 200 (JObj [(''ticket'', JStr ticket)]), s'))))"

text \<open>The part of \<open>WSAuthMiddleware\<close> that tries the ticket.\<close>

definition redeem_ticket :: "'s redis \<Rightarrow> string \<Rightarrow> 's \<Rightarrow> AuthUser option \<times> 's" where
  "redeem_ticket R ticket s =
     (if ticket = [] then (None, s)
      else case rd_GetDel R (ticketPrefix @ ticket) s of
             (Inl _, s') \<Rightarrow> (None, s')
           | (Inr val, s') \<Rightarrow>
               (case split_n2 CHR '':'' val of
                  [a, b] \<Rightarrow>
                    (case parse_int64 a of
                       Inr i \<Rightarrow> (Some \<lparr>au_ID = i, au_Username = b\<rparr>, s')
                     | Inl _ \<Rightarrow> (None, s'))
                | _ \<Rightarrow> (None, s')))"

section \<open>A ticket opens one connection\<close>

text \<open>
  A history of the ticket endpoint and the WebSocket handshake: tickets are issued (with the
  random bytes drawn), presented, and time passes (\<open>elapse\<close> is the server's passing of time). The
  two counts are the attempts to issue the ticket \<open>t\<close> and the handshakes that got a user for it.
\<close>

datatype ticket_op = Issue string AuthUser | Redeem string | Wait nat

definition ticket_request :: "AuthUser \<Rightarrow> request" where
  "ticket_request u =
     \<lparr>rq_method = ''POST'', rq_vars = [], rq_query = [], rq_header = [], rq_remote = [],
      rq_body = None, rq_body_len = 0, rq_user = Some u\<rparr>"

fun ticket_step ::
  "'s redis \<Rightarrow> (time \<Rightarrow> 's \<Rightarrow> 's) \<Rightarrow> string \<Rightarrow> ticket_op \<Rightarrow> 's \<Rightarrow> nat \<times> nat \<times> 's" where
  "ticket_step R elapse t (Issue bytes u) s =
     (case WSTicketHandler R (Some bytes) (ticket_request u) s of
        (_, s') \<Rightarrow> (if hex_encode bytes = t then 1 else 0, 0, s'))"
| "ticket_step R elapse t (Redeem x) s =
     (case redeem_ticket R x s of
        (res, s') \<Rightarrow> (0, if x = t \<and> res \<noteq> None then 1 else 0, s'))"
| "ticket_step R elapse t (Wait dt) s = (0, 0, elapse (int dt) s)"

fun ticket_history ::
  "'s redis \<Rightarrow> (time \<Rightarrow> 's \<Rightarrow> 's) \<Rightarrow> string \<Rightarrow> ticket_op list \<Rightarrow> 's \<Rightarrow> nat \<times> nat" where
  "ticket_history R elapse t [] s = (0, 0)"
| "ticket_history R elapse t (op # ops) s =
     (case ticket_step R elapse t op s of
        (i, r, s') \<Rightarrow> (case ticket_history R elapse t ops s' of (i', r') \<Rightarrow> (i + i', r + r')))"

definition ticket_live :: "string \<Rightarrow> redis_view \<Rightarrow> bool" where
  "ticket_live t w \<longleftrightarrow> rv_str w (ticketPrefix @ t) \<noteq> None"

lemma ticket_live_effects:
  "ticket_live t (e_del (ticketPrefix @ x) w) \<longleftrightarrow> ticket_live t w \<and> x \<noteq> t"
  "ticket_live t (e_set (ticketPrefix @ x) v ttl w) \<longleftrightarrow> ticket_live t w \<or> x = t"
  "ticket_live t (e_elapse dt w) \<Longrightarrow> ticket_live t w"
  by (auto simp: ticket_live_def e_del_def e_set_def e_elapse_def Let_def split: if_splits)

lemma ticket_step_potential:
  assumes "redis_laws R view" "elapse_law view elapse" "ticket_step R elapse t op s = (i, r, s')"
  shows "r + (if ticket_live t (view s') then 1 else 0) \<le> i + (if ticket_live t (view s) then 1 else 0)"
proof (cases op)
  case (Issue bytes u)
  obtain res s1 where g: "rd_Set R (ticketPrefix @ hex_encode bytes) (ticket_value u) ticketTTL s = (res, s1)"
    by fastforce
  have s1: "s' = s1" "r = 0" "i = (if hex_encode bytes = t then 1 else 0)"
    using assms(3) Issue g
    by (auto simp: WSTicketHandler_def CurrentUser_def ticket_request_def generateTicket_def split: sum.splits prod.splits)
  have "view s1 = view s \<or> view s1 = e_set (ticketPrefix @ hex_encode bytes) (ticket_value u) ticketTTL (view s)"
    using redis_lawsD(3) [OF assms(1), of "ticketPrefix @ hex_encode bytes" "ticket_value u" ticketTTL s] g
    by (metis appliesD(4))
  then show ?thesis using s1 by (auto simp: ticket_live_effects)
next
  case (Redeem x)
  show ?thesis
  proof (cases "x = []")
    case True
    with assms(3) Redeem show ?thesis by (simp add: redeem_ticket_def)
  next
    case False
    obtain res s1 where g: "rd_GetDel R (ticketPrefix @ x) s = (res, s1)" by fastforce
    have rd: "reads view (e_del (ticketPrefix @ x)) (ticketPrefix @ x) s (res, s1)"
      using redis_lawsD(2) [OF assms(1), of "ticketPrefix @ x" s] g by simp
    have s1: "s' = s1" "i = 0"
      using assms(3) Redeem False g by (auto simp: redeem_ticket_def split: sum.splits list.splits)
    show ?thesis
    proof (cases "r = 0")
      case True
      with readsD(3) [OF rd] s1 show ?thesis by (auto simp: ticket_live_effects)
    next
      case rne: False
      obtain u where u: "redeem_ticket R x s = (u, s')" "r = (if x = t \<and> u \<noteq> None then 1 else 0)"
        using assms(3) Redeem by (auto split: prod.splits)
      with rne have "x = t" "u \<noteq> None" by (auto split: if_splits)
      moreover have "\<exists>v. res = Inr v" using u(1) \<open>u \<noteq> None\<close> False g by (cases res) (auto simp: redeem_ticket_def)
      ultimately obtain v where v: "res = Inr v" "x = t" by blast
      from readsD(1) [OF rd v(1)] have "ticket_live t (view s)" "view s1 = e_del (ticketPrefix @ x) (view s)"
        using v(2) by (auto simp: ticket_live_def)
      moreover have "r \<le> 1" using assms(3) Redeem by (auto split: prod.splits)
      ultimately show ?thesis using s1 v(2) by (auto simp: ticket_live_effects)
    qed
  qed
next
  case (Wait dt)
  then have "i = 0" "r = 0" "view s' = e_elapse (int dt) (view s)"
    using assms(2,3) by (auto simp: elapse_law_def)
  then show ?thesis using ticket_live_effects(3) by auto
qed

text \<open>
  C34: a WebSocket ticket opens one connection. Over any history of issuing, presenting and
  waiting, with any Redis failures, the number of handshakes that got a user out of a ticket is
  at most the number of times it was issued (plus one if it was stored already at the start).
\<close>

theorem ticket_single_use:
  assumes "redis_laws R view" "elapse_law view elapse" "ticket_history R elapse t ops s = (issued, redeemed)"
  shows "redeemed \<le> issued + (if ticket_live t (view s) then 1 else 0)"
  using assms(3)
proof (induction ops arbitrary: s issued redeemed)
  case (Cons op ops)
  obtain i r s' where st: "ticket_step R elapse t op s = (i, r, s')" using prod_cases3 by blast
  obtain i' r' where h: "ticket_history R elapse t ops s' = (i', r')" by fastforce
  from ticket_step_potential [OF assms(1,2) st] Cons.IH [OF h] Cons.prems st h show ?case by simp
qed simp

definition demo_bytes :: string where
  "demo_bytes = ''0123456789abcdef''"

definition demo_ticket :: string where
  "demo_ticket = ''30313233343536373839616263646566''"

lemma demo_ticket_hex: "hex_encode demo_bytes = demo_ticket"
  unfolding demo_bytes_def demo_ticket_def by code_simp

lemma FormatInt_7: "FormatInt 7 = ''7''"
  by code_simp

lemma parse_7: "split_n2 CHR '':'' ''7:alice'' = [''7'', ''alice'']" "parse_int64 ''7'' = Inr 7"
  using parse_int64_FormatInt [of 7] by (simp_all add: split_n2_def FormatInt_7)

lemma demo_ticket_history:
  "ticket_history mem_redis mem_elapse demo_ticket
     [Issue demo_bytes \<lparr>au_ID = 7, au_Username = ''alice''\<rparr>, Wait 5, Redeem demo_ticket, Redeem demo_ticket]
     mem_empty = (1, 1)"
proof -
  let ?u = "\<lparr>au_ID = 7, au_Username = ''alice''\<rparr>"
  let ?k = "ticketPrefix @ demo_ticket"
  let ?s1 = "on_view (e_set ?k ''7:alice'' ticketTTL) mem_empty"
  have "snd (WSTicketHandler mem_redis (Some demo_bytes) (ticket_request ?u) mem_empty) = ?s1"
    by (simp add: WSTicketHandler_def CurrentUser_def ticket_request_def generateTicket_def demo_ticket_hex
        mem_redis_no_faults ticket_value_def FormatInt_7)
  then have issue: "ticket_step mem_redis mem_elapse demo_ticket (Issue demo_bytes ?u) mem_empty = (1, 0, ?s1)"
    by (simp add: demo_ticket_hex case_prod_beta)
  have ne: "demo_ticket \<noteq> []" by (simp add: demo_ticket_def)
  have hit: "rv_str (mem_view (mem_elapse 5 ?s1)) ?k = Some ''7:alice''"
    by (simp add: mem_elapse_def e_elapse_def e_set_def ticketTTL_def Let_def)
  have first: "redeem_ticket mem_redis demo_ticket (mem_elapse 5 ?s1) =
      (Some ?u, on_view (e_del ?k) (mem_elapse 5 ?s1))"
    using ne hit by (simp add: redeem_ticket_def mem_redis_no_faults parse_7 mem_elapse_def)
  have second: "redeem_ticket mem_redis demo_ticket (on_view (e_del ?k) (mem_elapse 5 ?s1)) =
      (None, on_view (e_del ?k) (mem_elapse 5 ?s1))"
    using ne by (simp add: redeem_ticket_def mem_redis_no_faults mem_elapse_def e_del_def)
  show ?thesis using issue first second by simp
qed

theorem ticket_single_use_witness:
  "snd (ticket_history mem_redis mem_elapse demo_ticket
     [Issue demo_bytes \<lparr>au_ID = 7, au_Username = ''alice''\<rparr>, Wait 5, Redeem demo_ticket, Redeem demo_ticket]
     mem_empty) \<le> 1"
  using ticket_single_use [OF mem_redis_laws mem_elapse_law demo_ticket_history]
  by (simp only: demo_ticket_history) (simp add: ticket_live_def mem_observe_def)

text \<open>
  A ticket carries the user it was issued to, for thirty seconds. A handshake that presents
  a freshly issued ticket after a wait gets exactly the id and name of the issuer's session if
  the wait was shorter than \<open>ticketTTL\<close>, whatever characters the name has, and nobody after
  that.
\<close>

theorem ticket_roundtrip:
  assumes "redis_laws R view" "elapse_law view elapse" "CurrentUser r = Some u" "hex_encode bytes \<noteq> []"
    and "WSTicketHandler R (Some bytes) r s = (resp, s1)" "rs_status resp = 200"
    and "min_int64 \<le> au_ID u" "au_ID u \<le> max_int64" "0 \<le> dt"
    and "\<And>e s2. rd_GetDel R (ticketPrefix @ hex_encode bytes) (elapse dt s1) \<noteq> (Inl (RedisErr e), s2)"
  shows "fst (redeem_ticket R (hex_encode bytes) (elapse dt s1)) = (if dt < ticketTTL then Some u else None)"
proof -
  let ?k = "ticketPrefix @ hex_encode bytes"
  from assms(3,5,6) have set: "rd_Set R ?k (ticket_value u) ticketTTL s = (Inr (), s1)"
    by (auto simp: WSTicketHandler_def generateTicket_def split: sum.splits prod.splits)
  have v1: "view s1 = e_set ?k (ticket_value u) ticketTTL (view s)"
    using redis_lawsD(3) [OF assms(1), of ?k "ticket_value u" ticketTTL s] set by (metis appliesD(2))
  let ?s2 = "elapse dt s1"
  have v2: "view ?s2 = e_elapse dt (view s1)" using assms(2,9) by (simp add: elapse_law_def)
  have str: "rv_str (view ?s2) ?k = (if dt < ticketTTL then Some (ticket_value u) else None)"
    by (simp add: v2 v1 e_elapse_def e_set_def Let_def)
  obtain res s3 where g: "rd_GetDel R ?k ?s2 = (res, s3)" by fastforce
  have rd: "reads view (e_del ?k) ?k ?s2 (res, s3)"
    using redis_lawsD(2) [OF assms(1), of ?k ?s2] g by simp
  have val: "split_n2 CHR '':'' (ticket_value u) = [FormatInt (au_ID u), au_Username u]"
    unfolding ticket_value_def using split_n2_append [OF FormatInt_no_colon] by simp
  have parse: "parse_int64 (FormatInt (au_ID u)) = Inr (au_ID u)"
    using assms(7,8) by (rule parse_int64_FormatInt)
  show ?thesis
  proof (cases res)
    case (Inl e)
    then have "e = RedisNil" using assms(10) g by (cases e) auto
    with readsD(2) [OF rd] Inl str have "\<not> dt < ticketTTL" by (auto split: if_splits)
    with Inl g assms(4) show ?thesis by (simp add: redeem_ticket_def)
  next
    case (Inr v)
    with readsD(1) [OF rd] str have "dt < ticketTTL" "v = ticket_value u" by (auto split: if_splits)
    with Inr g assms(4) val parse show ?thesis by (simp add: redeem_ticket_def)
  qed
qed

theorem ticket_roundtrip_witness:
  "fst (redeem_ticket mem_redis demo_ticket (mem_elapse 29
     (snd (WSTicketHandler mem_redis (Some demo_bytes) (ticket_request \<lparr>au_ID = 7, au_Username = ''a:b''\<rparr>) mem_empty))))
   = Some \<lparr>au_ID = 7, au_Username = ''a:b''\<rparr>"
proof -
  let ?u = "\<lparr>au_ID = 7, au_Username = ''a:b''\<rparr>"
  obtain resp s1 where i: "WSTicketHandler mem_redis (Some demo_bytes) (ticket_request ?u) mem_empty = (resp, s1)"
    and st: "rs_status resp = 200" and nf: "mem_faults s1 = []"
    by (simp add: WSTicketHandler_def CurrentUser_def ticket_request_def generateTicket_def mem_redis_no_faults)
  have ne: "hex_encode demo_bytes \<noteq> []" by (simp add: demo_ticket_hex demo_ticket_def)
  have ok: "rd_GetDel mem_redis (ticketPrefix @ hex_encode demo_bytes) (mem_elapse 29 s1) \<noteq> (Inl (RedisErr e), s2)" for e s2
    using nf by (simp add: mem_redis_no_faults mem_elapse_def split: option.split)
  have u: "CurrentUser (ticket_request ?u) = Some ?u" by (simp add: CurrentUser_def ticket_request_def)
  show ?thesis
    using ticket_roundtrip [OF mem_redis_laws mem_elapse_law u ne i st, of 29] ok i
    by (simp add: demo_ticket_hex ticketTTL_def)
qed

end
