(* ===== verification/Presence.thy ===== *)
theory Presence
  imports Redis_API
begin

text \<open>
  \<open>internal/http/presence.go\<close>: the connection counters and the set of online users that all
  instances share through Redis. Errors the code only logs leave no trace in the model; the
  order in which a Go map is iterated is that of the list the server returned.
\<close>

record PresenceEvent =
  pe_UserID :: int64
  pe_Username :: string
  pe_Status :: string
  pe_IsSnapshot :: bool

definition presence_json :: "PresenceEvent \<Rightarrow> jv" where
  "presence_json ev =
     JObj ([(''type'', JStr ''presence''), (''userId'', JInt (pe_UserID ev)),
            (''username'', JStr (pe_Username ev)), (''status'', JStr (pe_Status ev))] @
           (if pe_IsSnapshot ev then [(''isSnapshot'', JBool True)] else []))"

definition presenceNamesKey :: string where
  "presenceNamesKey = ''presence:names''"

definition presenceConnsKey :: string where
  "presenceConnsKey = ''presence:conns:''"

definition presenceChannel :: string where
  "presenceChannel = ''presence.events''"

definition presenceConnsTTL :: time where
  "presenceConnsTTL = 2 * minute"

definition conns_key :: "int64 \<Rightarrow> string" where
  "conns_key userID = presenceConnsKey @ FormatInt userID"

definition presence_publish :: "'s redis \<Rightarrow> PresenceEvent \<Rightarrow> 's \<Rightarrow> 's" where
  "presence_publish R ev s = snd (rd_Publish R presenceChannel (presence_json ev) s)"

definition presence_Connect :: "'s redis \<Rightarrow> int64 \<Rightarrow> string \<Rightarrow> 's \<Rightarrow> (redis_error + bool) \<times> 's" where
  "presence_Connect R userID username s =
     (case rd_Incr R (conns_key userID) s of
        (Inl e, s1) \<Rightarrow> (Inl e, s1)
      | (Inr n, s1) \<Rightarrow>
          let s2 = snd (rd_Expire R (conns_key userID) presenceConnsTTL s1) in
          if n = 1 then
            let s3 = snd (rd_HSet R presenceNamesKey (FormatInt userID) username s2) in
            (Inr True,
             presence_publish R \<lparr>pe_UserID = userID, pe_Username = username, pe_Status = ''online'',
                                 pe_IsSnapshot = False\<rparr> s3)
          else (Inr False, s2))"

definition presence_Disconnect :: "'s redis \<Rightarrow> int64 \<Rightarrow> string \<Rightarrow> 's \<Rightarrow> (redis_error + bool) \<times> 's" where
  "presence_Disconnect R userID username s =
     (case rd_Decr R (conns_key userID) s of
        (Inl e, s1) \<Rightarrow> (Inl e, s1)
      | (Inr n, s1) \<Rightarrow>
          if n \<le> 0 then
            let s2 = snd (rd_Del R (conns_key userID) s1);
                s3 = snd (rd_HDel R presenceNamesKey (FormatInt userID) s2) in
            (Inr True,
             presence_publish R \<lparr>pe_UserID = userID, pe_Username = username, pe_Status = ''offline'',
                                 pe_IsSnapshot = False\<rparr> s3)
          else (Inr False, s1))"

definition presence_Refresh :: "'s redis \<Rightarrow> int64 \<Rightarrow> 's \<Rightarrow> (redis_error + unit) \<times> 's" where
  "presence_Refresh R userID = rd_Expire R (conns_key userID) presenceConnsTTL"

definition snapshot_event :: "int64 list \<Rightarrow> string \<times> string \<Rightarrow> PresenceEvent option" where
  "snapshot_event contactIDs entry =
     (case parse_int64 (fst entry) of
        Inl _ \<Rightarrow> None
      | Inr i \<Rightarrow>
          if i \<notin> set contactIDs then None
          else Some \<lparr>pe_UserID = i, pe_Username = snd entry, pe_Status = ''online'', pe_IsSnapshot = True\<rparr>)"

definition presence_GetSnapshot ::
  "'s redis \<Rightarrow> int64 list \<Rightarrow> 's \<Rightarrow> (redis_error + PresenceEvent list) \<times> 's" where
  "presence_GetSnapshot R contactIDs s =
     (if contactIDs = [] then (Inr [], s)
      else case rd_HGetAll R presenceNamesKey s of
             (Inl e, s1) \<Rightarrow> (Inl e, s1)
           | (Inr result, s1) \<Rightarrow> (Inr (List.map_filter (snapshot_event contactIDs) result), s1))"

section \<open>The counters implement connection counts\<close>

text \<open>
  The specification is a number of open connections for every user. \<open>counts\<close> relates it to what
  the server holds: a counter for every connected user and only for them, and exactly the
  connected users in the hash of names.
\<close>

definition counts :: "(int64 \<Rightarrow> nat) \<Rightarrow> redis_view \<Rightarrow> bool" where
  "counts conns w \<longleftrightarrow>
     (\<forall>u. rv_str w (conns_key u) = (if conns u = 0 then None else Some (FormatInt (int (conns u))))) \<and>
     (\<forall>u. (rv_hash w presenceNamesKey (FormatInt u) \<noteq> None) = (0 < conns u))"

text \<open>A server that answers every command.\<close>

definition reliable :: "'s redis \<Rightarrow> bool" where
  "reliable R \<longleftrightarrow>
     (\<forall>k s. \<exists>s'. rd_Del R k s = (Inr (), s')) \<and>
     (\<forall>k ttl s. \<exists>s'. rd_Expire R k ttl s = (Inr (), s')) \<and>
     (\<forall>h f v s. \<exists>s'. rd_HSet R h f v s = (Inr (), s')) \<and>
     (\<forall>h f s. \<exists>s'. rd_HDel R h f s = (Inr (), s')) \<and>
     (\<forall>c m s. \<exists>s'. rd_Publish R c m s = (Inr (), s')) \<and>
     (\<forall>h s. \<exists>al s'. rd_HGetAll R h s = (Inr al, s'))"

lemma reliable_view:
  assumes "redis_laws R view" "reliable R"
  shows "view (snd (rd_Del R k s)) = e_del k (view s)"
    "view (snd (rd_Expire R k ttl s)) = e_expire k ttl (view s)"
    "view (snd (rd_HSet R k f v s)) = e_hset k f v (view s)"
    "view (snd (rd_HDel R k f s)) = e_hdel k f (view s)"
    "view (snd (rd_Publish R k m s)) = e_publish k m (view s)"
proof -
  note L = redis_lawsD [OF assms(1)]
  note r = assms(2) [unfolded reliable_def]
  show "view (snd (rd_Del R k s)) = e_del k (view s)"
    using L(4) [of k s] r by (metis appliesD(2) snd_conv)
  show "view (snd (rd_Expire R k ttl s)) = e_expire k ttl (view s)"
    using L(7) [of k ttl s] r by (metis appliesD(2) snd_conv)
  show "view (snd (rd_HSet R k f v s)) = e_hset k f v (view s)"
    using L(8) [of k f v s] r by (metis appliesD(2) snd_conv)
  show "view (snd (rd_HDel R k f s)) = e_hdel k f (view s)"
    using L(9) [of k f s] r by (metis appliesD(2) snd_conv)
  show "view (snd (rd_Publish R k m s)) = e_publish k m (view s)"
    using L(11) [of k m s] r by (metis appliesD(2) snd_conv)
qed

lemma conns_key_inject [simp]: "conns_key u = conns_key v \<longleftrightarrow> u = v"
  by (simp add: conns_key_def)

lemma counter_counts:
  assumes "counts conns w" "int (conns u) \<le> max_int64"
  shows "counter (conns_key u) w = Some (int (conns u))"
  using assms parse_int64_FormatInt [of "int (conns u)"]
  by (auto simp: counts_def counter_def)

definition status_event :: "int64 \<Rightarrow> string \<Rightarrow> string \<Rightarrow> PresenceEvent" where
  "status_event u name st = \<lparr>pe_UserID = u, pe_Username = name, pe_Status = st, pe_IsSnapshot = False\<rparr>"

lemma Connect_step:
  assumes "redis_laws R view" "reliable R" "counts conns (view s)" "int (conns u) < max_int64"
    and "presence_Connect R u name s = (Inr first, s')"
  shows "first = (conns u = 0)" "counts (conns(u := conns u + 1)) (view s')"
    "rv_pub (view s') = rv_pub (view s) @
       (if conns u = 0 then [(presenceChannel, presence_json (status_event u name ''online''))] else [])"
    "rv_deadline (view s') (conns_key u) = Some (rv_now (view s') + presenceConnsTTL)"
    "conns u = 0 \<Longrightarrow> rv_hash (view s') presenceNamesKey (FormatInt u) = Some name"
proof -
  note V = reliable_view [OF assms(1,2)]
  obtain r s1 where i: "rd_Incr R (conns_key u) s = (r, s1)" by fastforce
  with assms(5) obtain n where r: "r = Inr n" by (cases r) (auto simp: presence_Connect_def)
  have c: "counter (conns_key u) (view s) = Some (int (conns u))"
    using assms(3,4) by (intro counter_counts) simp_all
  have ap: "applies view (e_add 1 (conns_key u)) (\<lambda>n. counter_ok 1 (conns_key u) (view s) \<and>
      counter (conns_key u) (view s) = Some (n - 1)) s (Inr n, s1)"
    using redis_lawsD(5) [OF assms(1), of "conns_key u" s] i r by simp
  from appliesD(1) [OF ap refl] c have n: "n = int (conns u) + 1" and ok: "counter_ok 1 (conns_key u) (view s)"
    by auto
  from appliesD(2) [OF ap refl] c ok
  have v1: "view s1 = (view s)\<lparr>rv_str := (rv_str (view s))(conns_key u \<mapsto> FormatInt (int (conns u) + 1))\<rparr>"
    by (simp add: e_add_def)
  have s': "s' = (if n = 1 then presence_publish R (status_event u name ''online'')
        (snd (rd_HSet R presenceNamesKey (FormatInt u) name (snd (rd_Expire R (conns_key u) presenceConnsTTL s1))))
      else snd (rd_Expire R (conns_key u) presenceConnsTTL s1))" and f: "first = (n = 1)"
    using assms(5) i r by (auto simp: presence_Connect_def Let_def status_event_def split: if_splits)
  show "first = (conns u = 0)" using f n by simp
  have view': "view s' = (if conns u = 0
      then e_publish presenceChannel (presence_json (status_event u name ''online''))
             (e_hset presenceNamesKey (FormatInt u) name (e_expire (conns_key u) presenceConnsTTL (view s1)))
      else e_expire (conns_key u) presenceConnsTTL (view s1))"
    using s' n by (simp add: presence_publish_def V)
  show "rv_pub (view s') = rv_pub (view s) @
       (if conns u = 0 then [(presenceChannel, presence_json (status_event u name ''online''))] else [])"
    by (simp add: view' v1 e_publish_def e_hset_def e_expire_def)
  show "rv_deadline (view s') (conns_key u) = Some (rv_now (view s') + presenceConnsTTL)"
    "conns u = 0 \<Longrightarrow> rv_hash (view s') presenceNamesKey (FormatInt u) = Some name"
    by (simp_all add: view' v1 e_publish_def e_hset_def e_expire_def)
  show "counts (conns(u := conns u + 1)) (view s')"
    using assms(3) unfolding counts_def
    by (auto simp: view' v1 e_publish_def e_hset_def e_expire_def)
qed

lemma Disconnect_step:
  assumes "redis_laws R view" "reliable R" "counts conns (view s)" "0 < conns u" "int (conns u) \<le> max_int64"
    and "presence_Disconnect R u name s = (Inr gone, s')"
  shows "gone = (conns u = 1)" "counts (conns(u := conns u - 1)) (view s')"
    "rv_pub (view s') = rv_pub (view s) @
       (if conns u = 1 then [(presenceChannel, presence_json (status_event u name ''offline''))] else [])"
proof -
  note V = reliable_view [OF assms(1,2)]
  obtain r s1 where i: "rd_Decr R (conns_key u) s = (r, s1)" by fastforce
  with assms(6) obtain n where r: "r = Inr n" by (cases r) (auto simp: presence_Disconnect_def)
  have c: "counter (conns_key u) (view s) = Some (int (conns u))"
    using assms(3,5) by (rule counter_counts)
  have ap: "applies view (e_add (- 1) (conns_key u)) (\<lambda>n. counter_ok (- 1) (conns_key u) (view s) \<and>
      counter (conns_key u) (view s) = Some (n + 1)) s (Inr n, s1)"
    using redis_lawsD(6) [OF assms(1), of "conns_key u" s] i r by simp
  from appliesD(1) [OF ap refl] c have n: "n = int (conns u) - 1" and ok: "counter_ok (- 1) (conns_key u) (view s)"
    by auto
  from appliesD(2) [OF ap refl] c ok
  have v1: "view s1 = (view s)\<lparr>rv_str := (rv_str (view s))(conns_key u \<mapsto> FormatInt (int (conns u) - 1))\<rparr>"
    by (simp add: e_add_def)
  have s': "s' = (if n \<le> 0 then presence_publish R (status_event u name ''offline'')
        (snd (rd_HDel R presenceNamesKey (FormatInt u) (snd (rd_Del R (conns_key u) s1)))) else s1)"
    and f: "gone = (n \<le> 0)"
    using assms(6) i r by (auto simp: presence_Disconnect_def Let_def status_event_def split: if_splits)
  have le: "n \<le> 0 \<longleftrightarrow> conns u = 1" using n assms(4) by auto
  show "gone = (conns u = 1)" using f le by simp
  have view': "view s' = (if conns u = 1
      then e_publish presenceChannel (presence_json (status_event u name ''offline''))
             (e_hdel presenceNamesKey (FormatInt u) (e_del (conns_key u) (view s1)))
      else view s1)"
    using s' le by (simp add: presence_publish_def V)
  show "rv_pub (view s') = rv_pub (view s) @
       (if conns u = 1 then [(presenceChannel, presence_json (status_event u name ''offline''))] else [])"
    by (simp add: view' v1 e_publish_def e_hdel_def e_del_def)
  obtain m where m: "conns u = Suc m" using assms(4) gr0_conv_Suc by blast
  have v1': "view s1 = (view s)\<lparr>rv_str := (rv_str (view s))(conns_key u \<mapsto> FormatInt (int m))\<rparr>"
    using v1 m by simp
  show "counts (conns(u := conns u - 1)) (view s')"
  proof (cases "m = 0")
    case True
    then show ?thesis
      using assms(3) m unfolding counts_def
      by (simp add: view' v1' e_publish_def e_hdel_def e_del_def)
  next
    case False
    then show ?thesis
      using assms(3) m unfolding counts_def by (simp add: view' v1')
  qed
qed

text \<open>
  C38: Presence counts connections across all instances. If the counters and the set of names
  are those of a number of open connections per user, then \<open>Connect\<close> answers \<open>true\<close> exactly for
  the first connection and \<open>Disconnect\<close> exactly for the last, the online and offline events
  published are exactly those two, and both keep the relation to the counts.
\<close>

theorem presence_refines_counts:
  assumes "redis_laws R view" "reliable R" "counts conns (view s)" "int (conns u) < max_int64"
  shows "(case presence_Connect R u name s of
       (Inl _, _) \<Rightarrow> True
     | (Inr first, s') \<Rightarrow> first = (conns u = 0) \<and> counts (conns(u := conns u + 1)) (view s') \<and>
         rv_pub (view s') = rv_pub (view s) @
           (if first then [(presenceChannel, presence_json (status_event u name ''online''))] else [])) \<and>
    (case presence_Disconnect R u name s of
       (Inl _, _) \<Rightarrow> True
     | (Inr gone, s') \<Rightarrow> 0 < conns u \<longrightarrow> gone = (conns u = 1) \<and> counts (conns(u := conns u - 1)) (view s') \<and>
         rv_pub (view s') = rv_pub (view s) @
           (if gone then [(presenceChannel, presence_json (status_event u name ''offline''))] else []))"
proof (intro conjI)
  show "case presence_Connect R u name s of
       (Inl _, _) \<Rightarrow> True
     | (Inr first, s') \<Rightarrow> first = (conns u = 0) \<and> counts (conns(u := conns u + 1)) (view s') \<and>
         rv_pub (view s') = rv_pub (view s) @
           (if first then [(presenceChannel, presence_json (status_event u name ''online''))] else [])"
  proof (cases "presence_Connect R u name s")
    case (Pair r s')
    show ?thesis
    proof (cases r)
      case (Inr first)
      with Pair have c: "presence_Connect R u name s = (Inr first, s')" by simp
      from Connect_step [OF assms c] c show ?thesis by simp
    qed (simp add: Pair)
  qed
  show "case presence_Disconnect R u name s of
       (Inl _, _) \<Rightarrow> True
     | (Inr gone, s') \<Rightarrow> 0 < conns u \<longrightarrow> gone = (conns u = 1) \<and> counts (conns(u := conns u - 1)) (view s') \<and>
         rv_pub (view s') = rv_pub (view s) @
           (if gone then [(presenceChannel, presence_json (status_event u name ''offline''))] else [])"
  proof (cases "presence_Disconnect R u name s")
    case (Pair r s')
    show ?thesis
    proof (cases r)
      case (Inr gone)
      with Pair have c: "presence_Disconnect R u name s = (Inr gone, s')" by simp
      have "int (conns u) \<le> max_int64" using assms(4) by simp
      from Disconnect_step [OF assms(1-3) _ this c] c show ?thesis by simp
    qed (simp add: Pair)
  qed
qed

lemma calm_reliable: "reliable calm_redis"
  unfolding reliable_def calm_redis_def
  by (simp add: mem_redis_no_faults) (simp add: mem_redis_def mem_op_no_faults)

lemma counts_empty: "counts (\<lambda>_. 0) (mem_observe mem_empty)"
  by (simp add: counts_def mem_observe_def) (simp add: mem_empty_def)

lemma demo_connect: "\<exists>s'. presence_Connect calm_redis 7 ''alice'' mem_empty = (Inr True, s')"
proof -
  obtain r s' where c: "presence_Connect calm_redis 7 ''alice'' mem_empty = (r, s')" by fastforce
  have "\<not> is_err r"
    using c by (auto simp: presence_Connect_def calm_redis_def calm_def mem_redis_def mem_op_no_faults ask_add_def
        counter_def counter_ok_def Let_def split: if_splits)
  then obtain first where r: "r = Inr first" by (cases r) auto
  with c have "first = ((\<lambda>_. 0) (7::int64) = (0::nat))"
    by (intro Connect_step(1) [OF calm_redis_laws calm_reliable counts_empty]) simp_all
  with c r show ?thesis by auto
qed

theorem presence_refines_counts_witness:
  "\<exists>s'. presence_Connect calm_redis 7 ''alice'' mem_empty = (Inr True, s') \<and>
     counts ((\<lambda>_. 0)(7 := 1)) (mem_observe s')"
proof -
  obtain s' where "presence_Connect calm_redis 7 ''alice'' mem_empty = (Inr True, s')" using demo_connect by blast
  with presence_refines_counts [OF calm_redis_laws calm_reliable counts_empty, of 7 "''alice''"]
  show ?thesis by simp
qed

section \<open>Snapshots\<close>

lemma snapshot_event_Some:
  "snapshot_event ids (f, n) = Some ev \<longleftrightarrow>
     (\<exists>u \<in> set ids. parse_int64 f = Inr u \<and>
        ev = \<lparr>pe_UserID = u, pe_Username = n, pe_Status = ''online'', pe_IsSnapshot = True\<rparr>)"
  by (auto simp: snapshot_event_def split: sum.splits)

text \<open>
  A snapshot tells a client about its contacts and nobody else. Every event of a successful
  \<open>GetSnapshot\<close> is an online event of one of the ids asked for, with the name stored for it; and
  every id asked for that is in the hash of names is reported. For ids stored in decimal, that
  is exactly the set of connected ones among those asked for.
\<close>

theorem snapshot_scoped:
  assumes "redis_laws R view" "presence_GetSnapshot R ids s = (Inr evs, s')"
  shows "pe_UserID ` set evs \<subseteq> set ids \<and>
    (\<forall>ev \<in> set evs. pe_Status ev = ''online'' \<and> pe_IsSnapshot ev) \<and>
    (\<forall>u \<in> set ids. \<forall>name. min_int64 \<le> u \<longrightarrow> u \<le> max_int64 \<longrightarrow>
       rv_hash (view s) presenceNamesKey (FormatInt u) = Some name \<longrightarrow>
       \<lparr>pe_UserID = u, pe_Username = name, pe_Status = ''online'', pe_IsSnapshot = True\<rparr> \<in> set evs) \<and>
    (\<forall>conns. counts conns (view s) \<longrightarrow>
       (\<forall>f. rv_hash (view s) presenceNamesKey f \<noteq> None \<longrightarrow> (\<exists>u. f = FormatInt u \<and> min_int64 \<le> u \<and> u \<le> max_int64)) \<longrightarrow>
       pe_UserID ` set evs = {u \<in> set ids. 0 < conns u \<and> min_int64 \<le> u \<and> u \<le> max_int64})"
proof (cases "ids = []")
  case True
  with assms(2) show ?thesis by (simp add: presence_GetSnapshot_def)
next
  case False
  then obtain al s1 where g: "rd_HGetAll R presenceNamesKey s = (Inr al, s1)"
    and evs: "evs = List.map_filter (snapshot_event ids) al"
    using assms(2) by (auto simp: presence_GetSnapshot_def split: sum.splits prod.splits)
  have al: "distinct (map fst al)" "map_of al = rv_hash (view s) presenceNamesKey"
    using redis_lawsD(10) [OF assms(1), where k = presenceNamesKey and s = s] g by (auto dest: appliesD(1))
  have ev: "ev \<in> set evs \<longleftrightarrow> (\<exists>f n. rv_hash (view s) presenceNamesKey f = Some n \<and> snapshot_event ids (f, n) = Some ev)" for ev
  proof -
    have "ev \<in> set evs \<longleftrightarrow> (\<exists>x \<in> set al. snapshot_event ids x = Some ev)"
      unfolding evs by (induction al) (auto simp: List.map_filter_simps split: option.splits)
    also have "\<dots> \<longleftrightarrow> (\<exists>f n. map_of al f = Some n \<and> snapshot_event ids (f, n) = Some ev)"
      using map_of_eq_Some_iff [OF al(1)] by fastforce
    finally show ?thesis by (simp add: al(2))
  qed
  note ev' = ev [unfolded snapshot_event_Some]
  have mem: "\<lparr>pe_UserID = u, pe_Username = n, pe_Status = ''online'', pe_IsSnapshot = True\<rparr> \<in> set evs"
    if "u \<in> set ids" "min_int64 \<le> u" "u \<le> max_int64" "rv_hash (view s) presenceNamesKey (FormatInt u) = Some n" for u n
    unfolding ev' using that parse_int64_FormatInt [OF that(2,3)] by blast
  show ?thesis
  proof (intro conjI ballI allI impI)
    show "pe_UserID ` set evs \<subseteq> set ids" using ev' by auto
    show "pe_Status e = ''online''" "pe_IsSnapshot e" if "e \<in> set evs" for e using that ev' by auto
  next
    fix u name
    assume "u \<in> set ids" "min_int64 \<le> u" "u \<le> max_int64" "rv_hash (view s) presenceNamesKey (FormatInt u) = Some name"
    then show "\<lparr>pe_UserID = u, pe_Username = name, pe_Status = ''online'', pe_IsSnapshot = True\<rparr> \<in> set evs"
      by (rule mem)
  next
    fix conns
    assume c: "counts conns (view s)"
      and canon: "\<forall>f. rv_hash (view s) presenceNamesKey f \<noteq> None \<longrightarrow> (\<exists>u. f = FormatInt u \<and> min_int64 \<le> u \<and> u \<le> max_int64)"
    show "pe_UserID ` set evs = {u \<in> set ids. 0 < conns u \<and> min_int64 \<le> u \<and> u \<le> max_int64}"
    proof (intro set_eqI iffI)
      fix u
      assume "u \<in> pe_UserID ` set evs"
      then obtain f n where f: "rv_hash (view s) presenceNamesKey f = Some n" "u \<in> set ids" "parse_int64 f = Inr u"
        using ev' by auto
      from canon f(1) obtain v where v: "f = FormatInt v" "min_int64 \<le> v" "v \<le> max_int64" by blast
      with f(3) parse_int64_FormatInt [OF v(2,3)] have "u = v" by simp
      with c f v show "u \<in> {u \<in> set ids. 0 < conns u \<and> min_int64 \<le> u \<and> u \<le> max_int64}"
        unfolding counts_def by (auto; metis option.distinct(1))
    next
      fix u
      assume u: "u \<in> {u \<in> set ids. 0 < conns u \<and> min_int64 \<le> u \<and> u \<le> max_int64}"
      with c obtain n where "rv_hash (view s) presenceNamesKey (FormatInt u) = Some n"
        unfolding counts_def by auto
      with u mem [of u n] show "u \<in> pe_UserID ` set evs" by (auto intro: rev_image_eqI)
    qed
  qed
qed

definition demo_names :: mem_server where
  "demo_names = set_field presenceNamesKey (FormatInt 8) ''bob'' (set_field presenceNamesKey (FormatInt 7) ''alice'' mem_empty)"

theorem snapshot_scoped_witness:
  "\<exists>evs s'. presence_GetSnapshot mem_redis [7, 9] demo_names = (Inr evs, s') \<and>
     \<lparr>pe_UserID = 7, pe_Username = ''alice'', pe_Status = ''online'', pe_IsSnapshot = True\<rparr> \<in> set evs \<and>
     8 \<notin> pe_UserID ` set evs"
proof -
  obtain evs s' where g: "presence_GetSnapshot mem_redis [7, 9] demo_names = (Inr evs, s')"
    by (simp add: presence_GetSnapshot_def mem_redis_def mem_op_no_faults demo_names_def)
  have "rv_hash (mem_observe demo_names) presenceNamesKey (FormatInt 7) = Some ''alice''"
    by (simp add: demo_names_def e_hset_def)
  with snapshot_scoped [OF mem_redis_laws g] g show ?thesis by auto
qed

section \<open>After a crash\<close>

text \<open>
  A crash leaves a user online. If an instance stops without \<open>Disconnect\<close> after a user's first
  connection, the counter key expires after \<open>presenceConnsTTL\<close>, but the entry in the hash of
  names has no deadline: from then on the counter says offline, no offline event has been
  published, and a snapshot still reports the user as online.
\<close>

theorem presence_stale_after_crash:
  assumes "redis_laws R view" "elapse_law view elapse" "reliable R" "counts conns (view s)" "conns u = 0"
    and "presence_Connect R u name s = (Inr True, s1)" "presenceConnsTTL \<le> dt"
    and "min_int64 \<le> u" "u \<le> max_int64"
  shows "rv_str (view (elapse dt s1)) (conns_key u) = None \<and>
    rv_pub (view (elapse dt s1)) =
      rv_pub (view s) @ [(presenceChannel, presence_json (status_event u name ''online''))] \<and>
    (\<exists>evs s2. presence_GetSnapshot R [u] (elapse dt s1) = (Inr evs, s2) \<and> u \<in> pe_UserID ` set evs)"
proof -
  have "int (conns u) < max_int64" using assms(5) by simp
  note step = Connect_step [OF assms(1,3,4) this assms(6)]
  have "0 \<le> dt" using assms(7) by (simp add: presenceConnsTTL_def)
  then have v: "view (elapse dt s1) = e_elapse dt (view s1)" using assms(2) by (simp add: elapse_law_def)
  have gone: "rv_str (view (elapse dt s1)) (conns_key u) = None"
    using step(4) assms(7) by (simp add: v e_elapse_def Let_def)
  have pub: "rv_pub (view (elapse dt s1)) =
      rv_pub (view s) @ [(presenceChannel, presence_json (status_event u name ''online''))]"
    using step(3) assms(5) by (simp add: v e_elapse_def Let_def)
  have name: "rv_hash (view (elapse dt s1)) presenceNamesKey (FormatInt u) = Some name"
    using step(5) assms(5) by (simp add: v e_elapse_def Let_def)
  obtain al s2 where "rd_HGetAll R presenceNamesKey (elapse dt s1) = (Inr al, s2)"
    using assms(3) unfolding reliable_def by blast
  then obtain evs where g: "presence_GetSnapshot R [u] (elapse dt s1) = (Inr evs, s2)"
    by (simp add: presence_GetSnapshot_def)
  have "\<lparr>pe_UserID = u, pe_Username = name, pe_Status = ''online'', pe_IsSnapshot = True\<rparr> \<in> set evs"
    using snapshot_scoped [OF assms(1) g] name assms(8,9) by simp
  then have "u \<in> pe_UserID ` set evs" by (auto intro: rev_image_eqI)
  with gone pub g show ?thesis by blast
qed

theorem presence_stale_after_crash_witness:
  "\<exists>s1 evs s2. presence_Connect calm_redis 7 ''alice'' mem_empty = (Inr True, s1) \<and>
     rv_str (mem_observe (mem_elapse presenceConnsTTL s1)) (conns_key 7) = None \<and>
     presence_GetSnapshot calm_redis [7] (mem_elapse presenceConnsTTL s1) = (Inr evs, s2) \<and> 7 \<in> pe_UserID ` set evs"
proof -
  obtain s1 where c: "presence_Connect calm_redis 7 ''alice'' mem_empty = (Inr True, s1)"
    using demo_connect by blast
  from presence_stale_after_crash [OF calm_redis_laws mem_elapse_law calm_reliable counts_empty refl c order_refl] c
  show ?thesis by auto
qed

end
