(* ===== verification/Schema.thy ===== *)
theory Schema
  imports Go_Strings
begin

text \<open>
  The database the stores work on: one record per table of \<open>internal/store/migrations\<close> (the
  columns after the last migration), the sequences behind the \<open>BIGSERIAL\<close> keys, the server's
  clock (\<open>NOW()\<close>) and a schedule of faults.

  A table is the list of its rows in the order a scan yields them; a query with \<open>ORDER BY\<close>
  sorts, one without returns this order. The fault schedule says, statement by statement,
  whether the next statement fails before it takes effect and with which driver text (\<open>None\<close>
  and the empty schedule: it does not fail), so every error return of the stores can be
  taken. Lost acknowledgements (the statement took effect but the reply was lost) are not
  modelled.
\<close>

section \<open>Rows\<close>

record user_row =
  ur_id :: int64
  ur_username :: string
  ur_password_hash :: string
  ur_created_at :: time
  ur_public_key :: "string option"
  ur_deleted_at :: "time option"
  ur_display_name :: "string option"
  ur_push_token :: "string option"

record msg_row =
  mr_id :: int64
  mr_sender_id :: int64
  mr_recipient_id :: int64
  mr_body :: string
  mr_created_at :: time
  mr_iv :: "string option"
  mr_encrypted :: bool
  mr_client_message_id :: "string option"
  mr_read_at :: "time option"
  mr_deleted_at :: "time option"

record invite_row =
  ir_id :: int64
  ir_code :: string
  ir_created_by :: string
  ir_used_by :: "string option"
  ir_used_at :: "time option"
  ir_expires_at :: "time option"
  ir_created_at :: time

record contact_row =
  cr_user_id :: int64
  cr_contact_id :: int64

record gdpr_row =
  gr_user_id :: int64
  gr_requested_at :: time
  gr_anonymized_at :: time
  gr_messages_purged :: int
  gr_public_key_cleared :: bool
  gr_invites_expired :: int
  gr_notes :: string

record tables =
  users :: "user_row list"
  messages :: "msg_row list"
  invite_codes :: "invite_row list"
  contacts :: "contact_row list"
  gdpr_deletion_log :: "gdpr_row list"

record db =
  tb :: tables
  user_seq :: int64      \<comment> \<open>next value of \<open>users.id\<close>\<close>
  msg_seq :: int64
  invite_seq :: int64
  clock :: time          \<comment> \<open>\<open>NOW()\<close>, constant within a transaction\<close>
  faults :: "string option list"

definition empty_db :: db where
  "empty_db =
     \<lparr>tb = \<lparr>users = [], messages = [], invite_codes = [], contacts = [], gdpr_deletion_log = []\<rparr>,
      user_seq = 1, msg_seq = 1, invite_seq = 1, clock = 0, faults = []\<rparr>"

section \<open>Errors\<close>

text \<open>
  The sentinel errors of the store package, \<open>sql.ErrNoRows\<close>, errors made with \<open>errors.New\<close>
  at the point of return, wrapped errors (\<open>fmt.Errorf ... %w\<close>) and errors of the driver.
\<close>

datatype store_error =
    ErrMessageNotFound
  | ErrUserNotFound
  | ErrInvalidInviteCode
  | ErrUsernameTaken
  | ErrContactNotFound
  | ErrContactExists
  | ErrAlreadyDeleted
  | ErrNoRows
  | ErrNew string
  | ErrWrap string store_error
  | DBError string

fun err_text :: "store_error \<Rightarrow> string" where
  "err_text ErrMessageNotFound = ''message not found''"
| "err_text ErrUserNotFound = ''user not found''"
| "err_text ErrInvalidInviteCode = ''invalid or already used invite code''"
| "err_text ErrUsernameTaken = ''username already taken''"
| "err_text ErrContactNotFound = ''contact not found''"
| "err_text ErrContactExists = ''contact already added''"
| "err_text ErrAlreadyDeleted = ''account already deleted''"
| "err_text ErrNoRows = ''sql: no rows in result set''"
| "err_text (ErrNew s) = s"
| "err_text (ErrWrap p e) = p @ '': '' @ err_text e"
| "err_text (DBError s) = s"

text \<open>\<open>errors.Is\<close>: the error itself or one it wraps.\<close>

fun errors_Is :: "store_error \<Rightarrow> store_error \<Rightarrow> bool" where
  "errors_Is (ErrWrap p e) t \<longleftrightarrow> ErrWrap p e = t \<or> errors_Is e t"
| "errors_Is e t \<longleftrightarrow> e = t"

type_synonym 'a result = "store_error + 'a"

text \<open>What PostgreSQL reports when a constraint fails.\<close>

definition unique_violation :: string where
  "unique_violation = ''duplicate key value violates unique constraint (SQLSTATE 23505)''"

definition fk_violation :: string where
  "fk_violation = ''insert or update violates foreign key constraint (SQLSTATE 23503)''"

definition check_violation :: string where
  "check_violation = ''new row violates check constraint (SQLSTATE 23514)''"

definition int4_range_error :: string where
  "int4_range_error = ''integer out of range (SQLSTATE 22003)''"

text \<open>The test the stores apply to a driver error to recognise a unique violation.\<close>

definition is_unique_text :: "string \<Rightarrow> bool" where
  "is_unique_text s \<longleftrightarrow> contains s ''23505'' \<or> contains s ''unique''"

lemma is_unique_unique_violation [simp]: "is_unique_text unique_violation"
  unfolding is_unique_text_def contains_def unique_violation_def by code_simp

lemma not_unique_others [simp]:
  "\<not> is_unique_text fk_violation" "\<not> is_unique_text check_violation"
  "\<not> is_unique_text int4_range_error"
  unfolding is_unique_text_def contains_def fk_violation_def check_violation_def int4_range_error_def
  by code_simp+

definition int4_ok :: "int64 \<Rightarrow> bool" where
  "int4_ok i \<longleftrightarrow> -2147483648 \<le> i \<and> i \<le> 2147483647"

section \<open>Statements\<close>

text \<open>
  \<open>stmt q\<close> executes one statement: it consumes one entry of the fault schedule and either
  fails with it, or runs \<open>q\<close>. \<open>and_then\<close> is the \<open>if err != nil { return err }\<close> of the code.
\<close>

definition stmt :: "(db \<Rightarrow> 'a result \<times> db) \<Rightarrow> db \<Rightarrow> 'a result \<times> db" where
  "stmt q d =
     (case faults d of
        [] \<Rightarrow> q d
      | None # fs \<Rightarrow> q (d\<lparr>faults := fs\<rparr>)
      | Some e # fs \<Rightarrow> (Inl (DBError e), d\<lparr>faults := fs\<rparr>))"

definition and_then ::
  "'a result \<times> db \<Rightarrow> ('a \<Rightarrow> db \<Rightarrow> 'b result \<times> db) \<Rightarrow> 'b result \<times> db" where
  "and_then m f = (case m of (Inl e, d) \<Rightarrow> (Inl e, d) | (Inr x, d) \<Rightarrow> f x d)"

definition query :: "(tables \<Rightarrow> 'a) \<Rightarrow> db \<Rightarrow> 'a result \<times> db" where
  "query f = stmt (\<lambda>d. (Inr (f (tb d)), d))"

lemma and_then_simps [simp]:
  "and_then (Inl e, d) f = (Inl e, d)"
  "and_then (Inr x, d) f = f x d"
  by (simp_all add: and_then_def)

lemma and_then_cases:
  assumes "and_then m f = (r, d')"
  obtains (error) e where "m = (Inl e, d')" "r = Inl e"
  | (ok) x d1 where "m = (Inr x, d1)" "f x d1 = (r, d')"
  using assms by (auto simp: and_then_def split: prod.splits sum.splits)

lemma stmt_no_faults [simp]: "faults d = [] \<Longrightarrow> stmt q d = q d"
  by (simp add: stmt_def)

lemma query_no_faults [simp]: "faults d = [] \<Longrightarrow> query f d = (Inr (f (tb d)), d)"
  by (simp add: query_def)

text \<open>
  Two states agree when they differ in the fault schedule at most; \<open>stmt\<close> runs its query on a
  state that agrees with the one it was given.
\<close>

definition agree :: "db \<Rightarrow> db \<Rightarrow> bool" where
  "agree d d' \<longleftrightarrow>
     tb d' = tb d \<and> user_seq d' = user_seq d \<and> msg_seq d' = msg_seq d \<and>
     invite_seq d' = invite_seq d \<and> clock d' = clock d"

lemma agree_refl [simp]: "agree d d"
  by (simp add: agree_def)

lemma agree_faults [simp]: "agree d (d\<lparr>faults := fs\<rparr>)"
  by (simp add: agree_def)

lemma agreeD:
  assumes "agree d d'"
  shows "tb d' = tb d" "user_seq d' = user_seq d" "msg_seq d' = msg_seq d"
    "invite_seq d' = invite_seq d" "clock d' = clock d"
  using assms by (simp_all add: agree_def)

lemma agree_trans: "agree a b \<Longrightarrow> agree b c \<Longrightarrow> agree a c"
  by (simp add: agree_def)

lemma stmt_cases:
  assumes "stmt q d = (r, d')"
  obtains (fault) e where "r = Inl (DBError e)" "agree d d'"
  | (ok) d1 where "agree d d1" "q d1 = (r, d')"
proof (cases "faults d")
  case Nil
  with assms show thesis by (intro ok [of d]) (simp_all add: stmt_def)
next
  case (Cons f fs)
  show thesis
  proof (cases f)
    case None
    with assms Cons show thesis by (intro ok [of "d\<lparr>faults := fs\<rparr>"]) (simp_all add: stmt_def)
  next
    case (Some e)
    with assms Cons show thesis by (intro fault [of e]) (auto simp: stmt_def)
  qed
qed

lemma query_cases:
  assumes "query f d = (r, d')"
  obtains (fault) e where "r = Inl (DBError e)" "agree d d'"
  | (ok) "r = Inr (f (tb d))" "agree d d'"
  using assms unfolding query_def
  by (elim stmt_cases) (auto simp: agreeD)

lemma query_agree: "query f d = (r, d') \<Longrightarrow> agree d d'"
  by (elim query_cases)

lemma query_Inr: "query f d = (Inr x, d') \<Longrightarrow> x = f (tb d)"
  by (elim query_cases) auto

lemma query_Inl: "query f d = (Inl x, d') \<Longrightarrow> \<exists>e. x = DBError e"
  by (elim query_cases) auto

section \<open>Transactions\<close>

text \<open>
  \<open>defer tx.Rollback()\<close> restores the tables; sequence values drawn inside the transaction stay
  drawn.
\<close>

definition rollback :: "tables \<Rightarrow> db \<Rightarrow> db" where
  "rollback t d = d\<lparr>tb := t\<rparr>"

definition in_tx ::
  "(store_error \<Rightarrow> store_error) \<Rightarrow> (store_error \<Rightarrow> store_error) \<Rightarrow>
   (db \<Rightarrow> 'a result \<times> db) \<Rightarrow> db \<Rightarrow> 'a result \<times> db" where
  "in_tx on_begin on_commit body d =
     (case stmt (\<lambda>d. (Inr (), d)) d of
        (Inl e, d0) \<Rightarrow> (Inl (on_begin e), d0)
      | (Inr _, d0) \<Rightarrow>
          (case body d0 of
             (Inl e, d1) \<Rightarrow> (Inl e, rollback (tb d0) d1)
           | (Inr x, d1) \<Rightarrow>
               (case stmt (\<lambda>d. (Inr (), d)) d1 of
                  (Inl e, d2) \<Rightarrow> (Inl (on_commit e), rollback (tb d0) d2)
                | (Inr _, d2) \<Rightarrow> (Inr x, d2))))"

text \<open>The two arguments wrap the errors of \<open>Begin\<close> and \<open>Commit\<close>.\<close>

lemma in_tx_cases:
  assumes "in_tx ob oc body d = (res, d')"
  obtains (begin_error) e where "res = Inl (ob (DBError e))" "agree d d'"
  | (body_error) d0 e d1 where "res = Inl e" "agree d d0" "body d0 = (Inl e, d1)" "d' = rollback (tb d) d1"
  | (commit_error) d0 x d1 e d2 where "res = Inl (oc (DBError e))" "agree d d0" "body d0 = (Inr x, d1)"
      "agree d1 d2" "d' = rollback (tb d) d2"
  | (commit) d0 x d1 where "res = Inr x" "agree d d0" "body d0 = (Inr x, d1)" "agree d1 d'"
proof -
  obtain r0 d0 where b: "stmt (\<lambda>d. (Inr (), d)) d = (r0, d0)" by fastforce
  note def = assms [unfolded in_tx_def b]
  from b show thesis
  proof (cases rule: stmt_cases)
    case (fault e)
    with def show thesis by (intro begin_error) auto
  next
    case (ok d0')
    then have ag: "agree d d0" and r0: "r0 = Inr ()" by auto
    obtain r1 d1 where body: "body d0 = (r1, d1)" by fastforce
    show thesis
    proof (cases r1)
      case (Inl e)
      with def r0 body ag show thesis by (intro body_error [of e d0 d1]) (auto simp: agreeD)
    next
      case (Inr x)
      obtain r2 d2 where c: "stmt (\<lambda>d. (Inr (), d)) d1 = (r2, d2)" by fastforce
      from c show thesis
      proof (cases rule: stmt_cases)
        case (fault e)
        with def r0 body ag Inr c show thesis
          by (intro commit_error [of e d0 x d1 d2]) (auto simp: agreeD)
      next
        case (ok d1')
        with def r0 body ag Inr c show thesis by (intro commit [of x d0 d1]) auto
      qed
    qed
  qed
qed

lemma in_tx_Inl_tables: "in_tx ob oc body d = (Inl e, d') \<Longrightarrow> tb d' = tb d"
  by (elim in_tx_cases) (simp_all add: rollback_def agreeD)

lemma in_tx_no_faults:
  "faults d = [] \<Longrightarrow> body d = (r, d1) \<Longrightarrow> faults d1 = [] \<Longrightarrow>
   in_tx ob oc body d = (r, if is_err r then rollback (tb d) d1 else d1)"
  by (cases r) (simp_all add: in_tx_def)

section \<open>What the schema's constraints keep true\<close>

definition users_ok :: "tables \<Rightarrow> bool" where
  "users_ok t \<longleftrightarrow> distinct (map ur_id (users t)) \<and> distinct (map ur_username (users t))"

definition messages_ok :: "tables \<Rightarrow> bool" where
  "messages_ok t \<longleftrightarrow>
     distinct (map mr_id (messages t)) \<and>
     (\<forall>r \<in> set (messages t). \<forall>r' \<in> set (messages t).
        mr_sender_id r = mr_sender_id r' \<longrightarrow> mr_client_message_id r = mr_client_message_id r' \<longrightarrow>
        mr_client_message_id r \<noteq> None \<longrightarrow> mr_id r = mr_id r') \<and>
     (\<forall>r \<in> set (messages t). mr_sender_id r \<in> ur_id ` set (users t) \<and>
                              mr_recipient_id r \<in> ur_id ` set (users t))"

definition invites_ok :: "tables \<Rightarrow> bool" where
  "invites_ok t \<longleftrightarrow>
     distinct (map ir_id (invite_codes t)) \<and> distinct (map ir_code (invite_codes t))"

definition contacts_ok :: "tables \<Rightarrow> bool" where
  "contacts_ok t \<longleftrightarrow>
     distinct (contacts t) \<and>
     (\<forall>c \<in> set (contacts t). cr_user_id c \<noteq> cr_contact_id c \<and>
        cr_user_id c \<in> ur_id ` set (users t) \<and> cr_contact_id c \<in> ur_id ` set (users t))"

definition tables_ok :: "tables \<Rightarrow> bool" where
  "tables_ok t \<longleftrightarrow> users_ok t \<and> messages_ok t \<and> invites_ok t \<and> contacts_ok t"

definition seqs_ok :: "db \<Rightarrow> bool" where
  "seqs_ok d \<longleftrightarrow>
     (\<forall>r \<in> set (users (tb d)). 0 < ur_id r \<and> ur_id r < user_seq d) \<and>
     (\<forall>r \<in> set (messages (tb d)). 0 < mr_id r \<and> mr_id r < msg_seq d) \<and>
     (\<forall>r \<in> set (invite_codes (tb d)). 0 < ir_id r \<and> ir_id r < invite_seq d) \<and>
     0 < user_seq d \<and> 0 < msg_seq d \<and> 0 < invite_seq d"

definition db_ok :: "db \<Rightarrow> bool" where
  "db_ok d \<longleftrightarrow> tables_ok (tb d) \<and> seqs_ok d"

lemmas ok_defs = db_ok_def tables_ok_def users_ok_def messages_ok_def invites_ok_def
  contacts_ok_def seqs_ok_def

lemma db_ok_empty: "db_ok empty_db"
  by (simp add: ok_defs empty_db_def)

lemma db_ok_agree: "agree d d' \<Longrightarrow> db_ok d' = db_ok d"
  by (simp add: db_ok_def seqs_ok_def agreeD)

text \<open>
  A failed operation may have drawn sequence values; it leaves every table as it was.
\<close>

definition later :: "db \<Rightarrow> db \<Rightarrow> bool" where
  "later d d' \<longleftrightarrow>
     clock d' = clock d \<and> user_seq d \<le> user_seq d' \<and> msg_seq d \<le> msg_seq d' \<and>
     invite_seq d \<le> invite_seq d'"

definition unchanged :: "db \<Rightarrow> db \<Rightarrow> bool" where
  "unchanged d d' \<longleftrightarrow> tb d' = tb d \<and> later d d'"

lemma later_refl [simp]: "later d d"
  by (simp add: later_def)

lemma later_trans: "later a b \<Longrightarrow> later b c \<Longrightarrow> later a c"
  by (simp add: later_def)

lemma agree_later: "agree d d' \<Longrightarrow> later d d'"
  by (simp add: later_def agree_def)

lemma later_tb [simp]: "later d (d'\<lparr>tb := t\<rparr>) = later d d'" "later (d\<lparr>tb := t\<rparr>) d' = later d d'"
  by (simp_all add: later_def)

lemma unchanged_refl [simp]: "unchanged d d"
  by (simp add: unchanged_def)

lemma agree_unchanged: "agree d d' \<Longrightarrow> unchanged d d'"
  by (simp add: unchanged_def agree_later agreeD)

lemma unchanged_trans: "unchanged a b \<Longrightarrow> unchanged b c \<Longrightarrow> unchanged a c"
  using later_trans by (auto simp: unchanged_def)

lemma db_ok_unchanged:
  assumes "unchanged d d'" "db_ok d"
  shows "db_ok d'"
proof -
  have le: "tb d' = tb d" "user_seq d \<le> user_seq d'" "msg_seq d \<le> msg_seq d'" "invite_seq d \<le> invite_seq d'"
    using assms(1) by (simp_all add: unchanged_def later_def)
  have "tables_ok (tb d')" using assms(2) le(1) by (simp add: db_ok_def)
  moreover have "seqs_ok d'"
    using assms(2) le unfolding db_ok_def seqs_ok_def by (metis order_less_le_trans)
  ultimately show ?thesis by (simp add: db_ok_def)
qed

lemma stmt_later:
  assumes "stmt q d = (r, d')" "\<And>d0 r d1. q d0 = (r, d1) \<Longrightarrow> later d0 d1"
  shows "later d d'"
  using assms(1) by (cases rule: stmt_cases) (meson agree_later later_trans assms(2))+

lemma query_unchanged: "query f d = (r, d') \<Longrightarrow> unchanged d d'"
  by (rule agree_unchanged, rule query_agree)

lemma in_tx_later:
  assumes "in_tx ob oc body d = (r, d')" "\<And>d0 r d1. body d0 = (r, d1) \<Longrightarrow> later d0 d1"
  shows "later d d'" "is_err r \<Longrightarrow> unchanged d d'"
proof -
  show l: "later d d'"
    using assms(1)
    by (cases rule: in_tx_cases) (metis agree_later later_trans assms(2) rollback_def later_tb(1))+
  show "unchanged d d'" if "is_err r"
    using that l in_tx_Inl_tables [of ob oc body d _ d'] assms(1)
    by (cases r) (auto simp: unchanged_def)
qed

text \<open>Which tables a table's constraints depend on.\<close>

lemma messages_ok_mono:
  assumes "messages t' = messages t" "ur_id ` set (users t) \<subseteq> ur_id ` set (users t')" "messages_ok t"
  shows "messages_ok t'"
  unfolding messages_ok_def assms(1)
  using assms(3) [unfolded messages_ok_def] assms(2) by blast

lemma contacts_ok_mono:
  assumes "distinct (contacts t')" "set (contacts t') \<subseteq> set (contacts t)"
    "ur_id ` set (users t) \<subseteq> ur_id ` set (users t')" "contacts_ok t"
  shows "contacts_ok t'"
  unfolding contacts_ok_def
  using assms(4) [unfolded contacts_ok_def] assms(1-3) by blast

lemma invites_ok_cong:
  assumes "map ir_id (invite_codes t') = map ir_id (invite_codes t)"
    "map ir_code (invite_codes t') = map ir_code (invite_codes t)" "invites_ok t"
  shows "invites_ok t'"
  unfolding invites_ok_def assms(1,2) using assms(3) [unfolded invites_ok_def] .

lemma contacts_ok_distinct: "contacts_ok t \<Longrightarrow> distinct (contacts t)"
  by (simp only: contacts_ok_def)

lemma tables_okD:
  assumes "tables_ok t"
  shows "users_ok t" "messages_ok t" "invites_ok t" "contacts_ok t"
  using assms by (simp_all only: tables_ok_def)

lemma tables_okI: "users_ok t \<Longrightarrow> messages_ok t \<Longrightarrow> invites_ok t \<Longrightarrow> contacts_ok t \<Longrightarrow> tables_ok t"
  by (simp only: tables_ok_def)

lemma db_okD:
  assumes "db_ok d"
  shows "tables_ok (tb d)" "seqs_ok d"
  using assms by (simp_all only: db_ok_def)

text \<open>Ids that an update keeps stay below the sequence.\<close>

lemma ids_below_map:
  assumes "map g rows' = map g rows" "\<forall>r \<in> set rows. 0 < g r \<and> g r < (m::int)"
  shows "\<forall>r \<in> set rows'. 0 < g r \<and> g r < m"
proof
  fix r
  assume "r \<in> set rows'"
  then have "g r \<in> g ` set rows" using assms(1) by (metis imageI set_map)
  then show "0 < g r \<and> g r < m" using assms(2) by auto
qed

lemma db_ok_update:
  assumes "db_ok d" "tables_ok (tb d')"
    "map ur_id (users (tb d')) = map ur_id (users (tb d))"
    "map mr_id (messages (tb d')) = map mr_id (messages (tb d))"
    "map ir_id (invite_codes (tb d')) = map ir_id (invite_codes (tb d))"
    "later d d'"
  shows "db_ok d'"
proof -
  note s = db_okD(2) [OF assms(1), unfolded seqs_ok_def]
  note l = assms(6) [unfolded later_def]
  have "\<forall>r \<in> set (users (tb d')). 0 < ur_id r \<and> ur_id r < user_seq d'"
    by (rule ids_below_map [OF assms(3)]) (use s l in force)
  moreover have "\<forall>r \<in> set (messages (tb d')). 0 < mr_id r \<and> mr_id r < msg_seq d'"
    by (rule ids_below_map [OF assms(4)]) (use s l in force)
  moreover have "\<forall>r \<in> set (invite_codes (tb d')). 0 < ir_id r \<and> ir_id r < invite_seq d'"
    by (rule ids_below_map [OF assms(5)]) (use s l in force)
  moreover have "0 < user_seq d' \<and> 0 < msg_seq d' \<and> 0 < invite_seq d'" using s l by linarith
  ultimately show ?thesis unfolding db_ok_def seqs_ok_def using assms(2) by blast
qed

section \<open>A small database\<close>

text \<open>
  Three accounts, a short conversation and two invite codes, for concrete instances of the
  theorems: alice (1) and bob (2) exchanged messages 1 to 3, alice and bob have each other as
  contacts, the code \<open>welcome\<close> is unused and \<open>burned\<close> was used by carol (3).
\<close>

definition demo_user :: "int64 \<Rightarrow> string \<Rightarrow> user_row" where
  "demo_user i n =
     \<lparr>ur_id = i, ur_username = n, ur_password_hash = ''hash-'' @ n, ur_created_at = 0,
      ur_public_key = Some (''key-'' @ n), ur_deleted_at = None, ur_display_name = None,
      ur_push_token = Some (''push-'' @ n)\<rparr>"

definition demo_msg :: "int64 \<Rightarrow> int64 \<Rightarrow> int64 \<Rightarrow> string \<Rightarrow> string \<Rightarrow> msg_row" where
  "demo_msg i s p b c =
     \<lparr>mr_id = i, mr_sender_id = s, mr_recipient_id = p, mr_body = b, mr_created_at = i,
      mr_iv = Some ''nonce'', mr_encrypted = True, mr_client_message_id = Some c,
      mr_read_at = None, mr_deleted_at = None\<rparr>"

definition demo_invite :: "int64 \<Rightarrow> string \<Rightarrow> string option \<Rightarrow> invite_row" where
  "demo_invite i c u =
     \<lparr>ir_id = i, ir_code = c, ir_created_by = ''alice'', ir_used_by = u,
      ir_used_at = map_option (\<lambda>_. 5) u, ir_expires_at = Some 1000, ir_created_at = 0\<rparr>"

definition demo_db :: db where
  "demo_db =
     \<lparr>tb = \<lparr>users = [demo_user 1 ''alice'', demo_user 2 ''bob'', demo_user 3 ''carol''],
            messages = [demo_msg 1 1 2 ''hi bob'' ''a1'', demo_msg 2 2 1 ''hi alice'' ''b1'',
                        demo_msg 3 1 2 ''lunch?'' ''a2''],
            invite_codes = [demo_invite 1 ''welcome'' None, demo_invite 2 ''burned'' (Some ''carol'')],
            contacts = [\<lparr>cr_user_id = 1, cr_contact_id = 2\<rparr>, \<lparr>cr_user_id = 2, cr_contact_id = 1\<rparr>],
            gdpr_deletion_log = []\<rparr>,
      user_seq = 4, msg_seq = 4, invite_seq = 3, clock = 100, faults = []\<rparr>"

lemmas demo_defs = demo_db_def demo_user_def demo_msg_def demo_invite_def

lemma db_ok_demo [simp]: "db_ok demo_db"
  by (simp add: ok_defs demo_defs)

lemma demo_faults [simp]: "faults demo_db = []"
  by (simp add: demo_defs)

end
