(* ===== verification/Store_Interfaces.thy ===== *)
theory Store_Interfaces
  imports Schema
begin

text \<open>
  The Go types the store package hands out (\<open>message.go\<close>, \<open>user_store.go\<close>,
  \<open>contact_store.go\<close>, \<open>admin_invite_store.go\<close>) and the two interfaces of
  \<open>internal/http/stores_interfaces.go\<close> through which the HTTP handlers reach a store. An
  interface value is a record of functions that thread a store state of type \<open>'d\<close>.
\<close>

record message =
  ID :: int64
  SenderID :: int64
  RecipientID :: int64
  Body :: string
  IV :: string
  Encrypted :: bool
  ClientMessageID :: string
  CreatedAt :: time
  ReadAt :: "time option"
  DeletedAt :: "time option"

record user =
  UserID :: int64
  Username :: string
  PasswordHash :: string
  PublicKey :: string

record contact =
  contact_ID :: int64
  contact_Username :: string
  contact_Online :: bool

record GDPRDeletionRecord =
  gdpr_UserID :: int64
  MessagesPurged :: int
  PublicKeyCleared :: bool
  InvitesExpired :: int

record invite_code =
  ic_ID :: int64
  ic_Code :: string
  ic_UsedBy :: "string option"
  ic_ExpiresAt :: "time option"

record invite_code_full =
  icf_ID :: int64
  icf_Code :: string
  icf_CreatedBy :: string
  icf_UsedBy :: "string option"
  icf_UsedAt :: "time option"
  icf_ExpiresAt :: "time option"
  icf_CreatedAt :: time

section \<open>The interfaces\<close>

record 'd message_storer =
  ms_CreateOrGetExisting ::
    "int64 \<Rightarrow> int64 \<Rightarrow> string \<Rightarrow> string \<Rightarrow> bool \<Rightarrow> string \<Rightarrow> 'd \<Rightarrow> (message \<times> bool) result \<times> 'd"
  ms_ListConversationSince ::
    "int64 \<Rightarrow> int64 \<Rightarrow> int64 \<Rightarrow> int \<Rightarrow> 'd \<Rightarrow> (message list \<times> bool) result \<times> 'd"
  ms_ListConversationBefore ::
    "int64 \<Rightarrow> int64 \<Rightarrow> int64 \<Rightarrow> int \<Rightarrow> 'd \<Rightarrow> (message list \<times> bool) result \<times> 'd"
  ms_GetByID :: "int64 \<Rightarrow> 'd \<Rightarrow> message result \<times> 'd"
  ms_GetUnreadForUser :: "int64 \<Rightarrow> int64 \<Rightarrow> 'd \<Rightarrow> message list result \<times> 'd"
  ms_MarkRead :: "int64 \<Rightarrow> int64 \<Rightarrow> 'd \<Rightarrow> int64 list result \<times> 'd"
  ms_SoftDelete :: "int64 \<Rightarrow> int64 \<Rightarrow> 'd \<Rightarrow> message result \<times> 'd"

record 'd user_storer =
  us_RegisterWithInvite :: "string \<Rightarrow> string \<Rightarrow> string \<Rightarrow> 'd \<Rightarrow> user result \<times> 'd"
  us_CreateUser :: "string \<Rightarrow> string \<Rightarrow> 'd \<Rightarrow> user result \<times> 'd"
  us_GetUserByUsername :: "string \<Rightarrow> 'd \<Rightarrow> user result \<times> 'd"
  us_GetByUsername :: "string \<Rightarrow> 'd \<Rightarrow> user result \<times> 'd"
  us_GetUserByID :: "int64 \<Rightarrow> 'd \<Rightarrow> user result \<times> 'd"
  us_ListUsers :: "'d \<Rightarrow> user list result \<times> 'd"
  us_SearchUsers :: "string \<Rightarrow> 'd \<Rightarrow> user list result \<times> 'd"
  us_ConsumeInviteCode :: "string \<Rightarrow> string \<Rightarrow> 'd \<Rightarrow> unit result \<times> 'd"
  us_SetPublicKey :: "int64 \<Rightarrow> string \<Rightarrow> 'd \<Rightarrow> unit result \<times> 'd"
  us_GetPublicKeyByUsername :: "string \<Rightarrow> 'd \<Rightarrow> string result \<times> 'd"
  us_SetPushToken :: "int64 \<Rightarrow> string \<Rightarrow> 'd \<Rightarrow> unit result \<times> 'd"
  us_GetPushToken :: "int64 \<Rightarrow> 'd \<Rightarrow> string result \<times> 'd"
  us_Ping :: "'d \<Rightarrow> unit result \<times> 'd"
  us_AdminListInvites :: "'d \<Rightarrow> invite_code_full list result \<times> 'd"
  us_AdminCreateInvite :: "string \<Rightarrow> string \<Rightarrow> time option \<Rightarrow> 'd \<Rightarrow> invite_code_full result \<times> 'd"
  us_AdminResetInvite :: "string \<Rightarrow> 'd \<Rightarrow> unit result \<times> 'd"
  us_UpdatePassword :: "int64 \<Rightarrow> string \<Rightarrow> 'd \<Rightarrow> unit result \<times> 'd"
  us_ListContacts :: "int64 \<Rightarrow> 'd \<Rightarrow> contact list result \<times> 'd"
  us_GetContactFollowerIDs :: "int64 \<Rightarrow> 'd \<Rightarrow> int64 list result \<times> 'd"
  us_IsContact :: "int64 \<Rightarrow> int64 \<Rightarrow> 'd \<Rightarrow> bool result \<times> 'd"
  us_AddContact :: "int64 \<Rightarrow> string \<Rightarrow> 'd \<Rightarrow> unit result \<times> 'd"
  us_RemoveContact :: "int64 \<Rightarrow> string \<Rightarrow> 'd \<Rightarrow> unit result \<times> 'd"
  us_DeleteAccountGDPR :: "int64 \<Rightarrow> time \<Rightarrow> 'd \<Rightarrow> GDPRDeletionRecord result \<times> 'd"

text \<open>
  The one argument Go does not have is the \<open>time\<close> of \<open>us_DeleteAccountGDPR\<close>: it is the value
  of the \<open>time.Now()\<close> the method reads from the application's clock.
\<close>

section \<open>Cursor pagination\<close>

text \<open>
  The contract a paged listing offers its client: \<open>items\<close> is what there is, in strictly
  increasing order of the cursor key, and a page is a bounded stretch of it next to the
  cursor together with a flag that says whether the stretch was cut. \<open>walk\<close> is the client's
  loop; that it collects every item exactly once follows from the contract alone.
\<close>

fun walk_up :: "nat \<Rightarrow> ('m \<Rightarrow> int64) \<Rightarrow> (int64 \<Rightarrow> 'm list \<times> bool) \<Rightarrow> int64 \<Rightarrow> 'm list option" where
  "walk_up 0 key page c = None"
| "walk_up (Suc n) key page c =
     (case page c of
        (ms, False) \<Rightarrow> Some ms
      | (ms, True) \<Rightarrow> map_option (\<lambda>t. ms @ t) (walk_up n key page (key (last ms))))"

fun walk_down :: "nat \<Rightarrow> ('m \<Rightarrow> int64) \<Rightarrow> (int64 \<Rightarrow> 'm list \<times> bool) \<Rightarrow> int64 \<Rightarrow> 'm list option" where
  "walk_down 0 key page c = None"
| "walk_down (Suc n) key page c =
     (case page c of
        (ms, False) \<Rightarrow> Some ms
      | (ms, True) \<Rightarrow> map_option (\<lambda>t. t @ ms) (walk_down n key page (key (hd ms))))"

locale pager =
  fixes key :: "'m \<Rightarrow> int64"
    and inv :: "'s \<Rightarrow> bool"
    and items :: "'s \<Rightarrow> 'm list"
    and up :: "'s \<Rightarrow> nat \<Rightarrow> int64 \<Rightarrow> 'm list \<times> bool"
    and down :: "'s \<Rightarrow> nat \<Rightarrow> int64 \<Rightarrow> 'm list \<times> bool"
  assumes sorted_items: "inv s \<Longrightarrow> sorted_wrt (<) (map key (items s))"
    and up_page: "inv s \<Longrightarrow> 0 < l \<Longrightarrow>
      up s l c = (let r = filter (\<lambda>m. c < key m) (items s) in (take l r, l < length r))"
    and down_page: "inv s \<Longrightarrow> 0 < l \<Longrightarrow>
      down s l c = (let r = filter (\<lambda>m. key m < c) (items s)
                    in (drop (length r - l) r, l < length r))"
begin

lemma suffix_after:
  assumes "inv s" "i < length (items s)"
  shows "filter (\<lambda>m. key (items s ! i) < key m) (items s) = drop (Suc i) (items s)"
  using sorted_items [OF assms(1)] assms(2) by (rule filter_gt_strict_sorted)

lemma prefix_before:
  assumes "inv s" "i < length (items s)"
  shows "filter (\<lambda>m. key m < key (items s ! i)) (items s) = take i (items s)"
  using sorted_items [OF assms(1)] assms(2) by (rule filter_lt_strict_sorted)

text \<open>Every cut of the items by a cursor is a suffix (a prefix) of them.\<close>

lemma filter_up_drop:
  "sorted_wrt (<) (map key xs) \<Longrightarrow> \<exists>k. filter (\<lambda>m. c < key m) xs = drop k xs"
proof (induction xs)
  case (Cons a xs)
  show ?case
  proof (cases "c < key a")
    case True
    with Cons.prems have "filter (\<lambda>m. c < key m) (a # xs) = drop 0 (a # xs)"
      by (auto simp: filter_id_conv)
    then show ?thesis ..
  next
    case False
    with Cons obtain k where "filter (\<lambda>m. c < key m) xs = drop k xs" by auto
    with False have "filter (\<lambda>m. c < key m) (a # xs) = drop (Suc k) (a # xs)" by simp
    then show ?thesis ..
  qed
qed simp

lemma filter_down_take:
  "sorted_wrt (<) (map key xs) \<Longrightarrow> \<exists>k \<le> length xs. filter (\<lambda>m. key m < c) xs = take k xs"
proof (induction xs)
  case (Cons a xs)
  show ?case
  proof (cases "key a < c")
    case True
    with Cons obtain k where "k \<le> length xs" "filter (\<lambda>m. key m < c) xs = take k xs" by auto
    with True have "filter (\<lambda>m. key m < c) (a # xs) = take (Suc k) (a # xs)" by simp
    with \<open>k \<le> length xs\<close> show ?thesis by (intro exI [of _ "Suc k"]) simp
  next
    case False
    with Cons.prems have "filter (\<lambda>m. key m < c) (a # xs) = take 0 (a # xs)"
      by (auto simp: filter_empty_conv)
    then show ?thesis by blast
  qed
qed simp

lemma walk_up_complete:
  assumes inv: "inv s" and limit_pos: "0 < limit"
  shows "length (filter (\<lambda>m. c < key m) (items s)) < n \<Longrightarrow>
   walk_up n key (up s limit) c = Some (filter (\<lambda>m. c < key m) (items s))"
proof (induction n arbitrary: c)
  case (Suc n)
  let ?r = "filter (\<lambda>m. c < key m) (items s)"
  obtain k where k: "?r = drop k (items s)" using filter_up_drop [OF sorted_items [OF inv]] by blast
  show ?case
  proof (cases "limit < length ?r")
    case False
    then show ?thesis by (simp add: up_page [OF inv limit_pos] Let_def)
  next
    case True
    have len: "k + limit < length (items s)" using True k by simp
    have "length (take limit ?r) = limit" and ne: "take limit ?r \<noteq> []"
      using True limit_pos by auto
    then have "last (take limit ?r) = ?r ! (limit - 1)"
      using limit_pos last_conv_nth [OF ne] by simp
    also have "\<dots> = items s ! (k + (limit - 1))" using k len by simp
    finally have l: "last (take limit ?r) = items s ! (k + limit - 1)" using limit_pos by simp
    have "filter (\<lambda>m. key (last (take limit ?r)) < key m) (items s) = drop (Suc (k + limit - 1)) (items s)"
      unfolding l by (rule suffix_after [OF inv]) (use len limit_pos in linarith)
    also have "\<dots> = drop limit ?r" using k limit_pos by (simp add: add.commute)
    finally have next_r: "filter (\<lambda>m. key (last (take limit ?r)) < key m) (items s) = drop limit ?r" .
    have "length (drop limit ?r) < n" using Suc.prems limit_pos True by simp
    then have "walk_up n key (up s limit) (key (last (take limit ?r))) = Some (drop limit ?r)"
      using Suc.IH [of "key (last (take limit ?r))"] next_r by simp
    then show ?thesis using True by (simp add: up_page [OF inv limit_pos, of c] Let_def)
  qed
qed simp

lemma walk_down_complete:
  assumes inv: "inv s" and limit_pos: "0 < limit"
  shows "length (filter (\<lambda>m. key m < c) (items s)) < n \<Longrightarrow>
   walk_down n key (down s limit) c = Some (filter (\<lambda>m. key m < c) (items s))"
proof (induction n arbitrary: c)
  case (Suc n)
  let ?r = "filter (\<lambda>m. key m < c) (items s)"
  obtain k where k: "k \<le> length (items s)" "?r = take k (items s)" using filter_down_take [OF sorted_items [OF inv]] by blast
  show ?case
  proof (cases "limit < length ?r")
    case False
    then show ?thesis by (simp add: down_page [OF inv limit_pos] Let_def)
  next
    case True
    let ?cut = "length ?r - limit"
    have len: "length ?r = k" using k by simp
    have "hd (drop ?cut ?r) = ?r ! ?cut" using True limit_pos by (simp add: hd_drop_conv_nth)
    also have "\<dots> = items s ! ?cut" using k True limit_pos len by simp
    finally have h: "hd (drop ?cut ?r) = items s ! ?cut" .
    have "filter (\<lambda>m. key m < key (hd (drop ?cut ?r))) (items s) = take ?cut (items s)"
      unfolding h by (rule prefix_before [OF inv]) (use len k limit_pos True in linarith)
    also have "\<dots> = take ?cut ?r" using k len by (simp add: min_def)
    finally have next_r: "filter (\<lambda>m. key m < key (hd (drop ?cut ?r))) (items s) = take ?cut ?r" .
    have "length (take ?cut ?r) < n" using Suc.prems limit_pos True by simp
    then have "walk_down n key (down s limit) (key (hd (drop ?cut ?r))) = Some (take ?cut ?r)"
      using Suc.IH [of "key (hd (drop ?cut ?r))"] next_r by simp
    then show ?thesis using True by (simp add: down_page [OF inv limit_pos, of c] Let_def)
  qed
qed simp

end

end
