(* ===== verification/Hub.thy ===== *)
theory Hub
  imports Presence Store_Interfaces "HOL-Library.Multiset"
begin

text \<open>
  The hub of \<open>internal/http/ws.go\<close>: the locally connected WebSocket clients and the delivery of
  frames to them. Pointers to clients are numbers, the clients themselves are kept beside the
  hub's maps; a Go set of clients is a list without duplicates, whose order stands for the
  order in which the map happens to be iterated. A send on a closed channel, which panics in
  Go, sets \<open>panicked\<close>. Here each operation is one step; \<open>Hub_Race\<close> takes them apart.
\<close>

section \<open>Frames\<close>

text \<open>What is marshalled and sent to a client, one constructor per payload type of \<open>ws.go\<close>.\<close>

datatype frame =
    PresenceFrame PresenceEvent
  | TypingFrame string string bool
  | MessageFrame message
  | DeletedFrame int64
  | KeyChangedFrame string
  | ReadFrame int64 "int64 list"

section \<open>Clients\<close>

record wsClient =
  cl_userID :: int64
  cl_username :: string
  cl_hasConn :: bool
  cl_send :: "frame list"                 \<comment> \<open>the buffered channel\<close>
  cl_sendClosed :: bool
  cl_closed :: bool                       \<comment> \<open>the atomic flag\<close>
  cl_control :: "(nat \<times> string) list"     \<comment> \<open>close frames written to the connection\<close>
  cl_connClosed :: bool

definition sendQueueSize :: nat where
  "sendQueueSize = 64"

definition CloseNormalClosure :: nat where "CloseNormalClosure = 1000"
definition CloseGoingAway :: nat where "CloseGoingAway = 1001"
definition ClosePolicyViolation :: nat where "ClosePolicyViolation = 1008"

definition closeWith :: "nat \<Rightarrow> string \<Rightarrow> wsClient \<Rightarrow> wsClient" where
  "closeWith code reason c =
     (if cl_closed c then c
      else let c1 = c\<lparr>cl_closed := True, cl_sendClosed := True\<rparr> in
           if cl_hasConn c then c1\<lparr>cl_control := cl_control c1 @ [(code, reason)], cl_connClosed := True\<rparr>
           else c1)"

definition client_close :: "wsClient \<Rightarrow> wsClient" where
  "client_close c = closeWith CloseNormalClosure [] c"

section \<open>The hub\<close>

record 'l hub =
  clientsByUser :: "(int64 \<times> nat list) list"
  limitersByUser :: "(int64 \<times> 'l) list"
  clients :: "nat \<Rightarrow> wsClient option"
  panicked :: bool

definition NewHub :: "'l hub" where
  "NewHub = \<lparr>clientsByUser = [], limitersByUser = [], clients = (\<lambda>_. None), panicked = False\<rparr>"

definition user_clients :: "int64 \<Rightarrow> 'l hub \<Rightarrow> nat list" where
  "user_clients u h = (case map_of (clientsByUser h) u of None \<Rightarrow> [] | Some s \<Rightarrow> s)"

definition all_clients :: "'l hub \<Rightarrow> nat list" where
  "all_clients h = concat (map snd (clientsByUser h))"

definition limiterFor :: "'l limiter_lib \<Rightarrow> int64 \<Rightarrow> 'l hub \<Rightarrow> 'l \<times> 'l hub" where
  "limiterFor lib u h =
     (case map_of (limitersByUser h) u of
        Some l \<Rightarrow> (l, h)
      | None \<Rightarrow> let l = NewLimiter lib 20 40
                 in (l, h\<lparr>limitersByUser := AList.update u l (limitersByUser h)\<rparr>))"

definition update_client :: "nat \<Rightarrow> (wsClient \<Rightarrow> wsClient) \<Rightarrow> 'l hub \<Rightarrow> 'l hub" where
  "update_client i f h = h\<lparr>clients := (clients h)(i := map_option f (clients h i))\<rparr>"

definition addClient :: "nat \<Rightarrow> wsClient \<Rightarrow> 'l hub \<Rightarrow> 'l hub" where
  "addClient i c h =
     (let h1 = h\<lparr>clients := (clients h)(i \<mapsto> c)\<rparr>
      in h1\<lparr>clientsByUser :=
           AList.update (cl_userID c) (List.insert i (user_clients (cl_userID c) h)) (clientsByUser h)\<rparr>)"

definition removeClient :: "nat \<Rightarrow> int64 \<Rightarrow> 'l hub \<Rightarrow> 'l hub" where
  "removeClient i u h =
     (case map_of (clientsByUser h) u of
        None \<Rightarrow> h
      | Some s \<Rightarrow>
          let s' = removeAll i s in
          if s' = [] then h\<lparr>clientsByUser := AList.delete u (clientsByUser h),
                            limitersByUser := AList.delete u (limitersByUser h)\<rparr>
          else h\<lparr>clientsByUser := AList.update u s' (clientsByUser h)\<rparr>)"

definition enqueueDropSlow :: "frame \<Rightarrow> nat \<Rightarrow> 'l hub \<Rightarrow> 'l hub" where
  "enqueueDropSlow msg i h =
     (case clients h i of
        None \<Rightarrow> h
      | Some c \<Rightarrow>
          if cl_closed c then h
          else if cl_sendClosed c then h\<lparr>panicked := True\<rparr>
          else if length (cl_send c) < sendQueueSize
          then update_client i (\<lambda>c. c\<lparr>cl_send := cl_send c @ [msg]\<rparr>) h
          else update_client i (closeWith ClosePolicyViolation ''slow consumer'') h)"

definition sendToUser :: "int64 \<Rightarrow> frame \<Rightarrow> 'l hub \<Rightarrow> 'l hub" where
  "sendToUser u msg h = fold (enqueueDropSlow msg) (user_clients u h) h"

definition broadcastJSON :: "frame \<Rightarrow> 'l hub \<Rightarrow> 'l hub" where
  "broadcastJSON msg h = fold (enqueueDropSlow msg) (all_clients h) h"

definition CloseAll :: "string \<Rightarrow> 'l hub \<Rightarrow> 'l hub" where
  "CloseAll reason h = fold (\<lambda>i. update_client i (closeWith CloseGoingAway reason)) (all_clients h) h"

definition DisconnectUser :: "int64 \<Rightarrow> 'l hub \<Rightarrow> 'l hub" where
  "DisconnectUser u h =
     fold (\<lambda>i. update_client i (closeWith ClosePolicyViolation ''account deleted'')) (user_clients u h) h"

definition SendMessageToUser :: "int64 \<Rightarrow> message \<Rightarrow> 'l hub \<Rightarrow> 'l hub" where
  "SendMessageToUser u m = sendToUser u (MessageFrame m)"

definition SendTypingToUser :: "string \<Rightarrow> int64 \<Rightarrow> string \<Rightarrow> bool \<Rightarrow> 'l hub \<Rightarrow> 'l hub" where
  "SendTypingToUser fromUsername toUserID toUsername isTyping =
     sendToUser toUserID (TypingFrame fromUsername toUsername isTyping)"

definition SendMessageDeletedToUser :: "int64 \<Rightarrow> int64 \<Rightarrow> 'l hub \<Rightarrow> 'l hub" where
  "SendMessageDeletedToUser u messageID = sendToUser u (DeletedFrame messageID)"

definition SendKeyChangedToUser :: "int64 \<Rightarrow> string \<Rightarrow> 'l hub \<Rightarrow> 'l hub" where
  "SendKeyChangedToUser u changedUsername = sendToUser u (KeyChangedFrame changedUsername)"

definition SendReadReceiptToUser :: "int64 \<Rightarrow> int64 \<Rightarrow> int64 list \<Rightarrow> 'l hub \<Rightarrow> 'l hub" where
  "SendReadReceiptToUser senderID byUserID messageIDs = sendToUser senderID (ReadFrame byUserID messageIDs)"

definition SendMessageDeletedToUsers :: "int64 \<Rightarrow> int64 \<Rightarrow> int64 \<Rightarrow> 'l hub \<Rightarrow> 'l hub" where
  "SendMessageDeletedToUsers senderID recipientID messageID h =
     (let h1 = sendToUser senderID (DeletedFrame messageID) h
      in if recipientID \<noteq> senderID then sendToUser recipientID (DeletedFrame messageID) h1 else h1)"

section \<open>The hub's invariant\<close>

text \<open>
  Each user's set is non-empty and holds that user's clients once, a client's channel is closed
  exactly when its flag says so, and no queue exceeds its capacity.
\<close>

definition client_ok :: "wsClient \<Rightarrow> bool" where
  "client_ok c \<longleftrightarrow> (cl_sendClosed c \<longleftrightarrow> cl_closed c) \<and> length (cl_send c) \<le> sendQueueSize"

definition hub_ok :: "'l hub \<Rightarrow> bool" where
  "hub_ok h \<longleftrightarrow>
     distinct (map fst (clientsByUser h)) \<and>
     (\<forall>(u, s) \<in> set (clientsByUser h). s \<noteq> [] \<and> distinct s \<and>
        (\<forall>i \<in> set s. \<exists>c. clients h i = Some c \<and> cl_userID c = u)) \<and>
     (\<forall>i c. clients h i = Some c \<longrightarrow> client_ok c)"

text \<open>What a delivery does to one client.\<close>

definition offered :: "frame \<Rightarrow> wsClient \<Rightarrow> wsClient" where
  "offered msg c =
     (if cl_closed c then c
      else if length (cl_send c) < sendQueueSize then c\<lparr>cl_send := cl_send c @ [msg]\<rparr>
      else closeWith ClosePolicyViolation ''slow consumer'' c)"

lemma update_client_simps [simp]:
  "clientsByUser (update_client i f h) = clientsByUser h"
  "limitersByUser (update_client i f h) = limitersByUser h"
  "panicked (update_client i f h) = panicked h"
  "clients (update_client i f h) j = (if j = i then map_option f (clients h i) else clients h j)"
  by (simp_all add: update_client_def)

lemma closeWith_ok:
  "client_ok c \<Longrightarrow> client_ok (closeWith k r c)" "cl_userID (closeWith k r c) = cl_userID c"
  "cl_closed (closeWith k r c)" "cl_send (closeWith k r c) = cl_send c"
  by (simp_all add: closeWith_def client_ok_def Let_def)

lemma offered_ok:
  "client_ok c \<Longrightarrow> client_ok (offered msg c)" "cl_userID (offered msg c) = cl_userID c"
  by (simp_all add: offered_def closeWith_ok) (simp add: client_ok_def)

lemma enqueue_offered:
  assumes "hub_ok h"
  shows "enqueueDropSlow msg i h = update_client i (offered msg) h"
proof (cases "clients h i")
  case None
  then have "(clients h)(i := None) = clients h" by (metis fun_upd_triv)
  with None show ?thesis by (simp add: enqueueDropSlow_def update_client_def)
next
  case (Some c)
  then have ok: "client_ok c" using assms unfolding hub_ok_def by blast
  have keep: "h = update_client i (offered msg) h" if "cl_closed c"
    using Some that by (simp add: update_client_def offered_def fun_upd_idem)
  show ?thesis
    using Some ok keep
    by (auto simp: enqueueDropSlow_def client_ok_def update_client_def offered_def)
qed

lemma hub_ok_update:
  assumes "hub_ok h" "\<And>c. client_ok c \<Longrightarrow> client_ok (f c)" "\<And>c. cl_userID (f c) = cl_userID c"
  shows "hub_ok (update_client i f h)"
  unfolding hub_ok_def
proof (intro conjI)
  note ok = assms(1) [unfolded hub_ok_def]
  show "distinct (map fst (clientsByUser (update_client i f h)))" using ok by simp
  show "\<forall>j c. clients (update_client i f h) j = Some c \<longrightarrow> client_ok c"
    using ok assms(2) by (auto split: if_splits)
  have keep: "\<exists>c. clients (update_client i f h) j = Some c \<and> cl_userID c = u"
    if "\<exists>c. clients h j = Some c \<and> cl_userID c = u" for j u
    using that assms(3) by (cases "j = i") auto
  show "\<forall>(u, s) \<in> set (clientsByUser (update_client i f h)). s \<noteq> [] \<and> distinct s \<and>
      (\<forall>j \<in> set s. \<exists>c. clients (update_client i f h) j = Some c \<and> cl_userID c = u)"
    using ok keep by fastforce
qed

text \<open>A fold of updates over different clients is one pointwise update, whatever the order.\<close>

lemma fold_update_clients:
  assumes "distinct is"
  shows "fold (\<lambda>i. update_client i f) is h =
    h\<lparr>clients := (\<lambda>j. if j \<in> set is then map_option f (clients h j) else clients h j)\<rparr>"
  using assms
proof (induction "is" arbitrary: h)
  case (Cons i "is")
  then show ?case by (auto simp: update_client_def fun_eq_iff)
qed simp

lemma user_clients_in:
  assumes "hub_ok h"
  shows "distinct (user_clients u h)"
    "i \<in> set (user_clients u h) \<Longrightarrow> \<exists>c. clients h i = Some c \<and> cl_userID c = u"
proof -
  have entry: "s \<noteq> [] \<and> distinct s \<and> (\<forall>i \<in> set s. \<exists>c. clients h i = Some c \<and> cl_userID c = u)"
    if "map_of (clientsByUser h) u = Some s" for s
    using map_of_SomeD [OF that] assms unfolding hub_ok_def by fastforce
  show "distinct (user_clients u h)"
    by (cases "map_of (clientsByUser h) u") (simp_all add: user_clients_def entry)
  show "i \<in> set (user_clients u h) \<Longrightarrow> \<exists>c. clients h i = Some c \<and> cl_userID c = u"
    by (cases "map_of (clientsByUser h) u") (simp_all add: user_clients_def entry)
qed

lemma all_clients_distinct:
  assumes "hub_ok h"
  shows "distinct (all_clients h)"
proof -
  have "distinct (concat (map snd al))"
    if "distinct (map fst al)" "\<forall>(u, s) \<in> set al. distinct s \<and> (\<forall>i \<in> set s. \<exists>c. clients h i = Some c \<and> cl_userID c = u)" for al
    using that
  proof (induction al)
    case (Cons a al)
    obtain u s where a: "a = (u, s)" by fastforce
    have "set s \<inter> set (concat (map snd al)) = {}"
    proof (rule ccontr)
      assume "set s \<inter> set (concat (map snd al)) \<noteq> {}"
      then obtain i v s' where i: "i \<in> set s" "(v, s') \<in> set al" "i \<in> set s'" by auto
      with Cons.prems(2) a have "u = v" by fastforce
      with Cons.prems(1) a i(2) show False by (force simp: image_iff)
    qed
    with Cons a show ?case by auto
  qed simp
  then show ?thesis using assms unfolding hub_ok_def all_clients_def by fastforce
qed

lemma fold_enqueue:
  assumes "hub_ok h"
  shows "fold (enqueueDropSlow msg) is h = fold (\<lambda>i. update_client i (offered msg)) is h \<and>
    hub_ok (fold (enqueueDropSlow msg) is h)"
  using assms
proof (induction "is" arbitrary: h)
  case (Cons i "is")
  have "hub_ok (update_client i (offered msg) h)"
    using Cons.prems by (rule hub_ok_update) (simp_all add: offered_ok)
  note IH = Cons.IH [OF this]
  have "hub_ok (fold (\<lambda>i. update_client i (offered msg)) is (update_client i (offered msg) h))"
    using IH by metis
  with IH show ?case by (simp add: enqueue_offered [OF Cons.prems])
qed simp

lemma fold_close_ok:
  assumes "hub_ok h"
  shows "hub_ok (fold (\<lambda>i. update_client i (closeWith k r)) is h)"
  using assms
proof (induction "is" arbitrary: h)
  case (Cons i "is")
  have "hub_ok (update_client i (closeWith k r) h)"
    using Cons.prems by (rule hub_ok_update) (simp_all add: closeWith_ok)
  from Cons.IH [OF this] show ?case by simp
qed simp

lemma send_permuted:
  assumes "hub_ok h" "mset is = mset (user_clients u h)"
  shows "fold (enqueueDropSlow msg) is h = h\<lparr>clients := (\<lambda>i. case clients h i of
            None \<Rightarrow> None
          | Some c \<Rightarrow> Some (if i \<in> set (user_clients u h) then offered msg c else c))\<rparr>"
proof -
  have d: "distinct is" "set is = set (user_clients u h)"
    using assms(2) user_clients_in(1) [OF assms(1)] by (metis mset_eq_imp_distinct_iff, metis set_mset_mset)
  have "fold (enqueueDropSlow msg) is h = fold (\<lambda>i. update_client i (offered msg)) is h"
    using fold_enqueue [OF assms(1)] by blast
  also have "\<dots> = h\<lparr>clients := (\<lambda>j. if j \<in> set is then map_option (offered msg) (clients h j) else clients h j)\<rparr>"
    by (rule fold_update_clients [OF d(1)])
  also have "(\<lambda>j. if j \<in> set is then map_option (offered msg) (clients h j) else clients h j) =
      (\<lambda>i. case clients h i of None \<Rightarrow> None
        | Some c \<Rightarrow> Some (if i \<in> set (user_clients u h) then offered msg c else c))"
    by (auto simp: d(2) fun_eq_iff split: option.split)
  finally show ?thesis .
qed

lemmas sendToUser_eq = send_permuted [OF _ refl, folded sendToUser_def]

lemma sendToUser_ok: "hub_ok h \<Longrightarrow> hub_ok (sendToUser u msg h)"
  unfolding sendToUser_def using fold_enqueue by blast

text \<open>A frame for several users goes once to each of their connections.\<close>

lemma fold_sendToUser:
  assumes "hub_ok h" "distinct us"
  shows "hub_ok (fold (\<lambda>u. sendToUser u msg) us h) \<and>
    fold (\<lambda>u. sendToUser u msg) us h = h\<lparr>clients := (\<lambda>i. case clients h i of
            None \<Rightarrow> None
          | Some c \<Rightarrow> Some (if \<exists>u \<in> set us. i \<in> set (user_clients u h) then offered msg c else c))\<rparr>"
  using assms
proof (induction us arbitrary: h)
  case Nil
  then show ?case by (intro conjI hub.equality) (simp_all add: fun_eq_iff split: option.split)
next
  case (Cons u us)
  let ?h = "sendToUser u msg h"
  note eq = sendToUser_eq [OF Cons.prems(1), of u msg]
  have uc: "user_clients v ?h = user_clients v h" for v unfolding eq by (simp add: user_clients_def)
  have apart: "\<not> (\<exists>v \<in> set us. i \<in> set (user_clients v h))" if "i \<in> set (user_clients u h)" for i
  proof
    assume "\<exists>v \<in> set us. i \<in> set (user_clients v h)"
    then obtain v where v: "v \<in> set us" "i \<in> set (user_clients v h)" by blast
    from user_clients_in(2) [OF Cons.prems(1) that] user_clients_in(2) [OF Cons.prems(1) v(2)] have "u = v" by auto
    with v(1) Cons.prems(2) show False by simp
  qed
  have d: "distinct us" using Cons.prems by simp
  define F where "F = (\<lambda>i. case clients h i of None \<Rightarrow> None
      | Some c \<Rightarrow> Some (if \<exists>v \<in> set (u # us). i \<in> set (user_clients v h) then offered msg c else c))"
  have F: "(\<lambda>i. case clients ?h i of None \<Rightarrow> None
      | Some c \<Rightarrow> Some (if \<exists>v \<in> set us. i \<in> set (user_clients v h) then offered msg c else c)) = F"
    unfolding eq F_def using apart by (auto simp: fun_eq_iff split: option.split)
  have upd: "?h\<lparr>clients := F\<rparr> = h\<lparr>clients := F\<rparr>" unfolding eq by simp
  show ?case
    using Cons.IH [OF sendToUser_ok [OF Cons.prems(1), of u msg] d, unfolded uc F upd]
    unfolding F_def fold.simps comp_def .
qed

text \<open>
  C5: A frame for a user reaches that user's connections and no other. Every open connection of
  the user with room in its queue gets the frame appended once, one whose queue is full is
  closed as a slow consumer, a closed one is left alone, and every client of another user and
  both maps of the hub are unchanged; nothing depends on the order in which Go happens to
  iterate the set of clients.
\<close>

theorem sendToUser_exact:
  assumes "hub_ok h"
  shows "sendToUser u msg h = h\<lparr>clients := (\<lambda>i. case clients h i of
            None \<Rightarrow> None
          | Some c \<Rightarrow> Some (if i \<in> set (user_clients u h) then offered msg c else c))\<rparr> \<and>
    (\<forall>i c. clients h i = Some c \<longrightarrow> cl_userID c \<noteq> u \<longrightarrow> clients (sendToUser u msg h) i = Some c) \<and>
    (\<forall>is. mset is = mset (user_clients u h) \<longrightarrow> fold (enqueueDropSlow msg) is h = sendToUser u msg h) \<and>
    hub_ok (sendToUser u msg h)"
proof -
  note s = sendToUser_eq [OF assms, of u msg]
  have "clients (sendToUser u msg h) i = Some c" if "clients h i = Some c" "cl_userID c \<noteq> u" for i c
    using s that user_clients_in(2) [OF assms, of i u] by auto
  moreover have "fold (enqueueDropSlow msg) is h = sendToUser u msg h"
    if "mset is = mset (user_clients u h)" for "is"
    unfolding s by (rule send_permuted [OF assms that])
  ultimately show ?thesis using s sendToUser_ok [OF assms] by blast
qed

definition demo_client :: "int64 \<Rightarrow> string \<Rightarrow> wsClient" where
  "demo_client u n =
     \<lparr>cl_userID = u, cl_username = n, cl_hasConn = True, cl_send = [], cl_sendClosed = False,
      cl_closed = False, cl_control = [], cl_connClosed = False\<rparr>"

definition demo_hub :: "nat hub" where
  "demo_hub = addClient 30 (demo_client 2 ''bob'') (addClient 20 (demo_client 1 ''alice'')
     (addClient 10 (demo_client 1 ''alice'') NewHub))"

lemma hub_ok_demo: "hub_ok demo_hub"
  by (simp add: hub_ok_def demo_hub_def addClient_def NewHub_def user_clients_def demo_client_def client_ok_def)

theorem sendToUser_exact_witness:
  "\<exists>c. clients (sendToUser 1 (DeletedFrame 5) demo_hub) 10 = Some c \<and> cl_send c = [DeletedFrame 5] \<and>
     clients (sendToUser 1 (DeletedFrame 5) demo_hub) 30 = Some (demo_client 2 ''bob'')"
  using sendToUser_exact [OF hub_ok_demo, of 1 "DeletedFrame 5"]
  by (simp add: demo_hub_def addClient_def NewHub_def user_clients_def demo_client_def offered_def sendQueueSize_def)

section \<open>Every operation keeps the hub consistent\<close>

lemma addClient_ok:
  assumes "hub_ok h" "clients h i = None" "client_ok c"
  shows "hub_ok (addClient i c h)"
proof -
  let ?u = "cl_userID c"
  have d: "distinct (map fst (clientsByUser h))" using assms(1) by (simp add: hub_ok_def)
  have fresh: "i \<notin> set s" if "(u, s) \<in> set (clientsByUser h)" for u s
    using that assms(1,2) unfolding hub_ok_def by fastforce
  have entries: "s \<noteq> [] \<and> distinct s \<and> (\<forall>j \<in> set s. \<exists>c'. clients (addClient i c h) j = Some c' \<and> cl_userID c' = u)"
    if e: "(u, s) \<in> set (clientsByUser (addClient i c h))" for u s
  proof (cases "u = ?u")
    case True
    have "distinct (map fst (clientsByUser (addClient i c h)))" by (simp add: addClient_def Let_def d distinct_update)
    with e True have se: "s = List.insert i (user_clients ?u h)"
      using map_of_is_SomeI [OF _ e] by (simp add: addClient_def Let_def map_of_update)
    have "List.insert i (user_clients ?u h) \<noteq> []" by (simp add: List.insert_def) auto
    moreover have "distinct (List.insert i (user_clients ?u h))"
      using user_clients_in(1) [OF assms(1)] by (rule distinct_insert [THEN iffD2])
    moreover have "\<exists>c'. clients (addClient i c h) j = Some c' \<and> cl_userID c' = u"
      if "j \<in> set (List.insert i (user_clients ?u h))" for j
      using that user_clients_in(2) [OF assms(1), of j ?u] True by (auto simp: addClient_def Let_def)
    ultimately show ?thesis unfolding se by blast
  next
    case False
    have "distinct (map fst (clientsByUser (addClient i c h)))" by (simp add: addClient_def Let_def d distinct_update)
    with e have "map_of (clientsByUser (addClient i c h)) u = Some s" by (rule map_of_is_SomeI [rotated])
    with False have "(u, s) \<in> set (clientsByUser h)"
      by (auto simp: addClient_def Let_def map_of_update dest: map_of_SomeD)
    with assms(1) fresh [OF this] show ?thesis unfolding hub_ok_def by (fastforce simp: addClient_def Let_def)
  qed
  show ?thesis
    unfolding hub_ok_def
  proof (intro conjI)
    show "distinct (map fst (clientsByUser (addClient i c h)))" by (simp add: addClient_def Let_def d distinct_update)
    show "\<forall>(u, s) \<in> set (clientsByUser (addClient i c h)). s \<noteq> [] \<and> distinct s \<and>
        (\<forall>i' \<in> set s. \<exists>c'. clients (addClient i c h) i' = Some c' \<and> cl_userID c' = u)"
      using entries by blast
    show "\<forall>i' c'. clients (addClient i c h) i' = Some c' \<longrightarrow> client_ok c'"
      using assms(1,3) unfolding hub_ok_def by (auto simp: addClient_def Let_def)
  qed
qed

lemma removeClient_ok:
  assumes "hub_ok h"
  shows "hub_ok (removeClient i u h)"
proof (cases "map_of (clientsByUser h) u")
  case None
  with assms show ?thesis by (simp add: removeClient_def)
next
  case (Some s)
  have d: "distinct (map fst (clientsByUser h))" using assms by (simp add: hub_ok_def)
  have us: "(u, s) \<in> set (clientsByUser h)" using Some by (rule map_of_SomeD)
  have ok: "t \<noteq> [] \<and> distinct t \<and> (\<forall>j \<in> set t. \<exists>c. clients h j = Some c \<and> cl_userID c = v)"
    if "(v, t) \<in> set (clientsByUser h)" for v t
    using that assms unfolding hub_ok_def by fastforce
  have cl: "clients (removeClient i u h) = clients h"
    by (simp add: removeClient_def Let_def split: option.split)
  have ents: "distinct (map fst (clientsByUser (removeClient i u h))) \<and>
      (\<forall>(v, t) \<in> set (clientsByUser (removeClient i u h)). t \<noteq> [] \<and> distinct t \<and>
         (\<forall>j \<in> set t. \<exists>c. clients h j = Some c \<and> cl_userID c = v))"
  proof (cases "removeAll i s = []")
    case True
    have "set (AList.delete u (clientsByUser h)) \<subseteq> set (clientsByUser h)"
      by (simp add: AList.delete_eq subset_iff)
    with True Some d ok show ?thesis by (auto simp: removeClient_def distinct_delete)
  next
    case False
    have du: "distinct (map fst (AList.update u (removeAll i s) (clientsByUser h)))" using d by (rule distinct_update)
    have "t \<noteq> [] \<and> distinct t \<and> (\<forall>j \<in> set t. \<exists>c. clients h j = Some c \<and> cl_userID c = v)"
      if "(v, t) \<in> set (AList.update u (removeAll i s) (clientsByUser h))" for v t
    proof (cases "v = u")
      case True
      with map_of_is_SomeI [OF du that] have t: "t = removeAll i s" by (simp add: map_of_update)
      show ?thesis unfolding t using False ok [OF us] True by (simp add: distinct_removeAll)
    next
      case vu: False
      from map_of_is_SomeI [OF du that] vu have "map_of (clientsByUser h) v = Some t" by (simp add: map_of_update)
      then show ?thesis by (rule ok [OF map_of_SomeD])
    qed
    with False Some du show ?thesis by (simp add: removeClient_def Let_def) blast
  qed
  show ?thesis
    using assms ents unfolding hub_ok_def cl by blast
qed

text \<open>
  Every operation of the hub keeps it consistent, and none, taken as one step, sends on a closed
  channel.
\<close>

theorem hub_consistent:
  assumes "hub_ok h" "clients h i = None" "client_ok c"
  shows "hub_ok (addClient i c h) \<and> hub_ok (removeClient j u h) \<and> hub_ok (snd (limiterFor lib u h)) \<and>
    hub_ok (sendToUser u msg h) \<and> hub_ok (broadcastJSON msg h) \<and> hub_ok (CloseAll reason h) \<and>
    hub_ok (DisconnectUser u h) \<and> hub_ok (SendMessageDeletedToUsers u v m h) \<and>
    panicked (sendToUser u msg h) = panicked h \<and> panicked (broadcastJSON msg h) = panicked h"
proof (intro conjI)
  show "hub_ok (addClient i c h)" using assms by (rule addClient_ok)
  show "hub_ok (removeClient j u h)" using assms(1) by (rule removeClient_ok)
  show "hub_ok (snd (limiterFor lib u h))"
    using assms(1) by (simp add: limiterFor_def hub_ok_def Let_def split: option.split)
  show "hub_ok (sendToUser u msg h)" by (rule sendToUser_ok [OF assms(1)])
  show "hub_ok (SendMessageDeletedToUsers u v m h)"
    using assms(1) by (simp add: SendMessageDeletedToUsers_def Let_def sendToUser_ok)
  note send = fold_enqueue [OF assms(1), of msg]
  have keep: "panicked (fold (\<lambda>i. update_client i f) is k) = panicked k" for f "is" and k :: "'a hub"
    by (induction "is" arbitrary: k) simp_all
  show "hub_ok (broadcastJSON msg h)" unfolding broadcastJSON_def using send by blast
  show "panicked (sendToUser u msg h) = panicked h" "panicked (broadcastJSON msg h) = panicked h"
    unfolding sendToUser_def broadcastJSON_def using send keep by metis+
  show "hub_ok (CloseAll reason h)" unfolding CloseAll_def by (rule fold_close_ok [OF assms(1)])
  show "hub_ok (DisconnectUser u h)" unfolding DisconnectUser_def by (rule fold_close_ok [OF assms(1)])
qed

theorem hub_consistent_witness:
  "hub_ok (addClient 40 (demo_client 3 ''carol'') demo_hub) \<and> hub_ok (removeClient 30 2 demo_hub)"
proof -
  have "clients demo_hub 40 = None" by (simp add: demo_hub_def addClient_def NewHub_def Let_def)
  moreover have "client_ok (demo_client 3 ''carol'')" by (simp add: demo_client_def client_ok_def)
  ultimately show ?thesis
    using hub_consistent [OF hub_ok_demo, of 40 "demo_client 3 ''carol''" 30 2 counting_lib] by blast
qed

section \<open>Eviction\<close>

text \<open>
  A deleted account is cut off. \<open>DisconnectUser\<close> closes every registered connection of the
  user, with the policy-violation code on those that were open, and touches no other client;
  from then on nothing that is sent to the user or broadcast is queued for any of them.
\<close>

theorem DisconnectUser_cuts_off:
  assumes "hub_ok h" "i \<in> set (user_clients u h)"
  shows "\<exists>c c'. clients h i = Some c \<and> clients (DisconnectUser u h) i = Some c' \<and>
    cl_closed c' \<and> cl_send c' = cl_send c \<and>
    (\<not> cl_closed c \<longrightarrow> cl_hasConn c \<longrightarrow>
       cl_control c' = cl_control c @ [(1008, ''account deleted'')] \<and> cl_connClosed c') \<and>
    clients (sendToUser v msg (DisconnectUser u h)) i = Some c' \<and>
    clients (broadcastJSON msg (DisconnectUser u h)) i = Some c' \<and>
    (\<forall>j. j \<notin> set (user_clients u h) \<longrightarrow> clients (DisconnectUser u h) j = clients h j)"
proof -
  obtain c where c: "clients h i = Some c" using user_clients_in(2) [OF assms] by blast
  let ?d = "closeWith ClosePolicyViolation ''account deleted''"
  have run: "DisconnectUser u h = h\<lparr>clients := (\<lambda>j. if j \<in> set (user_clients u h) then map_option ?d (clients h j) else clients h j)\<rparr>"
    unfolding DisconnectUser_def by (rule fold_update_clients [OF user_clients_in(1) [OF assms(1)]])
  then have c': "clients (DisconnectUser u h) i = Some (?d c)" using c assms(2) by simp
  have ok: "hub_ok (DisconnectUser u h)" unfolding DisconnectUser_def by (rule fold_close_ok [OF assms(1)])
  have off: "offered msg (?d c) = ?d c" by (simp add: offered_def closeWith_ok)
  have stays: "clients (fold (enqueueDropSlow msg) is (DisconnectUser u h)) i = Some (?d c)" if "distinct is" for "is"
  proof -
    have eq: "fold (enqueueDropSlow msg) is (DisconnectUser u h) =
        fold (\<lambda>i. update_client i (offered msg)) is (DisconnectUser u h)"
      using fold_enqueue [OF ok] by blast
    show ?thesis unfolding eq fold_update_clients [OF that] using c' off by simp
  qed
  have "clients (sendToUser v msg (DisconnectUser u h)) i = Some (?d c)"
    unfolding sendToUser_def by (rule stays [OF user_clients_in(1) [OF ok]])
  moreover have "clients (broadcastJSON msg (DisconnectUser u h)) i = Some (?d c)"
    unfolding broadcastJSON_def by (rule stays [OF all_clients_distinct [OF ok]])
  moreover have "\<forall>j. j \<notin> set (user_clients u h) \<longrightarrow> clients (DisconnectUser u h) j = clients h j"
    by (simp add: run)
  moreover have "\<not> cl_closed c \<longrightarrow> cl_hasConn c \<longrightarrow>
      cl_control (?d c) = cl_control c @ [(1008, ''account deleted'')] \<and> cl_connClosed (?d c)"
    by (simp add: closeWith_def Let_def ClosePolicyViolation_def)
  ultimately show ?thesis using c c' closeWith_ok(3,4) by blast
qed

theorem DisconnectUser_cuts_off_witness:
  "\<exists>c'. clients (sendToUser 1 (DeletedFrame 5) (DisconnectUser 1 demo_hub)) 20 = Some c' \<and> cl_send c' = [] \<and> cl_closed c'"
proof -
  have m: "20 \<in> set (user_clients 1 demo_hub)" "clients demo_hub 20 = Some (demo_client 1 ''alice'')"
    by (simp_all add: demo_hub_def addClient_def NewHub_def user_clients_def demo_client_def)
  from DisconnectUser_cuts_off [OF hub_ok_demo m(1), of 1 "DeletedFrame 5"] m(2)
  show ?thesis by (auto simp: demo_client_def)
qed

end
