(* ===== verification/User_Store.thy ===== *)
theory User_Store
  imports Store_Interfaces
begin

text \<open>
  \<open>internal/store/user_store.go\<close> and \<open>admin_invite_store.go\<close>: registration with an invite code
  as one transaction, account lookup, keys and push tokens, the invite codes. \<open>ILIKE\<close> and the
  collation behind \<open>ORDER BY username\<close> belong to the database server and are arguments of the
  two queries that use them.
\<close>

section \<open>Registration\<close>

definition live :: "user_row \<Rightarrow> bool" where
  "live r \<longleftrightarrow> ur_deleted_at r = None"

definition consumable :: "string \<Rightarrow> time \<Rightarrow> invite_row \<Rightarrow> bool" where
  "consumable code now r \<longleftrightarrow>
     ir_code r = code \<and> ir_used_by r = None \<and>
     (case ir_expires_at r of None \<Rightarrow> True | Some t \<Rightarrow> now < t)"

text \<open>The \<open>UPDATE invite_codes SET used_by, used_at\<close>; the result is \<open>RowsAffected\<close>.\<close>

definition consume_update :: "string \<Rightarrow> string \<Rightarrow> db \<Rightarrow> nat result \<times> db" where
  "consume_update username code d =
     (let P = consumable code (clock d) in
      (Inr (count_where P (invite_codes (tb d))),
       d\<lparr>tb := (tb d)\<lparr>invite_codes :=
          update_where P (\<lambda>r. r\<lparr>ir_used_by := Some username, ir_used_at := Some (clock d)\<rparr>)
            (invite_codes (tb d))\<rparr>\<rparr>))"

definition new_user_row :: "string \<Rightarrow> string \<Rightarrow> db \<Rightarrow> user_row" where
  "new_user_row username passwordHash d =
     \<lparr>ur_id = user_seq d, ur_username = username, ur_password_hash = passwordHash,
      ur_created_at = clock d, ur_public_key = None, ur_deleted_at = None,
      ur_display_name = None, ur_push_token = None\<rparr>"

definition insert_user :: "string \<Rightarrow> string \<Rightarrow> db \<Rightarrow> int64 result \<times> db" where
  "insert_user username passwordHash d =
     (let d1 = d\<lparr>user_seq := user_seq d + 1\<rparr> in
      if username \<in> ur_username ` set (users (tb d)) then (Inl (DBError unique_violation), d1)
      else (Inr (user_seq d),
            d1\<lparr>tb := (tb d)\<lparr>users := users (tb d) @ [new_user_row username passwordHash d]\<rparr>\<rparr>))"

definition register_body :: "string \<Rightarrow> string \<Rightarrow> string \<Rightarrow> db \<Rightarrow> user result \<times> db" where
  "register_body code username passwordHash d =
     and_then (stmt (consume_update username code) d) (\<lambda>n d1.
       if n = 0 then (Inl ErrInvalidInviteCode, d1)
       else case stmt (insert_user username passwordHash) d1 of
              (Inl err, d2) \<Rightarrow>
                (if is_unique_text (err_text err) then (Inl ErrUsernameTaken, d2) else (Inl err, d2))
            | (Inr i, d2) \<Rightarrow>
                (Inr \<lparr>UserID = i, Username = username, PasswordHash = passwordHash, PublicKey = []\<rparr>, d2))"

definition RegisterWithInvite :: "string \<Rightarrow> string \<Rightarrow> string \<Rightarrow> db \<Rightarrow> user result \<times> db" where
  "RegisterWithInvite code username passwordHash =
     in_tx id id (register_body code username passwordHash)"

section \<open>Accounts\<close>

definition CreateUser :: "string \<Rightarrow> string \<Rightarrow> db \<Rightarrow> user result \<times> db" where
  "CreateUser username passwordHash d =
     and_then (stmt (insert_user username passwordHash) d) (\<lambda>i d1.
       (Inr \<lparr>UserID = i, Username = username, PasswordHash = passwordHash, PublicKey = []\<rparr>, d1))"

definition Ping :: "db \<Rightarrow> unit result \<times> db" where
  "Ping = query (\<lambda>_. ())"

definition scan_user :: "user_row \<Rightarrow> user" where
  "scan_user r =
     \<lparr>UserID = ur_id r, Username = ur_username r, PasswordHash = ur_password_hash r,
      PublicKey = (case ur_public_key r of None \<Rightarrow> [] | Some k \<Rightarrow> k)\<rparr>"

definition scan_user_name :: "user_row \<Rightarrow> user" where
  "scan_user_name r = \<lparr>UserID = ur_id r, Username = ur_username r, PasswordHash = [], PublicKey = []\<rparr>"

definition GetUserByUsername :: "string \<Rightarrow> db \<Rightarrow> user result \<times> db" where
  "GetUserByUsername username =
     stmt (\<lambda>d. case select_one (\<lambda>r. ur_username r = username \<and> live r) (users (tb d)) of
                 None \<Rightarrow> (Inl ErrUserNotFound, d)
               | Some r \<Rightarrow> (Inr (scan_user r), d))"

definition GetByUsername :: "string \<Rightarrow> db \<Rightarrow> user result \<times> db" where
  "GetByUsername username = GetUserByUsername username"

definition GetUserByID :: "int64 \<Rightarrow> db \<Rightarrow> user result \<times> db" where
  "GetUserByID userID =
     stmt (\<lambda>d. case select_one (\<lambda>r. ur_id r = userID \<and> live r) (users (tb d)) of
                 None \<Rightarrow> (Inl ErrUserNotFound, d)
               | Some r \<Rightarrow> (Inr (scan_user r), d))"

definition SearchUsers ::
  "(string \<Rightarrow> string \<Rightarrow> bool) \<Rightarrow> (string \<Rightarrow> 'k::linorder) \<Rightarrow> string \<Rightarrow> db \<Rightarrow> user list result \<times> db" where
  "SearchUsers ilike collate q =
     query (\<lambda>t. map scan_user_name (take 10 (sort_key (\<lambda>r. collate (ur_username r))
       (filter (\<lambda>r. live r \<and> ilike (ur_username r) (''%'' @ q @ ''%'')) (users t)))))"

definition ListUsers :: "(string \<Rightarrow> 'k::linorder) \<Rightarrow> db \<Rightarrow> user list result \<times> db" where
  "ListUsers collate =
     query (\<lambda>t. map scan_user_name (sort_key (\<lambda>r. collate (ur_username r)) (filter live (users t))))"

definition update_users :: "(user_row \<Rightarrow> bool) \<Rightarrow> (user_row \<Rightarrow> user_row) \<Rightarrow> db \<Rightarrow> unit result \<times> db" where
  "update_users P f = stmt (\<lambda>d. (Inr (), d\<lparr>tb := (tb d)\<lparr>users := update_where P f (users (tb d))\<rparr>\<rparr>))"

definition SetPublicKey :: "int64 \<Rightarrow> string \<Rightarrow> db \<Rightarrow> unit result \<times> db" where
  "SetPublicKey userID pubKey =
     update_users (\<lambda>r. ur_id r = userID) (\<lambda>r. r\<lparr>ur_public_key := Some pubKey\<rparr>)"

definition GetPublicKeyByUsername :: "string \<Rightarrow> db \<Rightarrow> string result \<times> db" where
  "GetPublicKeyByUsername username =
     stmt (\<lambda>d. case select_one (\<lambda>r. ur_username r = username) (users (tb d)) of
                 None \<Rightarrow> (Inl ErrUserNotFound, d)
               | Some r \<Rightarrow> (Inr (case ur_public_key r of None \<Rightarrow> [] | Some k \<Rightarrow> k), d))"

definition SetPushToken :: "int64 \<Rightarrow> string \<Rightarrow> db \<Rightarrow> unit result \<times> db" where
  "SetPushToken userID token =
     update_users (\<lambda>r. ur_id r = userID) (\<lambda>r. r\<lparr>ur_push_token := Some token\<rparr>)"

definition GetPushToken :: "int64 \<Rightarrow> db \<Rightarrow> string result \<times> db" where
  "GetPushToken userID =
     stmt (\<lambda>d. case select_one (\<lambda>r. ur_id r = userID) (users (tb d)) of
                 None \<Rightarrow> (Inl ErrUserNotFound, d)
               | Some r \<Rightarrow> (Inr (case ur_push_token r of None \<Rightarrow> [] | Some k \<Rightarrow> k), d))"

definition UpdatePassword :: "int64 \<Rightarrow> string \<Rightarrow> db \<Rightarrow> unit result \<times> db" where
  "UpdatePassword userID newHash =
     update_users (\<lambda>r. ur_id r = userID) (\<lambda>r. r\<lparr>ur_password_hash := newHash\<rparr>)"

section \<open>Invite codes\<close>

definition GetInviteCode :: "string \<Rightarrow> db \<Rightarrow> invite_code option result \<times> db" where
  "GetInviteCode code =
     stmt (\<lambda>d. (Inr (map_option
         (\<lambda>r. \<lparr>ic_ID = ir_id r, ic_Code = ir_code r, ic_UsedBy = ir_used_by r,
               ic_ExpiresAt = ir_expires_at r\<rparr>)
         (select_one (consumable code (clock d)) (invite_codes (tb d)))), d))"

definition ConsumeInviteCode :: "string \<Rightarrow> string \<Rightarrow> db \<Rightarrow> unit result \<times> db" where
  "ConsumeInviteCode code username d =
     and_then (stmt (consume_update username code) d) (\<lambda>n d1.
       if n = 0 then (Inl (ErrNew ''invalid or already used invite code''), d1) else (Inr (), d1))"

definition scan_invite :: "invite_row \<Rightarrow> invite_code_full" where
  "scan_invite r =
     \<lparr>icf_ID = ir_id r, icf_Code = ir_code r, icf_CreatedBy = ir_created_by r,
      icf_UsedBy = ir_used_by r, icf_UsedAt = ir_used_at r, icf_ExpiresAt = ir_expires_at r,
      icf_CreatedAt = ir_created_at r\<rparr>"

definition AdminListInvites :: "db \<Rightarrow> invite_code_full list result \<times> db" where
  "AdminListInvites = query (\<lambda>t. map scan_invite (rev (sort_key ir_created_at (invite_codes t))))"

definition insert_invite ::
  "string \<Rightarrow> string \<Rightarrow> time option \<Rightarrow> db \<Rightarrow> invite_code_full result \<times> db" where
  "insert_invite code createdBy expiresAt d =
     (let d1 = d\<lparr>invite_seq := invite_seq d + 1\<rparr>;
          row = \<lparr>ir_id = invite_seq d, ir_code = code, ir_created_by = createdBy, ir_used_by = None,
                 ir_used_at = None, ir_expires_at = expiresAt, ir_created_at = clock d\<rparr>
      in if code \<in> ir_code ` set (invite_codes (tb d)) then (Inl (DBError unique_violation), d1)
         else (Inr (scan_invite row),
               d1\<lparr>tb := (tb d)\<lparr>invite_codes := invite_codes (tb d) @ [row]\<rparr>\<rparr>))"

definition AdminCreateInvite ::
  "string \<Rightarrow> string \<Rightarrow> time option \<Rightarrow> db \<Rightarrow> invite_code_full result \<times> db" where
  "AdminCreateInvite code createdBy expiresAt d =
     (case stmt (insert_invite code createdBy expiresAt) d of
        (Inl err, d1) \<Rightarrow>
          (if is_unique_text (err_text err) then (Inl (ErrNew ''invite code already exists''), d1)
           else (Inl err, d1))
      | (Inr c, d1) \<Rightarrow> (Inr c, d1))"

definition AdminResetInvite :: "string \<Rightarrow> db \<Rightarrow> unit result \<times> db" where
  "AdminResetInvite code d =
     and_then (stmt (\<lambda>d.
         (Inr (count_where (\<lambda>r. ir_code r = code) (invite_codes (tb d))),
          d\<lparr>tb := (tb d)\<lparr>invite_codes :=
             update_where (\<lambda>r. ir_code r = code) (\<lambda>r. r\<lparr>ir_used_by := None, ir_used_at := None\<rparr>)
               (invite_codes (tb d))\<rparr>\<rparr>)) d)
       (\<lambda>n d1. if n = 0 then (Inl (ErrNew ''invite code not found''), d1) else (Inr (), d1))"

section \<open>What registration does\<close>

lemma consume_update_later: "consume_update n c d = (r, d') \<Longrightarrow> later d d'"
  by (auto simp: consume_update_def Let_def)

lemma insert_user_cases:
  assumes "insert_user n h d = (r, d')"
  obtains (taken) "r = Inl (DBError unique_violation)" "n \<in> ur_username ` set (users (tb d))"
      "d' = d\<lparr>user_seq := user_seq d + 1\<rparr>"
  | (ok) "r = Inr (user_seq d)" "n \<notin> ur_username ` set (users (tb d))"
      "d' = d\<lparr>user_seq := user_seq d + 1,
              tb := (tb d)\<lparr>users := users (tb d) @ [new_user_row n h d]\<rparr>\<rparr>"
  using assms unfolding insert_user_def Let_def by (auto split: if_splits)

lemma insert_user_later: "insert_user n h d = (r, d') \<Longrightarrow> later d d'"
  by (erule insert_user_cases) (simp_all add: later_def)

definition registered :: "string \<Rightarrow> string \<Rightarrow> string \<Rightarrow> db \<Rightarrow> tables" where
  "registered code n h d =
     (tb d)\<lparr>invite_codes := update_where (consumable code (clock d))
              (\<lambda>r. r\<lparr>ir_used_by := Some n, ir_used_at := Some (clock d)\<rparr>) (invite_codes (tb d)),
            users := users (tb d) @ [new_user_row n h d]\<rparr>"

lemma register_body_cases:
  assumes "register_body code n h d = (res, d')"
  obtains (error) e where "res = Inl e" "later d d'"
  | (ok) "res = Inr \<lparr>UserID = user_seq d, Username = n, PasswordHash = h, PublicKey = []\<rparr>"
      "\<exists>r \<in> set (invite_codes (tb d)). consumable code (clock d) r"
      "n \<notin> ur_username ` set (users (tb d))" "tb d' = registered code n h d"
      "user_seq d' = user_seq d + 1" "msg_seq d' = msg_seq d" "invite_seq d' = invite_seq d"
      "clock d' = clock d"
  using assms [unfolded register_body_def]
proof (cases rule: and_then_cases)
  case (error e)
  then have "later d d'" by (auto elim: stmt_later consume_update_later)
  with error show thesis by (intro that(1))
next
  case (ok k d1)
  then have l1: "later d d1" by (auto elim: stmt_later consume_update_later)
  show thesis
  proof (cases "k = 0")
    case True
    with ok l1 show thesis by (intro that(1) [of ErrInvalidInviteCode]) auto
  next
    case False
    obtain r2 d2 where i: "stmt (insert_user n h) d1 = (r2, d2)" by fastforce
    then have l2: "later d d2" using l1 by (meson stmt_later insert_user_later later_trans)
    show thesis
    proof (cases r2)
      case (Inl e)
      with ok(2) False i l2 show thesis
        by (intro that(1) [of "if is_unique_text (err_text e) then ErrUsernameTaken else e"])
          (auto split: if_splits)
    next
      case (Inr x)
      from ok(1) obtain da where a: "agree d da" "consume_update n code da = (Inr k, d1)"
        by (cases rule: stmt_cases) auto
      from i Inr obtain db where b: "agree d1 db" "insert_user n h db = (Inr x, d2)"
        by (cases rule: stmt_cases) auto
      note eqs = agreeD [OF a(1)] agreeD [OF b(1)]
      from a(2) have k: "k = count_where (consumable code (clock d)) (invite_codes (tb d))"
        and d1: "d1 = da\<lparr>tb := (tb d)\<lparr>invite_codes := update_where (consumable code (clock d))
              (\<lambda>r. r\<lparr>ir_used_by := Some n, ir_used_at := Some (clock d)\<rparr>) (invite_codes (tb d))\<rparr>\<rparr>"
        by (auto simp: consume_update_def Let_def eqs)
      from b(2) have ins: "x = user_seq d" "n \<notin> ur_username ` set (users (tb d))"
          "d2 = db\<lparr>user_seq := user_seq d + 1,
                   tb := (tb d1)\<lparr>users := users (tb d1) @ [new_user_row n h d]\<rparr>\<rparr>"
        by (cases rule: insert_user_cases; simp add: eqs d1 new_user_row_def)+
      have fin: "res = Inr \<lparr>UserID = x, Username = n, PasswordHash = h, PublicKey = []\<rparr>" "d' = d2"
        using ok(2) False i Inr by auto
      have "\<exists>r \<in> set (invite_codes (tb d)). consumable code (clock d) r"
        using False k count_where_0 by metis
      with fin ins show thesis
        by (intro that(2)) (simp_all add: eqs d1 registered_def)
    qed
  qed
qed

lemma register_body_later: "register_body code n h d = (r, d') \<Longrightarrow> later d d'"
  by (erule register_body_cases) (simp_all add: later_def)

lemma RegisterWithInvite_cases:
  assumes "RegisterWithInvite code n h d = (res, d')"
  obtains (error) e where "res = Inl e" "unchanged d d'"
  | (ok) "res = Inr \<lparr>UserID = user_seq d, Username = n, PasswordHash = h, PublicKey = []\<rparr>"
      "\<exists>r \<in> set (invite_codes (tb d)). consumable code (clock d) r"
      "n \<notin> ur_username ` set (users (tb d))" "tb d' = registered code n h d"
      "user_seq d' = user_seq d + 1" "msg_seq d' = msg_seq d" "invite_seq d' = invite_seq d"
      "clock d' = clock d"
proof (cases res)
  case (Inl e)
  with assms show thesis
    unfolding RegisterWithInvite_def
    by (intro that(1) [OF Inl]) (auto intro: in_tx_later(2) register_body_later)
next
  case (Inr u)
  from assms [unfolded RegisterWithInvite_def Inr] obtain d0 d1
    where ag: "agree d d0" "register_body code n h d0 = (Inr u, d1)" "agree d1 d'"
    by (cases rule: in_tx_cases) auto
  note eqs = agreeD [OF ag(1)] agreeD [OF ag(3)]
  have "registered code n h d0 = registered code n h d"
    by (simp add: registered_def eqs new_user_row_def)
  with ag(2) Inr show thesis
    by (cases rule: register_body_cases) (simp_all add: eqs that(2))
qed

section \<open>The schema invariant\<close>

lemma tables_ok_invites:
  assumes "tables_ok t" "map ir_id rows = map ir_id (invite_codes t)"
    "map ir_code rows = map ir_code (invite_codes t)"
  shows "tables_ok (t\<lparr>invite_codes := rows\<rparr>)"
proof (rule tables_okI)
  note ok = tables_okD [OF assms(1)]
  show "users_ok (t\<lparr>invite_codes := rows\<rparr>)" using ok(1) by (simp add: users_ok_def)
  show "messages_ok (t\<lparr>invite_codes := rows\<rparr>)" by (rule messages_ok_mono [OF _ _ ok(2)]) simp_all
  show "invites_ok (t\<lparr>invite_codes := rows\<rparr>)"
    by (rule invites_ok_cong [OF _ _ ok(3)]) (simp_all add: assms)
  show "contacts_ok (t\<lparr>invite_codes := rows\<rparr>)"
    by (rule contacts_ok_mono [OF _ _ _ ok(4)]) (simp_all add: contacts_ok_distinct [OF ok(4)])
qed

lemma tables_ok_users:
  assumes "tables_ok t" "ur_id ` set (users t) \<subseteq> ur_id ` set rows"
    "distinct (map ur_id rows)" "distinct (map ur_username rows)"
  shows "tables_ok (t\<lparr>users := rows\<rparr>)"
proof (rule tables_okI)
  note ok = tables_okD [OF assms(1)]
  show "users_ok (t\<lparr>users := rows\<rparr>)" using assms(3,4) by (simp add: users_ok_def)
  show "messages_ok (t\<lparr>users := rows\<rparr>)"
    by (rule messages_ok_mono [OF _ _ ok(2)]) (simp_all add: assms(2))
  show "invites_ok (t\<lparr>users := rows\<rparr>)" by (rule invites_ok_cong [OF _ _ ok(3)]) simp_all
  show "contacts_ok (t\<lparr>users := rows\<rparr>)"
    by (rule contacts_ok_mono [OF _ _ _ ok(4)]) (simp_all add: assms(2) contacts_ok_distinct [OF ok(4)])
qed

lemma consumed_ids:
  "map ir_id (update_where P (\<lambda>r. r\<lparr>ir_used_by := a, ir_used_at := b\<rparr>) rows) = map ir_id rows"
  "map ir_code (update_where P (\<lambda>r. r\<lparr>ir_used_by := a, ir_used_at := b\<rparr>) rows) = map ir_code rows"
  by (simp_all add: map_update_where)

lemma fresh_user_id: "db_ok d \<Longrightarrow> user_seq d \<notin> ur_id ` set (users (tb d))"
  by (auto simp: db_ok_def seqs_ok_def)

lemma db_ok_add_user:
  assumes "db_ok d" "n \<notin> ur_username ` set (users (tb d))"
    "tb d' = (tb d)\<lparr>users := users (tb d) @ [new_user_row n h d]\<rparr>"
    "user_seq d' = user_seq d + 1" "msg_seq d' = msg_seq d" "invite_seq d' = invite_seq d"
  shows "db_ok d'"
proof -
  note uok = tables_okD(1) [OF db_okD(1) [OF assms(1)], unfolded users_ok_def]
  have "tables_ok (tb d')"
    unfolding assms(3)
  proof (rule tables_ok_users [OF db_okD(1) [OF assms(1)]])
    show "distinct (map ur_id (users (tb d) @ [new_user_row n h d]))"
      using uok fresh_user_id [OF assms(1)] by (simp add: new_user_row_def)
    show "distinct (map ur_username (users (tb d) @ [new_user_row n h d]))"
      using uok assms(2) by (simp add: new_user_row_def)
  qed auto
  moreover have "seqs_ok d'"
    using db_okD(2) [OF assms(1)] unfolding seqs_ok_def assms(3-6)
    by (fastforce simp: new_user_row_def)
  ultimately show ?thesis by (simp only: db_ok_def)
qed

lemma db_ok_consumed:
  assumes "db_ok d"
  shows "db_ok (d\<lparr>tb := (tb d)\<lparr>invite_codes :=
    update_where P (\<lambda>r. r\<lparr>ir_used_by := a, ir_used_at := b\<rparr>) (invite_codes (tb d))\<rparr>\<rparr>)"
  by (rule db_ok_update [OF assms]; simp add: consumed_ids tables_ok_invites db_okD(1) [OF assms])

lemma RegisterWithInvite_db_ok:
  assumes "db_ok d" "RegisterWithInvite code n h d = (res, d')"
  shows "db_ok d'"
  using assms(2)
proof (cases rule: RegisterWithInvite_cases)
  case (error e)
  with assms(1) show ?thesis by (blast intro: db_ok_unchanged)
next
  case ok
  define d0 where "d0 = d\<lparr>tb := (tb d)\<lparr>invite_codes := update_where (consumable code (clock d))
              (\<lambda>r. r\<lparr>ir_used_by := Some n, ir_used_at := Some (clock d)\<rparr>) (invite_codes (tb d))\<rparr>\<rparr>"
  have d0: "db_ok d0" unfolding d0_def using assms(1) by (rule db_ok_consumed)
  show ?thesis
    by (rule db_ok_add_user [OF d0, of n _ h]; simp add: d0_def ok registered_def new_user_row_def)
qed

section \<open>Registration is one atomic step\<close>

lemma consumable_one_row:
  assumes "invites_ok t" "r \<in> set (invite_codes t)" "consumable code now r"
  shows "update_where (consumable code now) f (invite_codes t) =
    map (\<lambda>x. if ir_id x = ir_id r then f x else x) (invite_codes t)"
  unfolding update_where_def
proof (intro map_cong refl)
  fix x
  assume x: "x \<in> set (invite_codes t)"
  have d: "distinct (map ir_id (invite_codes t))" "distinct (map ir_code (invite_codes t))"
    using assms(1) by (simp_all add: invites_ok_def)
  have "consumable code now x \<longleftrightarrow> ir_id x = ir_id r"
  proof
    assume "consumable code now x"
    then have "ir_code x = ir_code r" using assms(3) by (simp add: consumable_def)
    then show "ir_id x = ir_id r" using distinct_map_eq [OF d(2) x assms(2)] by simp
  next
    assume "ir_id x = ir_id r"
    then have "x = r" by (rule distinct_map_eq [OF d(1) x assms(2)])
    with assms(3) show "consumable code now x" by simp
  qed
  then show "(if consumable code now x then f x else x) = (if ir_id x = ir_id r then f x else x)" by simp
qed

text \<open>
  C4: registration is one atomic step. If it succeeds, the code was unused and not expired, the
  name was free, exactly one invite row is stamped with the new name, exactly one account row
  is added and nothing else changes; if it fails, at whatever statement, no table changes, so
  the code is still available. The schema's constraints hold in both cases.
\<close>

theorem registration_atomic:
  assumes "db_ok d" "RegisterWithInvite code n h d = (res, d')"
  shows "(case res of
      Inl _ \<Rightarrow> tb d' = tb d
    | Inr u \<Rightarrow>
        u = \<lparr>UserID = user_seq d, Username = n, PasswordHash = h, PublicKey = []\<rparr> \<and>
        n \<notin> ur_username ` set (users (tb d)) \<and>
        (\<exists>r \<in> set (invite_codes (tb d)). consumable code (clock d) r \<and>
           tb d' = (tb d)\<lparr>
             invite_codes := map (\<lambda>x. if ir_id x = ir_id r
               then x\<lparr>ir_used_by := Some n, ir_used_at := Some (clock d)\<rparr> else x) (invite_codes (tb d)),
             users := users (tb d) @ [new_user_row n h d]\<rparr>)) \<and>
    db_ok d'"
proof
  show "db_ok d'" using assms by (rule RegisterWithInvite_db_ok)
  from assms(2) show "case res of
      Inl _ \<Rightarrow> tb d' = tb d
    | Inr u \<Rightarrow>
        u = \<lparr>UserID = user_seq d, Username = n, PasswordHash = h, PublicKey = []\<rparr> \<and>
        n \<notin> ur_username ` set (users (tb d)) \<and>
        (\<exists>r \<in> set (invite_codes (tb d)). consumable code (clock d) r \<and>
           tb d' = (tb d)\<lparr>
             invite_codes := map (\<lambda>x. if ir_id x = ir_id r
               then x\<lparr>ir_used_by := Some n, ir_used_at := Some (clock d)\<rparr> else x) (invite_codes (tb d)),
             users := users (tb d) @ [new_user_row n h d]\<rparr>)"
  proof (cases rule: RegisterWithInvite_cases)
    case (error e)
    then show ?thesis by (simp add: unchanged_def)
  next
    case ok
    then obtain r where r: "r \<in> set (invite_codes (tb d))" "consumable code (clock d) r" by blast
    have "tb d' = (tb d)\<lparr>
             invite_codes := map (\<lambda>x. if ir_id x = ir_id r
               then x\<lparr>ir_used_by := Some n, ir_used_at := Some (clock d)\<rparr> else x) (invite_codes (tb d)),
             users := users (tb d) @ [new_user_row n h d]\<rparr>"
      unfolding ok(4) registered_def
      using consumable_one_row [OF tables_okD(3) [OF db_okD(1) [OF assms(1)]] r] by simp
    with r ok(1,3) show ?thesis by auto
  qed
qed

lemma demo_register:
  "RegisterWithInvite ''welcome'' ''dave'' ''h'' demo_db =
     (Inr \<lparr>UserID = 4, Username = ''dave'', PasswordHash = ''h'', PublicKey = []\<rparr>,
      demo_db\<lparr>user_seq := 5, tb := registered ''welcome'' ''dave'' ''h'' demo_db\<rparr>)"
  by (simp add: RegisterWithInvite_def in_tx_def register_body_def consume_update_def Let_def
      insert_user_def registered_def new_user_row_def count_where_def consumable_def demo_defs)

theorem registration_atomic_witness:
  "\<exists>u d'. RegisterWithInvite ''welcome'' ''dave'' ''h'' demo_db = (Inr u, d') \<and> UserID u = 4 \<and> db_ok d'"
  using registration_atomic [OF db_ok_demo demo_register] demo_register by simp

text \<open>
  Which error a registration gives. On a working connection the outcome is determined:
  without a matching unused, unexpired code it is \<open>ErrInvalidInviteCode\<close>, even for a name that
  is taken; with one and a taken name (a deleted account's tombstone name included) it is
  \<open>ErrUsernameTaken\<close>; otherwise the account is created.
\<close>

theorem registration_outcome:
  assumes "faults d = []"
  shows "fst (RegisterWithInvite code n h d) =
    (if \<not> (\<exists>r \<in> set (invite_codes (tb d)). consumable code (clock d) r) then Inl ErrInvalidInviteCode
     else if n \<in> ur_username ` set (users (tb d)) then Inl ErrUsernameTaken
     else Inr \<lparr>UserID = user_seq d, Username = n, PasswordHash = h, PublicKey = []\<rparr>)"
  using assms
  by (auto simp: RegisterWithInvite_def in_tx_def register_body_def consume_update_def Let_def
      insert_user_def count_where_0)

theorem registration_outcome_witness:
  "fst (RegisterWithInvite ''burned'' ''alice'' ''h'' demo_db) = Inl ErrInvalidInviteCode \<and>
   fst (RegisterWithInvite ''welcome'' ''alice'' ''h'' demo_db) = Inl ErrUsernameTaken"
  by (simp add: registration_outcome [OF demo_faults]) (simp add: consumable_def demo_defs)

section \<open>A code is used once\<close>

lemma ConsumeInviteCode_cases:
  assumes "ConsumeInviteCode code n d = (res, d')"
  obtains (error) e where "res = Inl e" "unchanged d d'"
  | (ok) "res = Inr ()" "\<exists>r \<in> set (invite_codes (tb d)). consumable code (clock d) r"
      "unchanged (d\<lparr>tb := (tb d)\<lparr>invite_codes := update_where (consumable code (clock d))
         (\<lambda>r. r\<lparr>ir_used_by := Some n, ir_used_at := Some (clock d)\<rparr>) (invite_codes (tb d))\<rparr>\<rparr>) d'"
  using assms [unfolded ConsumeInviteCode_def]
proof (cases rule: and_then_cases)
  case (error e)
  then have "unchanged d d'"
    by (cases rule: stmt_cases [case_names fault ok]) (auto simp: agree_unchanged consume_update_def Let_def)
  with error show thesis by (intro that(1))
next
  case (ok k d1)
  from ok(1) obtain da where a: "agree d da" "consume_update n code da = (Inr k, d1)"
    by (cases rule: stmt_cases) auto
  let ?P = "consumable code (clock d)"
  note eqs = agreeD [OF a(1)]
  from a(2) have k: "k = count_where ?P (invite_codes (tb d))"
    and d1: "d1 = da\<lparr>tb := (tb d)\<lparr>invite_codes := update_where ?P
              (\<lambda>r. r\<lparr>ir_used_by := Some n, ir_used_at := Some (clock d)\<rparr>) (invite_codes (tb d))\<rparr>\<rparr>"
    by (auto simp: consume_update_def Let_def eqs)
  show thesis
  proof (cases "k = 0")
    case True
    then have "\<forall>r \<in> set (invite_codes (tb d)). \<not> ?P r" using k count_where_0 by metis
    then have "tb d1 = tb d" by (simp add: d1 update_where_none)
    moreover have "later d d1" using agree_later [OF a(1)] by (simp add: d1)
    ultimately show thesis using True ok(2)
      by (intro that(1) [of "ErrNew ''invalid or already used invite code''"]) (auto simp: unchanged_def)
  next
    case False
    then have "\<exists>r \<in> set (invite_codes (tb d)). ?P r" using k count_where_0 by metis
    moreover have "later d d1" using agree_later [OF a(1)] by (simp add: d1)
    ultimately show thesis using False ok(2) by (intro that(2)) (auto simp: unchanged_def d1)
  qed
qed

lemma insert_invite_cases:
  assumes "insert_invite code cr ex d = (res, d')"
  obtains (taken) "res = Inl (DBError unique_violation)" "unchanged d d'"
  | (ok) row where "res = Inr (scan_invite row)" "row = \<lparr>ir_id = invite_seq d, ir_code = code,
       ir_created_by = cr, ir_used_by = None, ir_used_at = None, ir_expires_at = ex, ir_created_at = clock d\<rparr>"
      "code \<notin> ir_code ` set (invite_codes (tb d))"
      "d' = d\<lparr>invite_seq := invite_seq d + 1, tb := (tb d)\<lparr>invite_codes := invite_codes (tb d) @ [row]\<rparr>\<rparr>"
  using assms unfolding insert_invite_def Let_def
  by (auto simp: unchanged_def later_def split: if_splits)

lemma AdminCreateInvite_cases:
  assumes "AdminCreateInvite code cr ex d = (res, d')"
  obtains (error) e where "res = Inl e" "unchanged d d'"
  | (ok) row d0 where "res = Inr (scan_invite row)" "row = \<lparr>ir_id = invite_seq d, ir_code = code,
       ir_created_by = cr, ir_used_by = None, ir_used_at = None, ir_expires_at = ex, ir_created_at = clock d\<rparr>"
      "code \<notin> ir_code ` set (invite_codes (tb d))" "agree d d0"
      "d' = d0\<lparr>invite_seq := invite_seq d + 1, tb := (tb d)\<lparr>invite_codes := invite_codes (tb d) @ [row]\<rparr>\<rparr>"
proof -
  obtain r1 d1 where s: "stmt (insert_invite code cr ex) d = (r1, d1)" by fastforce
  note def = assms [unfolded AdminCreateInvite_def s]
  from s show thesis
  proof (cases rule: stmt_cases)
    case (fault e)
    with def show thesis
      by (intro error [of "if is_unique_text e then ErrNew ''invite code already exists'' else DBError e"])
        (auto simp: agree_unchanged split: if_splits)
  next
    case (ok d0)
    from ok(2) show thesis
    proof (cases rule: insert_invite_cases)
      case taken
      with def ok(1) show thesis
        by (intro error [of "ErrNew ''invite code already exists''"])
          (auto intro: unchanged_trans agree_unchanged)
    next
      case (ok row)
      with def \<open>agree d d0\<close> show thesis
        by (intro that(2) [of row d0]) (auto simp: agreeD)
    qed
  qed
qed

lemma AdminResetInvite_cases:
  assumes "AdminResetInvite code d = (res, d')"
  obtains (error) e where "res = Inl e" "unchanged d d'"
  | (ok) "res = Inr ()" "\<exists>r \<in> set (invite_codes (tb d)). ir_code r = code"
      "unchanged (d\<lparr>tb := (tb d)\<lparr>invite_codes := update_where (\<lambda>r. ir_code r = code)
         (\<lambda>r. r\<lparr>ir_used_by := None, ir_used_at := None\<rparr>) (invite_codes (tb d))\<rparr>\<rparr>) d'"
  using assms [unfolded AdminResetInvite_def]
proof (cases rule: and_then_cases)
  case (error e)
  then have "unchanged d d'" by (cases rule: stmt_cases) (auto simp: agree_unchanged)
  with error show thesis by (intro that(1))
next
  case (ok k d1)
  let ?P = "\<lambda>r. ir_code r = code"
  from ok(1) obtain da where a: "agree d da"
    and k: "k = count_where ?P (invite_codes (tb d))"
    and d1: "d1 = da\<lparr>tb := (tb d)\<lparr>invite_codes := update_where ?P
              (\<lambda>r. r\<lparr>ir_used_by := None, ir_used_at := None\<rparr>) (invite_codes (tb d))\<rparr>\<rparr>"
    by (cases rule: stmt_cases) (auto simp: agreeD)
  have l: "later d d1" using agree_later [OF a] by (simp add: d1)
  show thesis
  proof (cases "k = 0")
    case True
    then have "\<forall>r \<in> set (invite_codes (tb d)). \<not> ?P r" using k count_where_0 [of ?P] by metis
    then have "tb d1 = tb d" by (simp add: d1 update_where_none)
    with True ok(2) l show thesis
      by (intro that(1) [of "ErrNew ''invite code not found''"]) (auto simp: unchanged_def)
  next
    case False
    then have "\<exists>r \<in> set (invite_codes (tb d)). ?P r" using k count_where_0 [of ?P] by metis
    with False ok(2) l show thesis by (intro that(2)) (auto simp: unchanged_def d1)
  qed
qed

lemma ConsumeInviteCode_db_ok: "db_ok d \<Longrightarrow> ConsumeInviteCode code n d = (res, d') \<Longrightarrow> db_ok d'"
  by (elim ConsumeInviteCode_cases) (blast intro: db_ok_unchanged db_ok_consumed)+

lemma AdminResetInvite_db_ok: "db_ok d \<Longrightarrow> AdminResetInvite code d = (res, d') \<Longrightarrow> db_ok d'"
  by (elim AdminResetInvite_cases) (blast intro: db_ok_unchanged db_ok_consumed)+

lemma AdminCreateInvite_db_ok:
  assumes "db_ok d" "AdminCreateInvite code cr ex d = (res, d')"
  shows "db_ok d'"
  using assms(2)
proof (cases rule: AdminCreateInvite_cases)
  case (error e)
  with assms(1) show ?thesis by (blast intro: db_ok_unchanged)
next
  case (ok row d0)
  note ag = agreeD [OF ok(4)]
  note tok = tables_okD [OF db_okD(1) [OF assms(1)]]
  note sq = db_okD(2) [OF assms(1), unfolded seqs_ok_def]
  let ?t = "(tb d)\<lparr>invite_codes := invite_codes (tb d) @ [row]\<rparr>"
  have "users_ok ?t" using tok(1) by (simp add: users_ok_def)
  moreover have "messages_ok ?t" by (rule messages_ok_mono [OF _ _ tok(2)]) simp_all
  moreover have "contacts_ok ?t"
    by (rule contacts_ok_mono [OF _ _ _ tok(4)]) (simp_all add: contacts_ok_distinct [OF tok(4)])
  moreover have "invites_ok ?t"
    using tok(3) sq ok(2,3) unfolding invites_ok_def by auto
  ultimately have t: "tables_ok (tb d')" by (simp add: ok(5) tables_ok_def)
  have "seqs_ok d'" using sq ok(2) unfolding seqs_ok_def by (fastforce simp: ok(5) ag)
  with t show ?thesis by (simp only: db_ok_def)
qed

text \<open>
  A history of the invite table: registrations, direct consumptions, new codes and resets in
  any order, with the clock and the faults changing between them (\<open>Env\<close>). \<open>history\<close> counts how
  often the code \<open>c\<close> was consumed and how often it was reset.
\<close>

datatype invite_op =
    Register string string string
  | Consume string string
  | CreateCode string string "time option"
  | Reset string
  | Env time "string option list"

fun invite_step :: "string \<Rightarrow> invite_op \<Rightarrow> db \<Rightarrow> nat \<times> nat \<times> db" where
  "invite_step c (Register code n h) d =
     (case RegisterWithInvite code n h d of
        (r, d') \<Rightarrow> (if \<not> is_err r \<and> code = c then 1 else 0, 0, d'))"
| "invite_step c (Consume code n) d =
     (case ConsumeInviteCode code n d of
        (r, d') \<Rightarrow> (if \<not> is_err r \<and> code = c then 1 else 0, 0, d'))"
| "invite_step c (CreateCode code cr ex) d = (0, 0, snd (AdminCreateInvite code cr ex d))"
| "invite_step c (Reset code) d =
     (case AdminResetInvite code d of
        (r, d') \<Rightarrow> (0, if \<not> is_err r \<and> code = c then 1 else 0, d'))"
| "invite_step c (Env now fs) d = (0, 0, d\<lparr>clock := now, faults := fs\<rparr>)"

fun history :: "string \<Rightarrow> invite_op list \<Rightarrow> db \<Rightarrow> nat \<times> nat" where
  "history c [] d = (0, 0)"
| "history c (op # ops) d =
     (case invite_step c op d of
        (k, r, d') \<Rightarrow> (case history c ops d' of (k', r') \<Rightarrow> (k + k', r + r')))"

definition used :: "string \<Rightarrow> tables \<Rightarrow> bool" where
  "used c t \<longleftrightarrow> (\<exists>r \<in> set (invite_codes t). ir_code r = c \<and> ir_used_by r \<noteq> None)"

lemma not_used_consumable:
  assumes "invites_ok t" "\<exists>r \<in> set (invite_codes t). consumable c now r"
  shows "\<not> used c t"
proof
  assume "used c t"
  then obtain x where x: "x \<in> set (invite_codes t)" "ir_code x = c" "ir_used_by x \<noteq> None"
    unfolding used_def by blast
  from assms(2) obtain r where r: "r \<in> set (invite_codes t)" "ir_code r = c" "ir_used_by r = None"
    unfolding consumable_def by blast
  have "x = r" using assms(1) x(1,2) r(1,2) unfolding invites_ok_def by (metis distinct_map_eq)
  with x(3) r(3) show False by simp
qed

lemma used_update_other:
  assumes "\<And>r. P r \<Longrightarrow> ir_code r \<noteq> c" "\<And>r. ir_code (f r) = ir_code r"
  shows "used c (t\<lparr>invite_codes := update_where P f rows\<rparr>) = used c (t\<lparr>invite_codes := rows\<rparr>)"
proof -
  have other: "ir_code (f r) \<noteq> c" if "P r" for r using assms that by metis
  have "(\<exists>x \<in> set (update_where P f rows). ir_code x = c \<and> ir_used_by x \<noteq> None) \<longleftrightarrow>
      (\<exists>x \<in> set rows. ir_code x = c \<and> ir_used_by x \<noteq> None)"
    unfolding set_update_where using assms(1) other by blast
  then show ?thesis by (simp add: used_def)
qed

lemma used_consumed:
  assumes "\<exists>r \<in> set rows. consumable c now r"
  shows "used c (t\<lparr>invite_codes := update_where (consumable c now)
    (\<lambda>r. r\<lparr>ir_used_by := Some n, ir_used_at := Some now\<rparr>) rows\<rparr>)"
proof -
  from assms obtain r where r: "r \<in> set rows" "consumable c now r" by blast
  let ?r = "r\<lparr>ir_used_by := Some n, ir_used_at := Some now\<rparr>"
  have "?r \<in> set (update_where (consumable c now) (\<lambda>r. r\<lparr>ir_used_by := Some n, ir_used_at := Some now\<rparr>) rows)"
    unfolding set_update_where using r by blast
  moreover have "ir_code ?r = c \<and> ir_used_by ?r \<noteq> None" using r(2) by (simp add: consumable_def)
  moreover have inv: "invite_codes (t\<lparr>invite_codes := rows'\<rparr>) = rows'" for rows' by simp
  ultimately show ?thesis unfolding used_def inv by blast
qed

lemma potential_step:
  assumes "db_ok d" "invite_step c op d = (k, r, d')"
  shows "k + (if used c (tb d') then 0 else 1) \<le> r + (if used c (tb d) then 0 else 1)" "db_ok d'"
proof -
  note inv = tables_okD(3) [OF db_okD(1) [OF assms(1)]]
  have consumed: "used c (tb d') = used c (tb d)"
    if "tb d' = t\<lparr>invite_codes := update_where (consumable code now) f (invite_codes (tb d))\<rparr>"
      "code \<noteq> c" "\<And>r. ir_code (f r) = ir_code r" for code now f t
  proof -
    have "used c (t\<lparr>invite_codes := update_where (consumable code now) f (invite_codes (tb d))\<rparr>) =
        used c (t\<lparr>invite_codes := invite_codes (tb d)\<rparr>)"
      by (rule used_update_other [OF _ that(3)]) (use that(2) in \<open>simp add: consumable_def\<close>)
    then show ?thesis unfolding that(1) used_def by simp
  qed
  have "k + (if used c (tb d') then 0 else 1) \<le> r + (if used c (tb d) then 0 else 1) \<and> db_ok d'"
  proof (cases op)
    case (Register code n h)
    obtain res d1 where s: "RegisterWithInvite code n h d = (res, d1)" by fastforce
    with assms(2) Register have k: "k = (if \<not> is_err res \<and> code = c then 1 else 0)" "d1 = d'" by auto
    have ok: "db_ok d'" using RegisterWithInvite_db_ok [OF assms(1) s] k by simp
    from s show ?thesis
    proof (cases rule: RegisterWithInvite_cases)
      case (error e)
      then show ?thesis using k ok by (simp add: unchanged_def)
    next
      case s: ok
      show ?thesis
      proof (cases "code = c")
        case True
        with s(2) inv have "\<not> used c (tb d)" by (auto dest: not_used_consumable)
        moreover have "used c (tb d')"
          using used_consumed [OF s(2), where t = "tb d" and n = n] s(4) k(2) True by (simp add: used_def registered_def)
        ultimately show ?thesis using k ok True by simp
      next
        case False
        then have "used c (tb d') = used c (tb d)"
          using s(4) k(2) by (intro consumed [where t = "tb d\<lparr>users := users (tb d1)\<rparr>" and code = code and now = "clock d" and
              f = "\<lambda>r. r\<lparr>ir_used_by := Some n, ir_used_at := Some (clock d)\<rparr>"])
            (auto simp: registered_def)
        then show ?thesis using k ok False by simp
      qed
    qed
  next
    case (Consume code n)
    obtain res d1 where s: "ConsumeInviteCode code n d = (res, d1)" by fastforce
    with assms(2) Consume have k: "k = (if \<not> is_err res \<and> code = c then 1 else 0)" "d1 = d'" by auto
    have ok: "db_ok d'" using ConsumeInviteCode_db_ok [OF assms(1) s] k by simp
    from s show ?thesis
    proof (cases rule: ConsumeInviteCode_cases)
      case (error e)
      then show ?thesis using k ok by (simp add: unchanged_def)
    next
      case s: ok
      show ?thesis
      proof (cases "code = c")
        case True
        with s(2) inv have "\<not> used c (tb d)" by (auto dest: not_used_consumable)
        moreover have "used c (tb d')"
          using used_consumed [OF s(2), where t = "tb d" and n = n] s(3) k(2) True by (simp add: unchanged_def)
        ultimately show ?thesis using k ok True by simp
      next
        case False
        then have "used c (tb d') = used c (tb d)"
          using s(3) k(2) by (intro consumed [where t = "tb d" and code = code and now = "clock d" and
              f = "\<lambda>r. r\<lparr>ir_used_by := Some n, ir_used_at := Some (clock d)\<rparr>"]) (auto simp: unchanged_def)
        then show ?thesis using k ok False by simp
      qed
    qed
  next
    case (CreateCode code cr ex)
    obtain res d1 where s: "AdminCreateInvite code cr ex d = (res, d1)" by fastforce
    with assms(2) CreateCode have k: "k = 0" "d1 = d'" by auto
    have ok: "db_ok d'" using AdminCreateInvite_db_ok [OF assms(1) s] k by simp
    from s have "used c (tb d') = used c (tb d)"
      unfolding k by (cases rule: AdminCreateInvite_cases) (auto simp: used_def unchanged_def)
    then show ?thesis using k ok by simp
  next
    case (Reset code)
    obtain res d1 where s: "AdminResetInvite code d = (res, d1)" by fastforce
    with assms(2) Reset have k: "k = 0" "r = (if \<not> is_err res \<and> code = c then 1 else 0)" "d1 = d'" by auto
    have ok: "db_ok d'" using AdminResetInvite_db_ok [OF assms(1) s] k by simp
    from s show ?thesis
    proof (cases rule: AdminResetInvite_cases)
      case (error e)
      then show ?thesis using k ok by (simp add: unchanged_def)
    next
      case s: ok
      have "code \<noteq> c \<Longrightarrow> used c (tb d') = used c (tb d)"
        using s(3) k(3) used_update_other [of "\<lambda>r. ir_code r = code" c
            "\<lambda>r. r\<lparr>ir_used_by := None, ir_used_at := None\<rparr>"]
        by (simp add: unchanged_def)
      then show ?thesis using k ok s(1) by auto
    qed
  next
    case (Env now fs)
    with assms show ?thesis by (auto simp: db_ok_def seqs_ok_def)
  qed
  then show "k + (if used c (tb d') then 0 else 1) \<le> r + (if used c (tb d) then 0 else 1)" "db_ok d'"
    by blast+
qed

text \<open>
  An invite code is good for one registration. Over any history of registrations, direct
  consumptions, newly created codes and resets, with any clock and any failing statements in
  between, a code is consumed at most once more than an administrator has reset it, and not
  even that once if it was used already at the start.
\<close>

theorem invite_used_once:
  assumes "db_ok d" "history c ops d = (consumed, resets)"
  shows "consumed \<le> resets + (if used c (tb d) then 0 else 1)"
  using assms
proof (induction ops arbitrary: d consumed resets)
  case (Cons op ops)
  obtain k r d' where s: "invite_step c op d = (k, r, d')" using prod_cases3 by blast
  obtain k' r' where h: "history c ops d' = (k', r')" by fastforce
  from potential_step [OF Cons.prems(1) s]
  have "k + (if used c (tb d') then 0 else 1) \<le> r + (if used c (tb d) then 0 else 1)" "db_ok d'" .
  moreover from Cons.IH [OF this(2) h] have "k' \<le> r' + (if used c (tb d') then 0 else 1)" .
  ultimately show ?case using Cons.prems(2) s h by simp
qed simp

lemma demo_history:
  "history ''welcome'' [Register ''welcome'' ''dave'' ''h'', Register ''welcome'' ''erin'' ''h'',
     Consume ''welcome'' ''erin'', Reset ''welcome'', Register ''welcome'' ''erin'' ''h''] demo_db = (2, 1)"
  by (simp add: RegisterWithInvite_def in_tx_def register_body_def consume_update_def Let_def
      ConsumeInviteCode_def AdminResetInvite_def rollback_def update_where_def
      insert_user_def new_user_row_def count_where_def consumable_def demo_defs)

theorem invite_used_once_witness:
  "(2::nat) \<le> 1 + (if used ''welcome'' (tb demo_db) then 0 else 1) \<and>
   fst (history ''welcome'' [Register ''welcome'' ''dave'' ''h'', Register ''welcome'' ''erin'' ''h'',
     Consume ''welcome'' ''erin'', Reset ''welcome'', Register ''welcome'' ''erin'' ''h''] demo_db) = 2"
  using invite_used_once [OF db_ok_demo demo_history] by (simp only: demo_history fst_conv)

end
