(* ===== verification/Message_Store.thy ===== *)
theory Message_Store
  imports Store_Interfaces
begin

text \<open>
  \<open>internal/store/message_store.go\<close>: the message table's operations, each SQL statement as the
  list function it denotes, then what they guarantee: the schema's constraints are kept, a send
  is idempotent in its client id, listings refine the abstract thread of a conversation and
  paginate completely, reading and deleting touch exactly the rows they should.
\<close>

section \<open>Reading rows\<close>

text \<open>\<open>scanMsg\<close>: NULL \<open>iv\<close> and \<open>client_message_id\<close> become the empty string.\<close>

definition scanMsg :: "msg_row \<Rightarrow> message" where
  "scanMsg r =
     \<lparr>ID = mr_id r, SenderID = mr_sender_id r, RecipientID = mr_recipient_id r,
      Body = mr_body r,
      IV = (case mr_iv r of None \<Rightarrow> [] | Some s \<Rightarrow> s),
      Encrypted = mr_encrypted r,
      ClientMessageID = (case mr_client_message_id r of None \<Rightarrow> [] | Some s \<Rightarrow> s),
      CreatedAt = mr_created_at r,
      ReadAt = mr_read_at r,
      DeletedAt = mr_deleted_at r\<rparr>"

text \<open>\<open>selectCols\<close>: body and nonce of a deleted message are blanked in the result.\<close>

definition selectCols :: "msg_row \<Rightarrow> msg_row" where
  "selectCols r =
     r\<lparr>mr_body := (if mr_deleted_at r \<noteq> None then [] else mr_body r),
       mr_iv := (if mr_deleted_at r \<noteq> None then Some [] else mr_iv r)\<rparr>"

text \<open>\<open>rawCols\<close>: the row as it is.\<close>

definition rawCols :: "msg_row \<Rightarrow> msg_row" where
  "rawCols r = r"

abbreviation display :: "msg_row \<Rightarrow> message" where
  "display r \<equiv> scanMsg (selectCols r)"

section \<open>Operations\<close>

text \<open>
  The \<open>INSERT ... ON CONFLICT (sender_id, client_message_id) DO NOTHING RETURNING\<close>: the id is
  drawn from the sequence even when the conflict then suppresses the row. The id columns are
  \<open>INTEGER\<close> and reference \<open>users\<close>.
\<close>

definition new_message_row ::
  "int64 \<Rightarrow> int64 \<Rightarrow> string \<Rightarrow> string \<Rightarrow> bool \<Rightarrow> string \<Rightarrow> db \<Rightarrow> msg_row" where
  "new_message_row senderID recipientID body iv encrypted clientMessageID d =
     \<lparr>mr_id = msg_seq d, mr_sender_id = senderID, mr_recipient_id = recipientID,
      mr_body = body, mr_created_at = clock d, mr_iv = Some iv,
      mr_encrypted = encrypted, mr_client_message_id = Some clientMessageID,
      mr_read_at = None, mr_deleted_at = None\<rparr>"

definition same_client_id :: "int64 \<Rightarrow> string \<Rightarrow> msg_row \<Rightarrow> bool" where
  "same_client_id senderID clientMessageID r \<longleftrightarrow>
     mr_sender_id r = senderID \<and> mr_client_message_id r = Some clientMessageID"

definition insert_message ::
  "int64 \<Rightarrow> int64 \<Rightarrow> string \<Rightarrow> string \<Rightarrow> bool \<Rightarrow> string \<Rightarrow> db \<Rightarrow> message result \<times> db" where
  "insert_message senderID recipientID body iv encrypted clientMessageID d =
     (if \<not> int4_ok senderID \<or> \<not> int4_ok recipientID then (Inl (DBError int4_range_error), d)
      else
        let row = new_message_row senderID recipientID body iv encrypted clientMessageID d;
            d1 = d\<lparr>msg_seq := msg_seq d + 1\<rparr>
        in if list_ex (same_client_id senderID clientMessageID) (messages (tb d))
           then (Inl ErrNoRows, d1)
           else if senderID \<notin> ur_id ` set (users (tb d)) \<or> recipientID \<notin> ur_id ` set (users (tb d))
           then (Inl (DBError fk_violation), d1)
           else (Inr (scanMsg (rawCols row)),
                 d1\<lparr>tb := (tb d)\<lparr>messages := messages (tb d) @ [row]\<rparr>\<rparr>))"

definition fetch_message :: "int64 \<Rightarrow> string \<Rightarrow> db \<Rightarrow> message result \<times> db" where
  "fetch_message senderID clientMessageID d =
     (case select_one (same_client_id senderID clientMessageID) (messages (tb d)) of
        None \<Rightarrow> (Inl ErrNoRows, d)
      | Some r \<Rightarrow> (Inr (scanMsg (rawCols r)), d))"

definition CreateOrGetExisting ::
  "int64 \<Rightarrow> int64 \<Rightarrow> string \<Rightarrow> string \<Rightarrow> bool \<Rightarrow> string \<Rightarrow> db \<Rightarrow> (message \<times> bool) result \<times> db" where
  "CreateOrGetExisting senderID recipientID body iv encrypted clientMessageID d =
     (case stmt (insert_message senderID recipientID body iv encrypted clientMessageID) d of
        (Inr m, d1) \<Rightarrow> (Inr (m, True), d1)
      | (Inl err, d1) \<Rightarrow>
          if \<not> errors_Is err ErrNoRows then (Inl err, d1)
          else and_then (stmt (fetch_message senderID clientMessageID) d1)
                 (\<lambda>m d2. (Inr (m, False), d2)))"

definition GetByID :: "int64 \<Rightarrow> db \<Rightarrow> message result \<times> db" where
  "GetByID i =
     stmt (\<lambda>d. case select_one (\<lambda>r. mr_id r = i) (messages (tb d)) of
                 None \<Rightarrow> (Inl ErrNoRows, d)
               | Some r \<Rightarrow> (Inr (scanMsg (selectCols r)), d))"

definition between :: "int64 \<Rightarrow> int64 \<Rightarrow> msg_row \<Rightarrow> bool" where
  "between u p r \<longleftrightarrow>
     (mr_sender_id r = u \<and> mr_recipient_id r = p) \<or> (mr_sender_id r = p \<and> mr_recipient_id r = u)"

text \<open>\<open>queryMessages\<close>: one row more than the page is fetched to find out whether there is more.\<close>

definition queryMessages ::
  "(int64 \<Rightarrow> int64 \<Rightarrow> int64 \<Rightarrow> int \<Rightarrow> tables \<Rightarrow> msg_row list) \<Rightarrow>
   int64 \<Rightarrow> int64 \<Rightarrow> int64 \<Rightarrow> int \<Rightarrow> int \<Rightarrow> db \<Rightarrow> (message list \<times> bool) result \<times> db" where
  "queryMessages q userID peerID cursor fetchLimit retainLimit d =
     and_then (query (q userID peerID cursor fetchLimit) d) (\<lambda>rows d1.
       let msgs = map scanMsg rows in
       if int (length msgs) > retainLimit then (Inr (take (nat retainLimit) msgs, True), d1)
       else (Inr (msgs, False), d1))"

definition since_query :: "int64 \<Rightarrow> int64 \<Rightarrow> int64 \<Rightarrow> int \<Rightarrow> tables \<Rightarrow> msg_row list" where
  "since_query u p cursor lim t =
     map selectCols (take (nat lim)
       (sort_key mr_id (filter (\<lambda>r. between u p r \<and> mr_id r > cursor) (messages t))))"

definition ListConversationSince ::
  "int64 \<Rightarrow> int64 \<Rightarrow> int64 \<Rightarrow> int \<Rightarrow> db \<Rightarrow> (message list \<times> bool) result \<times> db" where
  "ListConversationSince userID peerID sinceID limit =
     queryMessages since_query userID peerID sinceID (limit + 1) limit"

definition before_query :: "int64 \<Rightarrow> int64 \<Rightarrow> int64 \<Rightarrow> int \<Rightarrow> tables \<Rightarrow> msg_row list" where
  "before_query u p cursor lim t =
     map selectCols (take (nat lim)
       (rev (sort_key mr_id (filter (\<lambda>r. between u p r \<and> mr_id r < cursor) (messages t)))))"

text \<open>The loop \<open>for i, j := 0, len(msgs)-1; i < j; i, j = i+1, j-1 { msgs[i], msgs[j] = msgs[j], msgs[i] }\<close>.\<close>

function swap_loop :: "int \<Rightarrow> int \<Rightarrow> 'a list \<Rightarrow> 'a list" where
  "swap_loop i j xs =
     (if i < j then swap_loop (i + 1) (j - 1) (xs[nat i := xs ! nat j, nat j := xs ! nat i])
      else xs)"
  by pat_completeness auto
termination
  by (relation "measure (\<lambda>(i, j, xs). nat (j - i))") auto

declare swap_loop.simps [simp del]

definition ListConversationBefore ::
  "int64 \<Rightarrow> int64 \<Rightarrow> int64 \<Rightarrow> int \<Rightarrow> db \<Rightarrow> (message list \<times> bool) result \<times> db" where
  "ListConversationBefore userID peerID beforeID limit d =
     and_then (queryMessages before_query userID peerID beforeID (limit + 1) limit d)
       (\<lambda>(msgs, hasMore) d1. (Inr (swap_loop 0 (int (length msgs) - 1) msgs, hasMore), d1))"

definition GetUnreadForUser :: "int64 \<Rightarrow> int64 \<Rightarrow> db \<Rightarrow> message list result \<times> db" where
  "GetUnreadForUser userID sinceID =
     query (\<lambda>t. map (\<lambda>r. scanMsg (selectCols r))
       (sort_key mr_id (filter (\<lambda>r. mr_recipient_id r = userID \<and> mr_id r > sinceID \<and>
                                    mr_deleted_at r = None) (messages t))))"

definition unread_from :: "int64 \<Rightarrow> int64 \<Rightarrow> msg_row \<Rightarrow> bool" where
  "unread_from recipientID senderID r \<longleftrightarrow>
     mr_recipient_id r = recipientID \<and> mr_sender_id r = senderID \<and>
     mr_read_at r = None \<and> mr_deleted_at r = None"

definition MarkRead :: "int64 \<Rightarrow> int64 \<Rightarrow> db \<Rightarrow> int64 list result \<times> db" where
  "MarkRead recipientID senderID =
     stmt (\<lambda>d.
       let P = unread_from recipientID senderID
       in (Inr (map mr_id (filter P (messages (tb d)))),
           d\<lparr>tb := (tb d)\<lparr>messages :=
               update_where P (\<lambda>r. r\<lparr>mr_read_at := Some (clock d)\<rparr>) (messages (tb d))\<rparr>\<rparr>))"

definition deletable :: "int64 \<Rightarrow> int64 \<Rightarrow> msg_row \<Rightarrow> bool" where
  "deletable messageID senderID r \<longleftrightarrow>
     mr_id r = messageID \<and> mr_sender_id r = senderID \<and> mr_deleted_at r = None"

definition SoftDelete :: "int64 \<Rightarrow> int64 \<Rightarrow> db \<Rightarrow> message result \<times> db" where
  "SoftDelete messageID senderID =
     stmt (\<lambda>d.
       let P = deletable messageID senderID; del = (\<lambda>r. r\<lparr>mr_deleted_at := Some (clock d)\<rparr>)
       in case select_one P (messages (tb d)) of
            None \<Rightarrow> (Inl ErrMessageNotFound, d)
          | Some r \<Rightarrow> (Inr (scanMsg (rawCols (del r))),
                        d\<lparr>tb := (tb d)\<lparr>messages := update_where P del (messages (tb d))\<rparr>\<rparr>))"

text \<open>The store as the value of the handlers' interface.\<close>

definition pg_message_store :: "db message_storer" where
  "pg_message_store =
     \<lparr>ms_CreateOrGetExisting = CreateOrGetExisting,
      ms_ListConversationSince = ListConversationSince,
      ms_ListConversationBefore = ListConversationBefore,
      ms_GetByID = GetByID,
      ms_GetUnreadForUser = GetUnreadForUser,
      ms_MarkRead = MarkRead,
      ms_SoftDelete = SoftDelete\<rparr>"

section \<open>Creating\<close>

lemma insert_message_cases:
  assumes "insert_message s p b iv e c d = (res, d')"
  obtains (range) "res = Inl (DBError int4_range_error)" "d' = d" "\<not> int4_ok s \<or> \<not> int4_ok p"
  | (conflict) "res = Inl ErrNoRows" "d' = d\<lparr>msg_seq := msg_seq d + 1\<rparr>"
      "\<exists>r \<in> set (messages (tb d)). same_client_id s c r" "int4_ok s" "int4_ok p"
  | (fk) "res = Inl (DBError fk_violation)" "d' = d\<lparr>msg_seq := msg_seq d + 1\<rparr>"
  | (inserted) "res = Inr (scanMsg (new_message_row s p b iv e c d))"
      "d' = d\<lparr>msg_seq := msg_seq d + 1,
              tb := (tb d)\<lparr>messages := messages (tb d) @ [new_message_row s p b iv e c d]\<rparr>\<rparr>"
      "\<forall>r \<in> set (messages (tb d)). \<not> same_client_id s c r"
      "s \<in> ur_id ` set (users (tb d))" "p \<in> ur_id ` set (users (tb d))" "int4_ok s" "int4_ok p"
  using assms unfolding insert_message_def Let_def
  by (auto simp: list_ex_iff rawCols_def split: if_splits)

lemma CreateOrGetExisting_cases:
  assumes "CreateOrGetExisting s p b iv e c d = (res, d')"
  obtains (error) err where "res = Inl err" "tb d' = tb d" "clock d' = clock d"
      "user_seq d' = user_seq d" "invite_seq d' = invite_seq d" "msg_seq d \<le> msg_seq d'"
  | (inserted) row where "res = Inr (scanMsg row, True)" "row = new_message_row s p b iv e c d"
      "tb d' = (tb d)\<lparr>messages := messages (tb d) @ [row]\<rparr>" "msg_seq d' = msg_seq d + 1"
      "clock d' = clock d" "user_seq d' = user_seq d" "invite_seq d' = invite_seq d"
      "\<forall>r \<in> set (messages (tb d)). \<not> same_client_id s c r"
      "s \<in> ur_id ` set (users (tb d))" "p \<in> ur_id ` set (users (tb d))" "int4_ok s" "int4_ok p"
  | (existing) row where "res = Inr (scanMsg row, False)" "row \<in> set (messages (tb d))"
      "same_client_id s c row" "tb d' = tb d" "clock d' = clock d"
      "user_seq d' = user_seq d" "invite_seq d' = invite_seq d" "msg_seq d' = msg_seq d + 1"
      "int4_ok s" "int4_ok p"
proof -
  obtain r1 d1 where st: "stmt (insert_message s p b iv e c) d = (r1, d1)" by fastforce
  note def = assms [unfolded CreateOrGetExisting_def st]
  from st show thesis
  proof (cases rule: stmt_cases)
    case (fault err)
    with def show thesis by (intro error) (auto simp: agreeD)
  next
    case (ok d0)
    note ag = agreeD [OF ok(1)]
    from ok(2) show thesis
    proof (cases rule: insert_message_cases)
      case range
      with def ag show thesis by (intro error) auto
    next
      case fk
      with def ag show thesis by (intro error) auto
    next
      case inserted
      with def ag show thesis
        by (intro that(2) [of "new_message_row s p b iv e c d"]) (auto simp: new_message_row_def)
    next
      case conflict
      with def have fe: "and_then (stmt (fetch_message s c) d1) (\<lambda>m d2. (Inr (m, False), d2)) = (res, d')"
        by simp
      obtain r2 d2 where st2: "stmt (fetch_message s c) d1 = (r2, d2)" by fastforce
      from st2 show thesis
      proof (cases rule: stmt_cases)
        case (fault err)
        with fe st2 conflict ag show thesis by (intro error) (auto simp: agreeD)
      next
        case (ok d3)
        note ag3 = agreeD [OF ok(1)]
        show thesis
        proof (cases "select_one (same_client_id s c) (messages (tb d3))")
          case None
          with conflict(3) ag3 ag conflict(2) show thesis by (auto simp: select_one_None)
        next
          case (Some row)
          then have "row \<in> set (messages (tb d3))" "same_client_id s c row"
            by (simp_all add: select_one_Some)
          with Some ok(2) fe st2 conflict ag ag3 show thesis
            by (intro existing [of row]) (auto simp: fetch_message_def rawCols_def)
        qed
      qed
    qed
  qed
qed

lemma messages_ok_snoc:
  assumes ok: "messages_ok t"
    and fresh: "mr_id row \<notin> mr_id ` set (messages t)"
    and uniq: "\<forall>r \<in> set (messages t). mr_sender_id r = mr_sender_id row \<longrightarrow>
      mr_client_message_id r \<noteq> mr_client_message_id row"
    and refs: "mr_sender_id row \<in> ur_id ` set (users t)" "mr_recipient_id row \<in> ur_id ` set (users t)"
  shows "messages_ok (t\<lparr>messages := messages t @ [row]\<rparr>)"
proof -
  have "mr_id r = mr_id r'"
    if "r \<in> set (messages t @ [row])" "r' \<in> set (messages t @ [row])"
      "mr_sender_id r = mr_sender_id r'" "mr_client_message_id r = mr_client_message_id r'"
      "mr_client_message_id r \<noteq> None" for r r'
  proof -
    from that(1,2) consider "r = row" "r' = row" | "r = row" "r' \<in> set (messages t)"
      | "r' = row" "r \<in> set (messages t)" | "r \<in> set (messages t)" "r' \<in> set (messages t)"
      by auto
    then show ?thesis
    proof cases
      case 2
      with uniq that(3,4) show ?thesis by metis
    next
      case 3
      with uniq that(3,4) show ?thesis by metis
    next
      case 4
      with ok that(3-5) show ?thesis unfolding messages_ok_def by blast
    qed simp
  qed
  then have "\<forall>r \<in> set (messages t @ [row]). \<forall>r' \<in> set (messages t @ [row]).
      mr_sender_id r = mr_sender_id r' \<longrightarrow> mr_client_message_id r = mr_client_message_id r' \<longrightarrow>
      mr_client_message_id r \<noteq> None \<longrightarrow> mr_id r = mr_id r'" by blast
  moreover have "distinct (map mr_id (messages t @ [row]))"
    using ok fresh by (simp add: messages_ok_def)
  moreover have "\<forall>r \<in> set (messages t @ [row]). mr_sender_id r \<in> ur_id ` set (users t) \<and>
      mr_recipient_id r \<in> ur_id ` set (users t)"
    using ok refs by (simp add: messages_ok_def)
  moreover have eqs: "messages (t\<lparr>messages := messages t @ [row]\<rparr>) = messages t @ [row]"
    "users (t\<lparr>messages := messages t @ [row]\<rparr>) = users t" by simp_all
  ultimately show ?thesis unfolding messages_ok_def eqs by blast
qed

lemma CreateOrGetExisting_db_ok:
  assumes "db_ok d" "CreateOrGetExisting s p b iv e c d = (res, d')"
  shows "db_ok d'"
  using assms(2)
proof (cases rule: CreateOrGetExisting_cases)
  case (error err)
  with assms(1) show ?thesis by (force simp: db_ok_def seqs_ok_def)
next
  case (existing row)
  with assms(1) show ?thesis by (force simp: db_ok_def seqs_ok_def)
next
  case (inserted row)
  have ok: "messages_ok (tb d)" and seqs: "seqs_ok d" using assms(1) by (simp_all add: db_ok_def tables_ok_def)
  have fresh: "mr_id row \<notin> mr_id ` set (messages (tb d))"
    using seqs inserted(2) by (auto simp: seqs_ok_def new_message_row_def)
  have uniq: "\<forall>r \<in> set (messages (tb d)). mr_sender_id r = mr_sender_id row \<longrightarrow>
      mr_client_message_id r \<noteq> mr_client_message_id row"
    using inserted(2,8) by (auto simp: new_message_row_def same_client_id_def)
  have refs: "mr_sender_id row \<in> ur_id ` set (users (tb d))" "mr_recipient_id row \<in> ur_id ` set (users (tb d))"
    using inserted(2,9,10) by (simp_all add: new_message_row_def)
  have "messages_ok (tb d')"
    unfolding inserted(3) using ok fresh uniq refs by (intro messages_ok_snoc)
  moreover have "users_ok (tb d')" "invites_ok (tb d')" "contacts_ok (tb d')"
    using assms(1) by (simp_all add: inserted(3) ok_defs)
  moreover have "seqs_ok d'"
    using seqs inserted(2,4,6,7) by (auto simp: seqs_ok_def inserted(3) new_message_row_def)
  ultimately show ?thesis by (simp add: db_ok_def tables_ok_def)
qed

lemma update_messages_ok:
  assumes "messages_ok t"
    and "\<And>r. mr_id (f r) = mr_id r" "\<And>r. mr_sender_id (f r) = mr_sender_id r"
    and "\<And>r. mr_recipient_id (f r) = mr_recipient_id r"
    and "\<And>r. mr_client_message_id (f r) = mr_client_message_id r"
  shows "messages_ok (t\<lparr>messages := update_where P f (messages t)\<rparr>)"
proof -
  have "\<exists>r' \<in> set (messages t). mr_id r = mr_id r' \<and> mr_sender_id r = mr_sender_id r' \<and>
      mr_recipient_id r = mr_recipient_id r' \<and> mr_client_message_id r = mr_client_message_id r'"
    if "r \<in> set (update_where P f (messages t))" for r
    using that assms(2-5) by (auto simp: set_update_where)
  with assms(1) show ?thesis
    by (simp add: messages_ok_def map_update_where assms(2)) metis
qed

lemma update_messages_db_ok:
  assumes "db_ok d"
    and "\<And>r. mr_id (f r) = mr_id r" "\<And>r. mr_sender_id (f r) = mr_sender_id r"
    and "\<And>r. mr_recipient_id (f r) = mr_recipient_id r"
    and "\<And>r. mr_client_message_id (f r) = mr_client_message_id r"
  shows "db_ok (d\<lparr>tb := (tb d)\<lparr>messages := update_where P f (messages (tb d))\<rparr>\<rparr>)"
  using assms update_messages_ok [of "tb d" f P]
  by (auto simp: db_ok_def tables_ok_def users_ok_def invites_ok_def contacts_ok_def seqs_ok_def
      set_update_where)

section \<open>Reading and deleting\<close>

lemma MarkRead_cases:
  assumes "MarkRead rcpt sndr d = (res, d')"
  obtains (error) err where "res = Inl err" "agree d d'"
  | (ok) "res = Inr (map mr_id (filter (unread_from rcpt sndr) (messages (tb d))))"
      "agree (d\<lparr>tb := (tb d)\<lparr>messages := update_where (unread_from rcpt sndr)
                (\<lambda>r. r\<lparr>mr_read_at := Some (clock d)\<rparr>) (messages (tb d))\<rparr>\<rparr>) d'"
  using assms unfolding MarkRead_def
  by (elim stmt_cases) (auto simp: Let_def agree_def)

lemma MarkRead_db_ok:
  assumes "db_ok d" "MarkRead rcpt sndr d = (res, d')"
  shows "db_ok d'"
  using assms(2)
proof (cases rule: MarkRead_cases)
  case (error err)
  with assms(1) show ?thesis by (simp add: db_ok_agree)
next
  case ok
  with assms(1) show ?thesis by (simp add: db_ok_agree update_messages_db_ok)
qed

lemma SoftDelete_cases:
  assumes "SoftDelete i s d = (res, d')"
  obtains (error) err where "res = Inl err" "agree d d'"
  | (ok) r where "r \<in> set (messages (tb d))" "deletable i s r"
      "res = Inr (scanMsg (r\<lparr>mr_deleted_at := Some (clock d)\<rparr>))"
      "agree (d\<lparr>tb := (tb d)\<lparr>messages := update_where (deletable i s)
                (\<lambda>r. r\<lparr>mr_deleted_at := Some (clock d)\<rparr>) (messages (tb d))\<rparr>\<rparr>) d'"
proof -
  from assms show thesis unfolding SoftDelete_def Let_def
  proof (cases rule: stmt_cases)
    case (fault e)
    then show thesis by (rule error)
  next
    case (ok d1)
    note ag = agreeD [OF ok(1)]
    show thesis
    proof (cases "select_one (deletable i s) (messages (tb d1))")
      case None
      with ok show thesis by (intro error [of ErrMessageNotFound]) auto
    next
      case (Some r)
      then have "r \<in> set (messages (tb d))" "deletable i s r"
        using ag by (auto dest: select_one_Some)
      with Some ok(2) ag show thesis
        by (intro that(2) [of r]) (auto simp: rawCols_def agree_def)
    qed
  qed
qed

lemma SoftDelete_db_ok:
  assumes "db_ok d" "SoftDelete i s d = (res, d')"
  shows "db_ok d'"
  using assms(2)
proof (cases rule: SoftDelete_cases)
  case (error err)
  with assms(1) show ?thesis by (simp add: db_ok_agree)
next
  case (ok r)
  with assms(1) show ?thesis by (simp add: db_ok_agree update_messages_db_ok)
qed

lemma queryMessages_cases:
  assumes "queryMessages q u p c fetch retain d = (res, d')"
  obtains (error) err where "res = Inl err" "agree d d'"
  | (ok) "agree d d'"
      "res = Inr (if int (length (q u p c fetch (tb d))) > retain
                  then (take (nat retain) (map scanMsg (q u p c fetch (tb d))), True)
                  else (map scanMsg (q u p c fetch (tb d)), False))"
proof -
  obtain r1 d1 where q: "query (q u p c fetch) d = (r1, d1)" by fastforce
  note def = assms [unfolded queryMessages_def q]
  from q show thesis
  proof (cases rule: query_cases)
    case (fault e)
    with def show thesis by (intro error) auto
  next
    case ok
    with def show thesis by (intro that(2)) (auto simp: Let_def split: if_splits)
  qed
qed

text \<open>
  The four operations that only read leave everything but the fault schedule alone.
\<close>

lemma message_reads_agree:
  "agree d (snd (GetByID i d))"
  "agree d (snd (GetUnreadForUser u c d))"
  "agree d (snd (ListConversationSince u p c l d))"
  "agree d (snd (ListConversationBefore u p c l d))"
proof -
  show "agree d (snd (GetByID i d))"
    by (cases "GetByID i d") (auto simp: GetByID_def elim!: stmt_cases split: option.splits)
  show "agree d (snd (GetUnreadForUser u c d))"
    by (cases "GetUnreadForUser u c d") (auto simp: GetUnreadForUser_def dest: query_agree)
  show "agree d (snd (ListConversationSince u p c l d))"
    by (cases "ListConversationSince u p c l d")
      (auto simp: ListConversationSince_def elim: queryMessages_cases)
  show "agree d (snd (ListConversationBefore u p c l d))"
    by (cases "queryMessages before_query u p c (l + 1) l d")
      (auto simp: ListConversationBefore_def and_then_def elim: queryMessages_cases split: sum.splits)
qed

text \<open>
  Every operation of the message store keeps the schema's constraints (keys, the
  idempotency index, references to users, ids below the sequences), whatever statement fails.
\<close>

theorem message_store_keeps_db_ok:
  assumes "db_ok d"
  shows "db_ok (snd (CreateOrGetExisting s p b iv e c d)) \<and>
    db_ok (snd (MarkRead u p d)) \<and>
    db_ok (snd (SoftDelete i s d)) \<and>
    db_ok (snd (GetByID i d)) \<and>
    db_ok (snd (GetUnreadForUser u n d)) \<and>
    db_ok (snd (ListConversationSince u p n l d)) \<and>
    db_ok (snd (ListConversationBefore u p n l d))"
proof (intro conjI)
  show "db_ok (snd (CreateOrGetExisting s p b iv e c d))"
    using assms by (metis CreateOrGetExisting_db_ok prod.collapse)
  show "db_ok (snd (MarkRead u p d))" using assms by (metis MarkRead_db_ok prod.collapse)
  show "db_ok (snd (SoftDelete i s d))" using assms by (metis SoftDelete_db_ok prod.collapse)
qed (use assms message_reads_agree db_ok_agree in blast)+

theorem message_store_keeps_db_ok_witness:
  "db_ok (snd (MarkRead 2 1 demo_db)) \<and> db_ok (snd (SoftDelete 1 1 demo_db))"
  using message_store_keeps_db_ok [OF db_ok_demo] by blast

section \<open>The abstract thread of a conversation\<close>

text \<open>
  What the message store promises, stated without queries: between two users there is one
  thread, all their messages in the order of their ids, the deleted ones blanked.
\<close>

definition thread :: "int64 \<Rightarrow> int64 \<Rightarrow> tables \<Rightarrow> message list" where
  "thread u p t = map display (sort_key mr_id (filter (between u p) (messages t)))"

lemma ID_display [simp]: "ID (display r) = mr_id r"
  by (simp add: scanMsg_def selectCols_def)

lemma DeletedAt_display [simp]: "DeletedAt (display r) = mr_deleted_at r"
  by (simp add: scanMsg_def selectCols_def)

lemma display_blank: "mr_deleted_at r \<noteq> None \<Longrightarrow> Body (display r) = [] \<and> IV (display r) = []"
  by (simp add: scanMsg_def selectCols_def)

lemma map_ID_thread: "map ID (thread u p t) = map mr_id (sort_key mr_id (filter (between u p) (messages t)))"
  by (simp add: thread_def comp_def)

lemma thread_strict_sorted:
  assumes "messages_ok t"
  shows "sorted_wrt (<) (map ID (thread u p t))"
proof -
  have "distinct (map mr_id (filter (between u p) (messages t)))"
    using assms by (simp add: messages_ok_def distinct_map_filter)
  then have "distinct (map mr_id (sort_key mr_id (filter (between u p) (messages t))))"
    by (simp add: distinct_sort_key_map)
  then show ?thesis by (simp only: map_ID_thread strict_sorted_iff sorted_sort_key simp_thms)
qed

lemma thread_sym: "thread u p t = thread p u t"
proof -
  have "between u p = between p u" by (auto simp: between_def)
  then show ?thesis by (simp add: thread_def)
qed

lemma cut_thread:
  "map display (sort_key mr_id (filter (\<lambda>r. between u p r \<and> P (mr_id r)) (messages t)))
   = filter (\<lambda>m. P (ID m)) (thread u p t)"
proof -
  have "filter (\<lambda>r. between u p r \<and> P (mr_id r)) (messages t)
      = filter (\<lambda>r. P (mr_id r)) (filter (between u p) (messages t))" by (simp add: conj_commute)
  then show ?thesis by (simp add: sort_key_filter thread_def filter_map comp_def)
qed

lemma since_query_thread:
  "map scanMsg (since_query u p c n t) = take (nat n) (filter (\<lambda>m. c < ID m) (thread u p t))"
  unfolding since_query_def using cut_thread [of u p "\<lambda>i. c < i" t]
  by (simp add: take_map [symmetric] comp_def)

lemma before_query_thread:
  "map scanMsg (before_query u p c n t) = take (nat n) (rev (filter (\<lambda>m. ID m < c) (thread u p t)))"
  unfolding before_query_def using cut_thread [of u p "\<lambda>i. i < c" t]
  by (simp add: take_map [symmetric] rev_map [symmetric] comp_def)

text \<open>The in-place reversal loop computes \<open>rev\<close>.\<close>

lemma swap_loop_nth:
  assumes "0 \<le> i" "i \<le> j + 1" "j < int (length xs)"
  shows "length (swap_loop i j xs) = length xs \<and>
    (\<forall>k < length xs. swap_loop i j xs ! k =
       (if i \<le> int k \<and> int k \<le> j then xs ! nat (i + j - int k) else xs ! k))"
  using assms
proof (induction i j xs rule: swap_loop.induct)
  case (1 i j xs)
  show ?case
  proof (cases "i < j")
    case False
    with "1.prems" have "\<And>k. i \<le> int k \<and> int k \<le> j \<Longrightarrow> nat (i + j - int k) = k" by linarith
    with False show ?thesis by (auto simp: swap_loop.simps [of i j xs])
  next
    case True
    let ?ys = "xs[nat i := xs ! nat j, nat j := xs ! nat i]"
    from True "1.prems" have IH: "length (swap_loop (i + 1) (j - 1) ?ys) = length xs"
      "\<And>k. k < length xs \<Longrightarrow> swap_loop (i + 1) (j - 1) ?ys ! k =
         (if i + 1 \<le> int k \<and> int k \<le> j - 1 then ?ys ! nat (i + j - int k) else ?ys ! k)"
      using "1.IH" by auto
    have "swap_loop i j xs ! k = (if i \<le> int k \<and> int k \<le> j then xs ! nat (i + j - int k) else xs ! k)"
      if k: "k < length xs" for k
    proof -
      have step: "swap_loop i j xs ! k = (if i + 1 \<le> int k \<and> int k \<le> j - 1
          then ?ys ! nat (i + j - int k) else ?ys ! k)"
        using True IH(2) [OF k] by (simp add: swap_loop.simps [of i j xs])
      consider "int k = i" | "int k = j" | "i + 1 \<le> int k" "int k \<le> j - 1" | "int k < i \<or> j < int k"
        by linarith
      then show ?thesis
      proof cases
        case 1
        then have "nat i = k" by linarith
        with 1 step True "1.prems" k show ?thesis by (auto simp: nth_list_update)
      next
        case 2
        then have "nat j = k" by linarith
        with 2 step True "1.prems" k show ?thesis by (auto simp: nth_list_update)
      next
        case 3
        then have "nat i \<noteq> nat (i + j - int k)" "nat j \<noteq> nat (i + j - int k)"
          using "1.prems" by linarith+
        with 3 step show ?thesis by (simp add: nth_list_update)
      next
        case 4
        then have neq: "nat i \<noteq> k" "nat j \<noteq> k"
          and out: "\<not> (i + 1 \<le> int k \<and> int k \<le> j - 1)" "\<not> (i \<le> int k \<and> int k \<le> j)"
          using "1.prems" True by linarith+
        from neq show ?thesis by (simp only: step if_not_P [OF out(1)] if_not_P [OF out(2)]) simp
      qed
    qed
    with True IH(1) show ?thesis by (simp add: swap_loop.simps [of i j xs])
  qed
qed

lemma swap_loop_rev: "swap_loop 0 (int (length xs) - 1) xs = rev xs"
proof (rule nth_equalityI)
  note n = swap_loop_nth [of 0 "int (length xs) - 1" xs]
  show "length (swap_loop 0 (int (length xs) - 1) xs) = length (rev xs)" using n by simp
  fix k
  assume "k < length (swap_loop 0 (int (length xs) - 1) xs)"
  then have k: "k < length xs" using n by simp
  then have "nat (int (length xs) - 1 - int k) = length xs - Suc k" by linarith
  with n k show "swap_loop 0 (int (length xs) - 1) xs ! k = rev xs ! k"
    by (simp add: rev_nth)
qed

section \<open>The listings refine the thread\<close>

lemma ListConversationSince_Inr:
  assumes "ListConversationSince u p c l d = (Inr x, d')" "0 < l"
  shows "x = (let r = filter (\<lambda>m. c < ID m) (thread u p (tb d)) in (take (nat l) r, nat l < length r))"
  using assms(1) unfolding ListConversationSince_def
proof (cases rule: queryMessages_cases)
  case ok
  let ?r = "filter (\<lambda>m. c < ID m) (thread u p (tb d))"
  have rows: "map scanMsg (since_query u p c (l + 1) (tb d)) = take (nat (l + 1)) ?r"
    by (rule since_query_thread)
  then have "length (since_query u p c (l + 1) (tb d)) = min (length ?r) (nat (l + 1))"
    by (metis length_map length_take)
  then have more: "int (length (since_query u p c (l + 1) (tb d))) > l \<longleftrightarrow> nat l < length ?r"
    using assms(2) by linarith
  have n: "nat (l + 1) = Suc (nat l)" using assms(2) by simp
  from ok(2) show ?thesis unfolding more rows by (auto simp: n Let_def min_def)
qed simp

lemma ListConversationBefore_Inr:
  assumes "ListConversationBefore u p c l d = (Inr x, d')" "0 < l"
  shows "x = (let r = filter (\<lambda>m. ID m < c) (thread u p (tb d))
              in (drop (length r - nat l) r, nat l < length r))"
proof -
  obtain q d1 where q: "queryMessages before_query u p c (l + 1) l d = (q, d1)" by fastforce
  with assms(1) obtain msgs more where qr: "q = Inr (msgs, more)" and x: "x = (rev msgs, more)"
    by (auto simp: ListConversationBefore_def and_then_def swap_loop_rev split: sum.splits)
  let ?r = "filter (\<lambda>m. ID m < c) (thread u p (tb d))"
  from q show ?thesis
  proof (cases rule: queryMessages_cases)
    case ok
    have rows: "map scanMsg (before_query u p c (l + 1) (tb d)) = take (nat (l + 1)) (rev ?r)"
      by (rule before_query_thread)
    then have "length (before_query u p c (l + 1) (tb d)) = min (length ?r) (nat (l + 1))"
      by (metis length_map length_rev length_take)
    then have more: "int (length (before_query u p c (l + 1) (tb d))) > l \<longleftrightarrow> nat l < length ?r"
      using assms(2) by linarith
    have n: "nat (l + 1) = Suc (nat l)" using assms(2) by simp
    from ok(2) qr have "(msgs, more) = (take (nat l) (rev ?r), nat l < length ?r)"
      unfolding more rows by (auto simp: n min_def split: if_splits)
    then show ?thesis by (simp add: x Let_def rev_take)
  qed (use qr in simp)
qed

text \<open>
  C35: the two listings refine the thread. A successful \<open>ListConversationSince\<close> is the first
  \<open>limit\<close> messages of the thread after the cursor, a successful \<open>ListConversationBefore\<close> the
  last \<open>limit\<close> before it, both oldest first; \<open>hasMore\<close> is true exactly when the page does not
  reach the end, and neither changes a table.
\<close>

theorem listings_refine_thread:
  assumes "0 < l"
  shows "(fst (ListConversationSince u p c l d) = Inr x \<longrightarrow>
            x = (let r = filter (\<lambda>m. c < ID m) (thread u p (tb d))
                 in (take (nat l) r, nat l < length r))) \<and>
         (fst (ListConversationBefore u p c l d) = Inr x \<longrightarrow>
            x = (let r = filter (\<lambda>m. ID m < c) (thread u p (tb d))
                 in (drop (length r - nat l) r, nat l < length r))) \<and>
         tb (snd (ListConversationSince u p c l d)) = tb d \<and>
         tb (snd (ListConversationBefore u p c l d)) = tb d"
proof (intro conjI impI)
  assume "fst (ListConversationSince u p c l d) = Inr x"
  then show "x = (let r = filter (\<lambda>m. c < ID m) (thread u p (tb d)) in (take (nat l) r, nat l < length r))"
    using ListConversationSince_Inr assms by (metis prod.collapse)
next
  assume "fst (ListConversationBefore u p c l d) = Inr x"
  then show "x = (let r = filter (\<lambda>m. ID m < c) (thread u p (tb d))
      in (drop (length r - nat l) r, nat l < length r))"
    using ListConversationBefore_Inr assms by (metis prod.collapse)
qed (simp_all add: agreeD message_reads_agree)

text \<open>The two listings, on a working connection, as pages for the client's loop.\<close>

definition page_since :: "int64 \<Rightarrow> int64 \<Rightarrow> db \<Rightarrow> nat \<Rightarrow> int64 \<Rightarrow> message list \<times> bool" where
  "page_since u p d l c =
     (case fst (ListConversationSince u p c (int l) d) of Inr x \<Rightarrow> x | Inl _ \<Rightarrow> ([], False))"

definition page_before :: "int64 \<Rightarrow> int64 \<Rightarrow> db \<Rightarrow> nat \<Rightarrow> int64 \<Rightarrow> message list \<times> bool" where
  "page_before u p d l c =
     (case fst (ListConversationBefore u p c (int l) d) of Inr x \<Rightarrow> x | Inl _ \<Rightarrow> ([], False))"

lemma listings_no_faults:
  assumes "faults d = []"
  shows "\<exists>x. fst (ListConversationSince u p c l d) = Inr x"
    and "\<exists>x. fst (ListConversationBefore u p c l d) = Inr x"
  using assms
  by (auto simp: ListConversationSince_def ListConversationBefore_def queryMessages_def Let_def
      split: prod.splits)

interpretation conv: pager ID "\<lambda>d. db_ok d \<and> faults d = []" "\<lambda>d. thread u p (tb d)"
  "page_since u p" "page_before u p" for u p
proof (unfold_locales, goal_cases)
  case (1 d)
  then show ?case by (simp add: thread_strict_sorted db_ok_def tables_ok_def)
next
  case (2 d l c)
  then obtain x where "fst (ListConversationSince u p c (int l) d) = Inr x"
    using listings_no_faults(1) by blast
  with 2 show ?case
    using ListConversationSince_Inr [of u p c "int l" d x] by (simp add: page_since_def prod_eq_iff)
next
  case (3 d l c)
  then obtain x where "fst (ListConversationBefore u p c (int l) d) = Inr x"
    using listings_no_faults(2) by blast
  with 3 show ?case
    using ListConversationBefore_Inr [of u p c "int l" d x] by (simp add: page_before_def prod_eq_iff)
qed

text \<open>
  C1: Pagination is complete. A client that follows \<open>sinceId\<close> cursors upwards (from the last
  message of each page) or \<open>beforeId\<close> cursors downwards (from the first) until \<open>hasMore\<close> is
  false collects every message of the thread past its starting cursor exactly once and in
  order, whatever the page size; one request per message and one more are always enough.
\<close>

theorem pagination_complete:
  assumes "db_ok d" "faults d = []" "0 < limit" "length (thread u p (tb d)) < n"
  shows "walk_up n ID (page_since u p d limit) c = Some (filter (\<lambda>m. c < ID m) (thread u p (tb d))) \<and>
         walk_down n ID (page_before u p d limit) c = Some (filter (\<lambda>m. ID m < c) (thread u p (tb d)))"
proof -
  have len: "length (filter P (thread u p (tb d))) < n" for P
    using assms(4) length_filter_le [of P "thread u p (tb d)"] by linarith
  show ?thesis
    using conv.walk_up_complete [where s = d and u = u and p = p and c = c and n = n and limit = limit]
      conv.walk_down_complete [where s = d and u = u and p = p and c = c and n = n and limit = limit]
      assms(1-3) len by simp
qed

lemma demo_thread: "length (thread 1 2 (tb demo_db)) = 3"
  by (simp add: thread_def between_def demo_defs)

theorem listings_refine_thread_witness:
  "(\<exists>x. fst (ListConversationSince 1 2 0 2 demo_db) = Inr x \<and> map ID (fst x) = [1, 2] \<and> snd x) \<and>
   (\<exists>y. fst (ListConversationBefore 1 2 3 2 demo_db) = Inr y \<and> map ID (fst y) = [1, 2] \<and> \<not> snd y)"
proof -
  obtain x y where xy: "fst (ListConversationSince 1 2 0 2 demo_db) = Inr x"
    "fst (ListConversationBefore 1 2 3 2 demo_db) = Inr y"
    using listings_no_faults [OF demo_faults] by metis
  have "x = (let r = filter (\<lambda>m. 0 < ID m) (thread 1 2 (tb demo_db)) in (take 2 r, 2 < length r))"
    using listings_refine_thread [of 2 1 2 0 demo_db x] xy(1) by simp
  moreover have "y = (let r = filter (\<lambda>m. ID m < 3) (thread 1 2 (tb demo_db))
      in (drop (length r - 2) r, 2 < length r))"
    using listings_refine_thread [of 2 1 2 3 demo_db y] xy(2) by simp
  ultimately show ?thesis
    using xy by (simp add: thread_def between_def scanMsg_def selectCols_def demo_defs)
qed

theorem pagination_complete_witness:
  "walk_up 4 ID (page_since 1 2 demo_db 1) 1 = Some (filter (\<lambda>m. 1 < ID m) (thread 1 2 (tb demo_db))) \<and>
   length (filter (\<lambda>m. 1 < ID m) (thread 1 2 (tb demo_db))) = 2"
  using pagination_complete [of demo_db 1 1 2 4 1]
  by (simp add: demo_thread) (simp add: thread_def between_def scanMsg_def selectCols_def demo_defs)

section \<open>Sending is idempotent\<close>

lemma messages_ok_client:
  assumes "messages_ok t" "x \<in> set (messages t)" "same_client_id s c x"
    "r \<in> set (messages t)" "same_client_id s c r"
  shows "x = r"
proof -
  have "mr_sender_id x = mr_sender_id r" "mr_client_message_id x = mr_client_message_id r"
    "mr_client_message_id x \<noteq> None"
    using assms(3,5) by (simp_all add: same_client_id_def)
  with assms(1,2,4) have "mr_id x = mr_id r" "distinct (map mr_id (messages t))"
    unfolding messages_ok_def by blast+
  with assms(2,4) show ?thesis by (metis distinct_map_eq)
qed

lemma CreateOrGetExisting_fresh:
  assumes "faults d = []" "int4_ok s" "int4_ok p" "s \<in> ur_id ` set (users (tb d))"
    "p \<in> ur_id ` set (users (tb d))" "\<not> list_ex (same_client_id s c) (messages (tb d))"
  shows "CreateOrGetExisting s p b iv e c d =
    (Inr (scanMsg (new_message_row s p b iv e c d), True),
     d\<lparr>msg_seq := msg_seq d + 1,
       tb := (tb d)\<lparr>messages := messages (tb d) @ [new_message_row s p b iv e c d]\<rparr>\<rparr>)"
  using assms by (simp add: CreateOrGetExisting_def insert_message_def rawCols_def Let_def)

lemma CreateOrGetExisting_existing:
  assumes "r \<in> set (messages (tb d))" "same_client_id s c r" "db_ok d" "faults d = []"
    "int4_ok s" "int4_ok p"
  shows "\<exists>d'. CreateOrGetExisting s p b iv e c d = (Inr (scanMsg r, False), d') \<and> tb d' = tb d"
proof -
  have uniq: "select_one (same_client_id s c) (messages (tb d)) = Some r"
  proof (rule select_one_unique)
    fix x
    assume "x \<in> set (messages (tb d))" "same_client_id s c x"
    with assms(1-3) show "x = r" by (meson messages_ok_client db_ok_def tables_ok_def)
  qed (use assms in auto)
  have "list_ex (same_client_id s c) (messages (tb d))"
    using assms(1,2) by (auto simp: list_ex_iff)
  with uniq assms(4-6) show ?thesis
    by (simp add: CreateOrGetExisting_def insert_message_def fetch_message_def rawCols_def)
qed

text \<open>
  C33: sending is idempotent. Once a send with a client message id has answered with a message,
  a retry by the same sender with the same id, whatever else it carries, answers with the same
  message as \<open>not inserted\<close> and leaves every table as it was.
\<close>

theorem send_idempotent:
  assumes "db_ok d" "CreateOrGetExisting s p b iv e c d = (Inr (m, ins), d1)"
    and "faults d1 = []" "int4_ok p'"
  shows "fst (CreateOrGetExisting s p' b' iv' e' c d1) = Inr (m, False) \<and>
         tb (snd (CreateOrGetExisting s p' b' iv' e' c d1)) = tb d1"
proof -
  from assms(1,2) have ok: "db_ok d1" by (rule CreateOrGetExisting_db_ok)
  have "\<exists>r \<in> set (messages (tb d1)). same_client_id s c r \<and> m = scanMsg r \<and> int4_ok s"
    using assms(2)
    by (cases rule: CreateOrGetExisting_cases) (auto simp: same_client_id_def new_message_row_def)
  then obtain r where r: "r \<in> set (messages (tb d1))" "same_client_id s c r" "m = scanMsg r" "int4_ok s"
    by blast
  from CreateOrGetExisting_existing [OF r(1,2) ok assms(3) r(4) assms(4)] r(3) show ?thesis
    by (metis fst_conv snd_conv)
qed

lemma demo_send:
  "CreateOrGetExisting 1 2 ''x'' ''n'' True ''a9'' demo_db =
     (Inr (scanMsg (new_message_row 1 2 ''x'' ''n'' True ''a9'' demo_db), True),
      demo_db\<lparr>msg_seq := msg_seq demo_db + 1, tb := (tb demo_db)\<lparr>messages :=
        messages (tb demo_db) @ [new_message_row 1 2 ''x'' ''n'' True ''a9'' demo_db]\<rparr>\<rparr>)"
  by (rule CreateOrGetExisting_fresh) (simp_all add: int4_ok_def same_client_id_def demo_defs)

theorem send_idempotent_witness:
  "fst (CreateOrGetExisting 1 3 ''other body'' ''n2'' False ''a9''
          (snd (CreateOrGetExisting 1 2 ''x'' ''n'' True ''a9'' demo_db)))
   = Inr (scanMsg (new_message_row 1 2 ''x'' ''n'' True ''a9'' demo_db), False)"
  using send_idempotent [OF db_ok_demo demo_send, of 3 "''other body''" "''n2''" False]
  by (simp add: demo_send int4_ok_def)

text \<open>
  A send that inserts appends exactly one message to exactly one thread. The new message
  carries what was sent, an id above every other id and the time of the database; it ends the
  thread of sender and recipient, every other thread and every other table is unchanged.
\<close>

theorem send_appends_to_thread:
  assumes "db_ok d" "CreateOrGetExisting s p b iv e c d = (Inr (m, True), d')"
  shows "SenderID m = s \<and> RecipientID m = p \<and> Body m = b \<and> IV m = iv \<and> Encrypted m = e \<and>
    ClientMessageID m = c \<and> CreatedAt m = clock d \<and> ReadAt m = None \<and> DeletedAt m = None \<and>
    (\<forall>r \<in> set (messages (tb d)). mr_id r < ID m) \<and>
    thread u w (tb d') =
      (if (u = s \<and> w = p) \<or> (u = p \<and> w = s) then thread u w (tb d) @ [m] else thread u w (tb d)) \<and>
    users (tb d') = users (tb d) \<and> contacts (tb d') = contacts (tb d) \<and>
    invite_codes (tb d') = invite_codes (tb d)"
  using assms(2)
proof (cases rule: CreateOrGetExisting_cases)
  case (inserted row)
  then have m: "m = scanMsg row" by simp
  have top: "\<forall>r \<in> set (messages (tb d)). mr_id r < mr_id row"
    using assms(1) inserted(2) by (simp add: db_ok_def seqs_ok_def new_message_row_def)
  have btw: "between u w row \<longleftrightarrow> (u = s \<and> w = p) \<or> (u = p \<and> w = s)"
    using inserted(2) by (auto simp: between_def new_message_row_def)
  have disp: "display row = m"
    using inserted(2) by (simp add: m scanMsg_def selectCols_def new_message_row_def)
  have "sort_key mr_id (filter (between u w) (messages (tb d)) @ [row])
      = sort_key mr_id (filter (between u w) (messages (tb d))) @ [row]"
    using top by (intro sort_key_snoc) auto
  then have th: "thread u w (tb d') = (if between u w row then thread u w (tb d) @ [m] else thread u w (tb d))"
    by (simp add: thread_def inserted(3) disp)
  have fields: "SenderID m = s \<and> RecipientID m = p \<and> Body m = b \<and> IV m = iv \<and> Encrypted m = e \<and>
      ClientMessageID m = c \<and> CreatedAt m = clock d \<and> ReadAt m = None \<and> DeletedAt m = None"
    and idm: "ID m = mr_id row"
    using inserted(2) by (simp_all add: m scanMsg_def new_message_row_def)
  have rest: "users (tb d') = users (tb d) \<and> contacts (tb d') = contacts (tb d) \<and>
      invite_codes (tb d') = invite_codes (tb d)" by (simp add: inserted(3))
  show ?thesis using fields th [unfolded btw] top rest unfolding idm by blast
qed simp_all

theorem send_appends_to_thread_witness:
  "thread 2 1 (tb (snd (CreateOrGetExisting 1 2 ''x'' ''n'' True ''a9'' demo_db))) =
   thread 2 1 (tb demo_db) @ [scanMsg (new_message_row 1 2 ''x'' ''n'' True ''a9'' demo_db)]"
  using send_appends_to_thread [OF db_ok_demo demo_send, of 2 1] by (simp only: demo_send snd_conv) simp

section \<open>Marking read\<close>

lemma unread_stamped:
  "\<not> unread_from u p (if unread_from u p r then r\<lparr>mr_read_at := Some n\<rparr> else r)"
  by (simp add: unread_from_def)

text \<open>
  C34: \<open>MarkRead\<close> stamps exactly the unread, undeleted messages the given sender sent to the given
  recipient: it returns the id of each of them once, no other message changes, none is left
  unread afterwards, and a second call has nothing to return.
\<close>

theorem MarkRead_exact:
  assumes "db_ok d" "MarkRead u p d = (Inr ids, d')"
  shows "distinct ids \<and>
    set ids = mr_id ` {r \<in> set (messages (tb d)). unread_from u p r} \<and>
    messages (tb d') = map (\<lambda>r. if unread_from u p r then r\<lparr>mr_read_at := Some (clock d)\<rparr> else r)
                         (messages (tb d)) \<and>
    (\<forall>r \<in> set (messages (tb d')). \<not> unread_from u p r) \<and>
    (faults d' = [] \<longrightarrow> fst (MarkRead u p d') = Inr [])"
  using assms(2)
proof (cases rule: MarkRead_cases)
  case ok
  have ids: "ids = map mr_id (filter (unread_from u p) (messages (tb d)))" using ok(1) by simp
  have msgs: "messages (tb d') = update_where (unread_from u p) (\<lambda>r. r\<lparr>mr_read_at := Some (clock d)\<rparr>)
      (messages (tb d))" using ok(2) by (simp add: agreeD)
  have none: "\<forall>r \<in> set (messages (tb d')). \<not> unread_from u p r"
    unfolding msgs update_where_def set_map using unread_stamped by blast
  have "faults d' = [] \<Longrightarrow> fst (MarkRead u p d') = Inr []"
    using none by (simp add: MarkRead_def Let_def filter_empty_conv)
  moreover have "distinct ids"
    using assms(1) by (simp add: ids db_ok_def tables_ok_def messages_ok_def distinct_map_filter)
  moreover have "set ids = mr_id ` {r \<in> set (messages (tb d)). unread_from u p r}"
    by (simp add: ids)
  moreover have "messages (tb d') =
      map (\<lambda>r. if unread_from u p r then r\<lparr>mr_read_at := Some (clock d)\<rparr> else r) (messages (tb d))"
    by (simp only: msgs update_where_def)
  ultimately show ?thesis using none by blast
qed simp

theorem MarkRead_exact_witness:
  "\<exists>ids d'. MarkRead 2 1 demo_db = (Inr ids, d') \<and> set ids = {1, 3} \<and> fst (MarkRead 2 1 d') = Inr []"
proof -
  obtain ids d' where m: "MarkRead 2 1 demo_db = (Inr ids, d')" and f: "faults d' = []"
    by (simp add: MarkRead_def Let_def)
  from MarkRead_exact [OF db_ok_demo m] f
  have "set ids = mr_id ` {r \<in> set (messages (tb demo_db)). unread_from 2 1 r}"
    "fst (MarkRead 2 1 d') = Inr []" by blast+
  moreover have "{r \<in> set (messages (tb demo_db)). unread_from 2 1 r} =
      {demo_msg 1 1 2 ''hi bob'' ''a1'', demo_msg 3 1 2 ''lunch?'' ''a2''}"
    by (auto simp: demo_defs unread_from_def)
  ultimately show ?thesis using m by (auto simp: demo_defs)
qed

section \<open>Deleting\<close>

lemma deletable_rows:
  assumes "db_ok d" "r \<in> set (messages (tb d))" "deletable i s r"
  shows "update_where (deletable i s) f (messages (tb d)) = map (\<lambda>x. if mr_id x = i then f x else x) (messages (tb d))"
  unfolding update_where_def
proof (intro map_cong refl)
  fix x
  assume x: "x \<in> set (messages (tb d))"
  have "distinct (map mr_id (messages (tb d)))" using assms(1) by (simp add: db_ok_def tables_ok_def messages_ok_def)
  then have "mr_id x = i \<Longrightarrow> x = r" using x assms(2,3) by (auto simp: deletable_def intro: distinct_map_eq)
  then have "deletable i s x \<longleftrightarrow> mr_id x = i" using assms(3) by (auto simp: deletable_def)
  then show "(if deletable i s x then f x else x) = (if mr_id x = i then f x else x)" by simp
qed

text \<open>The tables after a deletion: only the time of deletion of one row; body and nonce stay in it.\<close>

lemma SoftDelete_tables:
  assumes "db_ok d" "SoftDelete i s d = (res, d')"
  shows "case res of
      Inl _ \<Rightarrow> tb d' = tb d
    | Inr m \<Rightarrow> tb d' = (tb d)\<lparr>messages := map (\<lambda>r. if mr_id r = i then r\<lparr>mr_deleted_at := Some (clock d)\<rparr> else r)
        (messages (tb d))\<rparr>"
  using assms(2)
proof (cases rule: SoftDelete_cases)
  case (ok r)
  have "tb d' = (tb d)\<lparr>messages := update_where (deletable i s) (\<lambda>r. r\<lparr>mr_deleted_at := Some (clock d)\<rparr>) (messages (tb d))\<rparr>"
    using agreeD [OF ok(4)] by simp
  with ok(3) show ?thesis by (simp add: deletable_rows [OF assms(1) ok(1,2)])
qed (simp add: agreeD)

text \<open>
  Only the sender deletes, and a deletion touches one message. A successful \<open>SoftDelete\<close>
  concerns a message of the caller that was not deleted; it stamps this row and changes no
  other row; body and nonce of the message are gone from every thread and from \<open>GetByID\<close>, it
  is no longer replayed as missed, and deleting it again fails with \<open>ErrMessageNotFound\<close>.
\<close>

theorem SoftDelete_exact:
  assumes "db_ok d" "SoftDelete i s d = (Inr m, d')" "faults d' = []"
  shows "ID m = i \<and> SenderID m = s \<and> DeletedAt m = Some (clock d) \<and>
    messages (tb d') = map (\<lambda>r. if mr_id r = i then r\<lparr>mr_deleted_at := Some (clock d)\<rparr> else r)
                         (messages (tb d)) \<and>
    (\<forall>x \<in> set (thread u p (tb d')). ID x = i \<longrightarrow> Body x = [] \<and> IV x = [] \<and> DeletedAt x \<noteq> None) \<and>
    (\<exists>x. fst (GetByID i d') = Inr x \<and> Body x = [] \<and> IV x = []) \<and>
    (\<forall>xs. fst (GetUnreadForUser u n d') = Inr xs \<longrightarrow> i \<notin> ID ` set xs) \<and>
    fst (SoftDelete i s d') = Inl ErrMessageNotFound"
  using assms(2)
proof (cases rule: SoftDelete_cases)
  case (ok r)
  let ?del = "\<lambda>r. r\<lparr>mr_deleted_at := Some (clock d)\<rparr>"
  have msgs: "messages (tb d') = map (\<lambda>x. if mr_id x = i then ?del x else x) (messages (tb d))"
    using SoftDelete_tables [OF assms(1,2)] by simp
  have gone: "\<forall>x \<in> set (messages (tb d')). mr_id x = i \<longrightarrow> mr_deleted_at x \<noteq> None"
  proof (intro ballI impI)
    fix x
    assume x: "x \<in> set (messages (tb d'))" "mr_id x = i"
    from x(1) obtain y where "x = (if mr_id y = i then ?del y else y)"
      unfolding msgs set_map by blast
    with x(2) show "mr_deleted_at x \<noteq> None" by (simp split: if_splits)
  qed
  have "?del r \<in> set (messages (tb d'))"
    unfolding msgs set_map using ok(1,2) by (intro image_eqI [of _ _ r]) (simp_all add: deletable_def)
  moreover have "mr_id (?del r) = i" using ok(2) by (simp add: deletable_def)
  ultimately have "\<exists>x \<in> set (messages (tb d')). mr_id x = i" by blast
  then obtain x where x: "select_one (\<lambda>x. mr_id x = i) (messages (tb d')) = Some x"
    using select_one_None [of "\<lambda>x. mr_id x = i" "messages (tb d')"]
    by (cases "select_one (\<lambda>x. mr_id x = i) (messages (tb d'))") auto
  then have "mr_deleted_at x \<noteq> None" using gone by (auto dest: select_one_Some)
  then have byid: "\<exists>x. fst (GetByID i d') = Inr x \<and> Body x = [] \<and> IV x = []"
    using x assms(3) display_blank by (simp add: GetByID_def)
  have th: "\<forall>x \<in> set (thread u p (tb d')). ID x = i \<longrightarrow> Body x = [] \<and> IV x = [] \<and> DeletedAt x \<noteq> None"
    unfolding thread_def set_map set_sort set_filter using gone display_blank by fastforce
  have unread: "\<forall>xs. fst (GetUnreadForUser u n d') = Inr xs \<longrightarrow> i \<notin> ID ` set xs"
    using gone assms(3) by (auto simp: GetUnreadForUser_def)
  have again: "fst (SoftDelete i s d') = Inl ErrMessageNotFound"
  proof -
    have "select_one (deletable i s) (messages (tb d')) = None"
      unfolding select_one_None deletable_def using gone by blast
    then show ?thesis using assms(3) by (simp add: SoftDelete_def Let_def)
  qed
  have "ID m = i \<and> SenderID m = s \<and> DeletedAt m = Some (clock d)"
    using ok(2,3) by (simp add: scanMsg_def deletable_def)
  then show ?thesis using msgs th byid unread again by blast
qed simp

lemma demo_delete: "\<exists>m d'. SoftDelete 1 1 demo_db = (Inr m, d') \<and> faults d' = []"
  by (simp add: SoftDelete_def select_one_def deletable_def demo_defs)

theorem SoftDelete_exact_witness:
  "\<exists>m d'. SoftDelete 1 1 demo_db = (Inr m, d') \<and> ID m = 1 \<and>
     fst (SoftDelete 1 1 d') = Inl ErrMessageNotFound"
proof -
  obtain m d' where "SoftDelete 1 1 demo_db = (Inr m, d')" "faults d' = []" using demo_delete by blast
  from this SoftDelete_exact [OF db_ok_demo this] show ?thesis by blast
qed

definition blanked :: "message \<Rightarrow> bool" where
  "blanked m \<longleftrightarrow> (DeletedAt m \<noteq> None \<longrightarrow> Body m = [] \<and> IV m = [])"

lemma blanked_display [simp]: "blanked (display r)"
  by (simp add: blanked_def display_blank)

text \<open>
  The display queries never show the content of a deleted message: in every result of
  \<open>GetByID\<close>, the two listings and the replay of missed messages, a message with a deletion
  time has an empty body and an empty nonce.
\<close>

theorem deleted_content_hidden:
  shows "(case fst (GetByID i d) of Inr m \<Rightarrow> blanked m | Inl _ \<Rightarrow> True) \<and>
    (case fst (ListConversationSince u p c l d) of Inr (ms, _) \<Rightarrow> list_all blanked ms | Inl _ \<Rightarrow> True) \<and>
    (case fst (ListConversationBefore u p c l d) of Inr (ms, _) \<Rightarrow> list_all blanked ms | Inl _ \<Rightarrow> True) \<and>
    (case fst (GetUnreadForUser u c d) of Inr ms \<Rightarrow> list_all blanked ms | Inl _ \<Rightarrow> True)"
proof (intro conjI)
  show "case fst (GetByID i d) of Inr m \<Rightarrow> blanked m | Inl _ \<Rightarrow> True"
    by (auto simp: GetByID_def stmt_def split: list.split option.split)
next
  have rows: "list_all blanked (map scanMsg (since_query u p c n t))"
    "list_all blanked (map scanMsg (before_query u p c n t))" for n t
    by (auto simp: since_query_def before_query_def list_all_iff)
  have q: "case fst (queryMessages f u p c n l d) of Inr (ms, _) \<Rightarrow> list_all blanked ms | Inl _ \<Rightarrow> True"
    if "\<And>t. list_all blanked (map scanMsg (f u p c n t))" for f n
  proof (cases "queryMessages f u p c n l d")
    case (Pair res d')
    then show ?thesis
    proof (cases rule: queryMessages_cases)
      case ok
      have "list_all blanked (take k (map scanMsg (f u p c n (tb d))))" for k
        using that [of "tb d"] unfolding list_all_iff by (meson in_set_takeD)
      with ok that [of "tb d"] Pair show ?thesis by simp
    qed (use Pair in simp)
  qed
  show "case fst (ListConversationSince u p c l d) of Inr (ms, _) \<Rightarrow> list_all blanked ms | Inl _ \<Rightarrow> True"
    unfolding ListConversationSince_def by (rule q) (rule rows)
  have "case fst (queryMessages before_query u p c (l + 1) l d) of
      Inr (ms, _) \<Rightarrow> list_all blanked ms | Inl _ \<Rightarrow> True"
    by (rule q) (rule rows)
  then show "case fst (ListConversationBefore u p c l d) of Inr (ms, _) \<Rightarrow> list_all blanked ms | Inl _ \<Rightarrow> True"
    by (auto simp: ListConversationBefore_def and_then_def swap_loop_rev split: prod.splits sum.splits)
  show "case fst (GetUnreadForUser u c d) of Inr ms \<Rightarrow> list_all blanked ms | Inl _ \<Rightarrow> True"
    by (auto simp: GetUnreadForUser_def query_def stmt_def list_all_iff split: list.split option.split)
qed

lemma scanned_deletion:
  "r = new_message_row s p b iv e c d \<Longrightarrow>
   ID (scanMsg (r\<lparr>mr_deleted_at := Some n\<rparr>)) = ID (scanMsg r) \<and>
   DeletedAt (scanMsg (r\<lparr>mr_deleted_at := Some n\<rparr>)) \<noteq> None \<and>
   Body (scanMsg (r\<lparr>mr_deleted_at := Some n\<rparr>)) = b"
  by (simp add: scanMsg_def new_message_row_def)

text \<open>
  The idempotent retry is the exception. It answers from \<open>rawCols\<close>, so a sender who deleted
  a message and repeats the send gets the deleted message with its original body.
\<close>

theorem retry_shows_deleted_body:
  assumes "db_ok d" "CreateOrGetExisting s p b iv e c d = (Inr (m, True), d1)"
    and "SoftDelete (ID m) s d1 = (Inr x, d2)" "faults d2 = []" "int4_ok p'"
  shows "\<exists>y. fst (CreateOrGetExisting s p' b' iv' e' c d2) = Inr (y, False) \<and>
    ID y = ID m \<and> DeletedAt y \<noteq> None \<and> Body y = b"
proof -
  from assms(2) obtain row where row: "row = new_message_row s p b iv e c d" "m = scanMsg row"
    "tb d1 = (tb d)\<lparr>messages := messages (tb d) @ [row]\<rparr>" "int4_ok s"
    by (cases rule: CreateOrGetExisting_cases) auto
  have ok1: "db_ok d1" using assms(1,2) by (rule CreateOrGetExisting_db_ok)
  have ok2: "db_ok d2" using ok1 assms(3) by (rule SoftDelete_db_ok)
  let ?del = "row\<lparr>mr_deleted_at := Some (clock d1)\<rparr>"
  have "ID m = mr_id row" using row(2) by (simp add: scanMsg_def)
  moreover have "messages (tb d2) =
      map (\<lambda>r. if mr_id r = ID m then r\<lparr>mr_deleted_at := Some (clock d1)\<rparr> else r) (messages (tb d1))"
    using SoftDelete_exact [OF ok1 assms(3,4)] by blast
  ultimately have mem: "?del \<in> set (messages (tb d2))" by (simp add: row(3))
  have "same_client_id s c ?del" by (simp add: row(1) same_client_id_def new_message_row_def)
  from CreateOrGetExisting_existing [OF mem this ok2 assms(4) row(4) assms(5), of b' iv' e']
  have "fst (CreateOrGetExisting s p' b' iv' e' c d2) = Inr (scanMsg ?del, False)"
    by (metis fst_conv)
  then show ?thesis using scanned_deletion [OF row(1), of "clock d1"] row(2) by blast
qed

theorem retry_shows_deleted_body_witness:
  "\<exists>d1 x d2 y. SoftDelete 4 1 d1 = (Inr x, d2) \<and>
     fst (CreateOrGetExisting 1 2 [] [] False ''a9'' d2) = Inr (y, False) \<and> Body y = ''x''"
proof -
  let ?d1 = "snd (CreateOrGetExisting 1 2 ''x'' ''n'' True ''a9'' demo_db)"
  obtain m where m: "CreateOrGetExisting 1 2 ''x'' ''n'' True ''a9'' demo_db = (Inr (m, True), ?d1)"
    and id: "ID m = 4"
    by (simp add: demo_send) (simp add: scanMsg_def new_message_row_def demo_defs)
  obtain x d2 where x: "SoftDelete 4 1 ?d1 = (Inr x, d2)" "faults d2 = []"
    by (simp add: demo_send SoftDelete_def)
      (simp add: select_one_def deletable_def new_message_row_def demo_defs)
  from retry_shows_deleted_body [OF db_ok_demo m, unfolded id, OF x, of 2 "[]" "[]" False] x(1)
  show ?thesis by (auto simp: int4_ok_def)
qed

end
