(* ===== verification/Contact_Store.thy ===== *)
theory Contact_Store
  imports User_Store Message_Store
begin

text \<open>
  \<open>internal/store/contact_store.go\<close>: contact lists, and the erasure of an account as one
  transaction. With it the user store is complete, so the value the handlers get as
  \<open>userStorer\<close> is put together here.
\<close>

section \<open>Contacts\<close>

definition lookup_live_id :: "string \<Rightarrow> db \<Rightarrow> int64 result \<times> db" where
  "lookup_live_id targetUsername d =
     (case select_one (\<lambda>r. ur_username r = targetUsername \<and> live r) (users (tb d)) of
        None \<Rightarrow> (Inl ErrNoRows, d)
      | Some r \<Rightarrow> (Inr (ur_id r), d))"

text \<open>
  The \<open>CHECK\<close> is tested before the conflict clause, the references after it.
\<close>

definition insert_contact :: "int64 \<Rightarrow> int64 \<Rightarrow> db \<Rightarrow> unit result \<times> db" where
  "insert_contact userID targetID d =
     (let row = \<lparr>cr_user_id = userID, cr_contact_id = targetID\<rparr> in
      if userID = targetID then (Inl (DBError check_violation), d)
      else if row \<in> set (contacts (tb d)) then (Inr (), d)
      else if userID \<notin> ur_id ` set (users (tb d)) \<or> targetID \<notin> ur_id ` set (users (tb d))
      then (Inl (DBError fk_violation), d)
      else (Inr (), d\<lparr>tb := (tb d)\<lparr>contacts := contacts (tb d) @ [row]\<rparr>\<rparr>))"

definition AddContact :: "int64 \<Rightarrow> string \<Rightarrow> db \<Rightarrow> unit result \<times> db" where
  "AddContact userID targetUsername d =
     (case stmt (lookup_live_id targetUsername) d of
        (Inl err, d1) \<Rightarrow> (Inl (if err = ErrNoRows then ErrUserNotFound else err), d1)
      | (Inr targetID, d1) \<Rightarrow> stmt (insert_contact userID targetID) d1)"

definition lookup_id :: "string \<Rightarrow> db \<Rightarrow> int64 result \<times> db" where
  "lookup_id targetUsername d =
     (case select_one (\<lambda>r. ur_username r = targetUsername) (users (tb d)) of
        None \<Rightarrow> (Inl ErrNoRows, d)
      | Some r \<Rightarrow> (Inr (ur_id r), d))"

definition delete_contacts :: "(contact_row \<Rightarrow> bool) \<Rightarrow> db \<Rightarrow> nat result \<times> db" where
  "delete_contacts P d =
     (Inr (count_where P (contacts (tb d))),
      d\<lparr>tb := (tb d)\<lparr>contacts := filter (\<lambda>c. \<not> P c) (contacts (tb d))\<rparr>\<rparr>)"

definition RemoveContact :: "int64 \<Rightarrow> string \<Rightarrow> db \<Rightarrow> unit result \<times> db" where
  "RemoveContact userID targetUsername d =
     (case stmt (lookup_id targetUsername) d of
        (Inl err, d1) \<Rightarrow> (Inl (if err = ErrNoRows then ErrContactNotFound else err), d1)
      | (Inr targetID, d1) \<Rightarrow>
          and_then (stmt (delete_contacts (\<lambda>c. cr_user_id c = userID \<and> cr_contact_id c = targetID)) d1)
            (\<lambda>n d2. if n = 0 then (Inl ErrContactNotFound, d2) else (Inr (), d2)))"

definition IsContact :: "int64 \<Rightarrow> int64 \<Rightarrow> db \<Rightarrow> bool result \<times> db" where
  "IsContact userID peerID =
     query (\<lambda>t. list_ex (\<lambda>c. cr_user_id c = userID \<and> cr_contact_id c = peerID) (contacts t))"

text \<open>\<open>contacts c JOIN users u ON u.id = f c\<close>.\<close>

definition join_users :: "(contact_row \<Rightarrow> int64) \<Rightarrow> tables \<Rightarrow> (contact_row \<times> user_row) list" where
  "join_users f t = concat (map (\<lambda>c. map (\<lambda>u. (c, u)) (filter (\<lambda>u. ur_id u = f c) (users t))) (contacts t))"

definition ListContacts ::
  "(string \<Rightarrow> 'k::linorder) \<Rightarrow> int64 \<Rightarrow> db \<Rightarrow> contact list result \<times> db" where
  "ListContacts collate userID =
     query (\<lambda>t. map (\<lambda>(c, u). \<lparr>contact_ID = ur_id u, contact_Username = ur_username u,
                               contact_Online = False\<rparr>)
       (sort_key (\<lambda>(c, u). collate (ur_username u))
         (filter (\<lambda>(c, u). cr_user_id c = userID \<and> live u) (join_users cr_contact_id t))))"

definition GetContactFollowerIDs :: "int64 \<Rightarrow> db \<Rightarrow> int64 list result \<times> db" where
  "GetContactFollowerIDs userID =
     query (\<lambda>t. map (\<lambda>(c, u). cr_user_id c)
       (filter (\<lambda>(c, u). cr_contact_id c = userID \<and> live u) (join_users cr_user_id t)))"

section \<open>Erasure of an account\<close>

definition wrap :: "string \<Rightarrow> 'a result \<times> db \<Rightarrow> 'a result \<times> db" where
  "wrap p m = (case m of (Inl e, d) \<Rightarrow> (Inl (ErrWrap p e), d) | (Inr x, d) \<Rightarrow> (Inr x, d))"

definition lookup_username :: "int64 \<Rightarrow> db \<Rightarrow> string result \<times> db" where
  "lookup_username userID d =
     (case select_one (\<lambda>r. ur_id r = userID \<and> live r) (users (tb d)) of
        None \<Rightarrow> (Inl ErrNoRows, d)
      | Some r \<Rightarrow> (Inr (ur_username r), d))"

definition tombstone_name :: "int64 \<Rightarrow> string" where
  "tombstone_name i = ''deleted_'' @ FormatInt i"

definition anonymized :: "time \<Rightarrow> user_row \<Rightarrow> user_row" where
  "anonymized now r =
     r\<lparr>ur_username := tombstone_name (ur_id r), ur_display_name := Some ''Deleted User'',
       ur_password_hash := [], ur_public_key := None, ur_deleted_at := Some now\<rparr>"

text \<open>Statement 1; the unique index on the name may refuse the tombstone name.\<close>

definition anonymize_user :: "int64 \<Rightarrow> time \<Rightarrow> db \<Rightarrow> nat result \<times> db" where
  "anonymize_user userID now d =
     (let P = (\<lambda>r. ur_id r = userID \<and> live r);
          rows = update_where P (anonymized now) (users (tb d))
      in if \<not> distinct (map ur_username rows) then (Inl (DBError unique_violation), d)
         else (Inr (count_where P (users (tb d))), d\<lparr>tb := (tb d)\<lparr>users := rows\<rparr>\<rparr>))"

definition purged :: "msg_row \<Rightarrow> msg_row" where
  "purged r = r\<lparr>mr_body := [], mr_iv := None, mr_encrypted := False\<rparr>"

definition purge_messages :: "int64 \<Rightarrow> db \<Rightarrow> nat result \<times> db" where
  "purge_messages userID d =
     (let P = (\<lambda>r. mr_sender_id r = userID) in
      (Inr (count_where P (messages (tb d))),
       d\<lparr>tb := (tb d)\<lparr>messages := update_where P purged (messages (tb d))\<rparr>\<rparr>))"

definition expire_invites :: "string \<Rightarrow> db \<Rightarrow> nat result \<times> db" where
  "expire_invites originalUsername d =
     (let P = (\<lambda>r. ir_created_by r = originalUsername \<and> ir_used_by r = None) in
      (Inr (count_where P (invite_codes (tb d))),
       d\<lparr>tb := (tb d)\<lparr>invite_codes :=
          update_where P (\<lambda>r. r\<lparr>ir_expires_at := Some (clock d)\<rparr>) (invite_codes (tb d))\<rparr>\<rparr>))"

definition write_gdpr_log :: "time \<Rightarrow> GDPRDeletionRecord \<Rightarrow> db \<Rightarrow> unit result \<times> db" where
  "write_gdpr_log now record d =
     (if \<not> int4_ok (MessagesPurged record) \<or> \<not> int4_ok (InvitesExpired record)
      then (Inl (DBError int4_range_error), d)
      else (Inr (), d\<lparr>tb := (tb d)\<lparr>gdpr_deletion_log := gdpr_deletion_log (tb d) @
        [\<lparr>gr_user_id = gdpr_UserID record, gr_requested_at = clock d, gr_anonymized_at = now,
          gr_messages_purged = MessagesPurged record, gr_public_key_cleared = PublicKeyCleared record,
          gr_invites_expired = InvitesExpired record, gr_notes = ''user-initiated deletion''\<rparr>]\<rparr>\<rparr>))"

definition gdpr_body :: "int64 \<Rightarrow> time \<Rightarrow> db \<Rightarrow> GDPRDeletionRecord result \<times> db" where
  "gdpr_body userID now d =
     (case stmt (lookup_username userID) d of
        (Inl err, d1) \<Rightarrow>
          (Inl (if err = ErrNoRows then ErrAlreadyDeleted else ErrWrap ''lookup user'' err), d1)
      | (Inr originalUsername, d1) \<Rightarrow>
          and_then (wrap ''anonymize user'' (stmt (anonymize_user userID now) d1)) (\<lambda>n d2.
          if n = 0 then (Inl ErrAlreadyDeleted, d2) else
          and_then (wrap ''purge message bodies'' (stmt (purge_messages userID) d2)) (\<lambda>msgCount d3.
          and_then (wrap ''expire invite codes'' (stmt (expire_invites originalUsername) d3)) (\<lambda>invCount d4.
          and_then (wrap ''remove contacts''
            (stmt (delete_contacts (\<lambda>c. cr_user_id c = userID \<or> cr_contact_id c = userID)) d4)) (\<lambda>_ d5.
          let record = \<lparr>gdpr_UserID = userID, MessagesPurged = int msgCount, PublicKeyCleared = True,
                        InvitesExpired = int invCount\<rparr>
          in and_then (wrap ''write gdpr log'' (stmt (write_gdpr_log now record) d5))
               (\<lambda>_ d6. (Inr record, d6)))))))"

definition DeleteAccountGDPR :: "int64 \<Rightarrow> time \<Rightarrow> db \<Rightarrow> GDPRDeletionRecord result \<times> db" where
  "DeleteAccountGDPR userID now =
     in_tx (ErrWrap ''begin tx'') (ErrWrap ''commit'') (gdpr_body userID now)"

section \<open>The store as the value of the handlers' interface\<close>

definition pg_user_store ::
  "(string \<Rightarrow> string \<Rightarrow> bool) \<Rightarrow> (string \<Rightarrow> 'k::linorder) \<Rightarrow> db user_storer" where
  "pg_user_store ilike collate =
     \<lparr>us_RegisterWithInvite = RegisterWithInvite, us_CreateUser = CreateUser,
      us_GetUserByUsername = GetUserByUsername, us_GetByUsername = GetByUsername,
      us_GetUserByID = GetUserByID, us_ListUsers = ListUsers collate,
      us_SearchUsers = SearchUsers ilike collate, us_ConsumeInviteCode = ConsumeInviteCode,
      us_SetPublicKey = SetPublicKey, us_GetPublicKeyByUsername = GetPublicKeyByUsername,
      us_SetPushToken = SetPushToken, us_GetPushToken = GetPushToken, us_Ping = Ping,
      us_AdminListInvites = AdminListInvites, us_AdminCreateInvite = AdminCreateInvite,
      us_AdminResetInvite = AdminResetInvite, us_UpdatePassword = UpdatePassword,
      us_ListContacts = ListContacts collate, us_GetContactFollowerIDs = GetContactFollowerIDs,
      us_IsContact = IsContact, us_AddContact = AddContact, us_RemoveContact = RemoveContact,
      us_DeleteAccountGDPR = DeleteAccountGDPR\<rparr>"

section \<open>What the contact operations do\<close>

lemma lookup_live_id_stmt_cases:
  assumes "stmt (lookup_live_id n) d = (r, d')"
  obtains (fault) e where "r = Inl (DBError e)" "agree d d'"
  | (none) "r = Inl ErrNoRows" "agree d d'" "\<forall>x \<in> set (users (tb d)). \<not> (ur_username x = n \<and> live x)"
  | (found) x where "r = Inr (ur_id x)" "agree d d'" "x \<in> set (users (tb d))" "ur_username x = n" "live x"
  using assms
proof (cases rule: stmt_cases)
  case (ok d1)
  note ag = agreeD [OF ok(1)]
  show thesis
  proof (cases "select_one (\<lambda>r. ur_username r = n \<and> live r) (users (tb d1))")
    case None
    then have "\<forall>x \<in> set (users (tb d)). \<not> (ur_username x = n \<and> live x)"
      unfolding ag(1) select_one_None by simp
    with None ok show thesis by (intro none) (auto simp: lookup_live_id_def)
  next
    case (Some x)
    then have "x \<in> set (users (tb d1)) \<and> ur_username x = n \<and> live x" by (rule select_one_Some)
    with Some ok ag show thesis by (intro found [of x]) (auto simp: lookup_live_id_def)
  qed
qed (rule fault)

lemma insert_contact_cases:
  assumes "insert_contact u v d = (r, d')"
  obtains (self) "r = Inl (DBError check_violation)" "d' = d" "u = v"
  | (present) "r = Inr ()" "d' = d" "\<lparr>cr_user_id = u, cr_contact_id = v\<rparr> \<in> set (contacts (tb d))"
  | (fk) "r = Inl (DBError fk_violation)" "d' = d"
  | (added) "r = Inr ()" "u \<noteq> v" "\<lparr>cr_user_id = u, cr_contact_id = v\<rparr> \<notin> set (contacts (tb d))"
      "u \<in> ur_id ` set (users (tb d))" "v \<in> ur_id ` set (users (tb d))"
      "d' = d\<lparr>tb := (tb d)\<lparr>contacts := contacts (tb d) @ [\<lparr>cr_user_id = u, cr_contact_id = v\<rparr>]\<rparr>\<rparr>"
  using assms unfolding insert_contact_def Let_def by (auto split: if_splits)

text \<open>The contact relation, the store's contract without queries.\<close>

definition graph :: "tables \<Rightarrow> (int64 \<times> int64) set" where
  "graph t = {(u, v). \<lparr>cr_user_id = u, cr_contact_id = v\<rparr> \<in> set (contacts t)}"

lemma contacts_ok_snoc:
  assumes "tables_ok t" "u \<noteq> v" "\<lparr>cr_user_id = u, cr_contact_id = v\<rparr> \<notin> set (contacts t)"
    "u \<in> ur_id ` set (users t)" "v \<in> ur_id ` set (users t)"
  shows "tables_ok (t\<lparr>contacts := contacts t @ [\<lparr>cr_user_id = u, cr_contact_id = v\<rparr>]\<rparr>)"
proof (rule tables_okI)
  let ?t = "t\<lparr>contacts := contacts t @ [\<lparr>cr_user_id = u, cr_contact_id = v\<rparr>]\<rparr>"
  note ok = tables_okD [OF assms(1)]
  show "users_ok ?t" using ok(1) by (simp add: users_ok_def)
  show "messages_ok ?t" by (rule messages_ok_mono [OF _ _ ok(2)]) simp_all
  show "invites_ok ?t" by (rule invites_ok_cong [OF _ _ ok(3)]) simp_all
  show "contacts_ok ?t" using ok(4) assms(2-5) unfolding contacts_ok_def by auto
qed

lemma AddContact_cases:
  assumes "AddContact u n d = (res, d')"
  obtains (error) e where "res = Inl e" "agree d d'"
  | (ok) x where "res = Inr ()" "x \<in> set (users (tb d))" "ur_username x = n" "live x" "u \<noteq> ur_id x \<or> (u, ur_id x) \<in> graph (tb d)"
      "graph (tb d') = insert (u, ur_id x) (graph (tb d))" "users (tb d') = users (tb d)"
      "messages (tb d') = messages (tb d)" "invite_codes (tb d') = invite_codes (tb d)"
      "later d d'" "tables_ok (tb d) \<longrightarrow> tables_ok (tb d')"
proof -
  obtain r1 d1 where s: "stmt (lookup_live_id n) d = (r1, d1)" by fastforce
  note def = assms [unfolded AddContact_def s]
  from s show thesis
  proof (cases rule: lookup_live_id_stmt_cases)
    case (found x)
    with def have i: "stmt (insert_contact u (ur_id x)) d1 = (res, d')" by simp
    from i show thesis
    proof (cases rule: stmt_cases)
      case (fault e)
      show thesis by (rule error [OF fault(1) agree_trans [OF found(2) fault(2)]])
    next
      case (ok d2)
      have ag2: "agree d d2" using found(2) ok(1) by (rule agree_trans)
      note ag = agreeD [OF ag2]
      from ok(2) show thesis
      proof (cases rule: insert_contact_cases)
        case self
        with ag2 show thesis by (intro error) auto
      next
        case fk
        with ag2 show thesis by (intro error) auto
      next
        case present
        with ag have "(u, ur_id x) \<in> graph (tb d)" by (simp add: graph_def)
        with present found show thesis
          using agree_later [OF ag2] by (intro that(2) [of x]) (auto simp: ag)
      next
        case added
        have "graph (tb d') = insert (u, ur_id x) (graph (tb d))"
          by (auto simp: graph_def added ag)
        moreover have "tables_ok (tb d) \<longrightarrow> tables_ok (tb d')"
          using contacts_ok_snoc [of "tb d" u "ur_id x"] added ag by simp
        ultimately show thesis using found added agree_later [OF ag2]
          by (intro that(2) [of x]) (auto simp: ag)
      qed
    qed
  qed (use def in \<open>auto intro: error\<close>)
qed

lemma lookup_id_stmt_cases:
  assumes "stmt (lookup_id n) d = (r, d')"
  obtains (fault) e where "r = Inl (DBError e)" "agree d d'"
  | (none) "r = Inl ErrNoRows" "agree d d'" "\<forall>x \<in> set (users (tb d)). ur_username x \<noteq> n"
  | (found) x where "r = Inr (ur_id x)" "agree d d'" "x \<in> set (users (tb d))" "ur_username x = n"
  using assms
proof (cases rule: stmt_cases)
  case (ok d1)
  note ag = agreeD [OF ok(1)]
  show thesis
  proof (cases "select_one (\<lambda>r. ur_username r = n) (users (tb d1))")
    case None
    then have "\<forall>x \<in> set (users (tb d)). ur_username x \<noteq> n"
      unfolding ag(1) select_one_None by simp
    with None ok show thesis by (intro none) (auto simp: lookup_id_def)
  next
    case (Some x)
    then have "x \<in> set (users (tb d1)) \<and> ur_username x = n" by (rule select_one_Some)
    with Some ok ag show thesis by (intro found [of x]) (auto simp: lookup_id_def)
  qed
qed (rule fault)

lemma delete_contacts_tables_ok:
  assumes "tables_ok t"
  shows "tables_ok (t\<lparr>contacts := filter P (contacts t)\<rparr>)"
proof (rule tables_okI)
  let ?t = "t\<lparr>contacts := filter P (contacts t)\<rparr>"
  note ok = tables_okD [OF assms(1)]
  show "users_ok ?t" using ok(1) by (simp add: users_ok_def)
  show "messages_ok ?t" by (rule messages_ok_mono [OF _ _ ok(2)]) simp_all
  show "invites_ok ?t" by (rule invites_ok_cong [OF _ _ ok(3)]) simp_all
  show "contacts_ok ?t"
    by (rule contacts_ok_mono [OF _ _ _ ok(4)]) (simp_all add: contacts_ok_distinct [OF ok(4)] subset_iff)
qed

lemma graph_filter:
  "graph (t\<lparr>contacts := filter (\<lambda>c. \<not> (cr_user_id c = u \<and> cr_contact_id c = v)) (contacts t)\<rparr>) =
   graph t - {(u, v)}"
  by (auto simp: graph_def)

lemma RemoveContact_cases:
  assumes "RemoveContact u n d = (res, d')"
  obtains (error) e where "res = Inl e" "unchanged d d'"
  | (ok) x where "res = Inr ()" "x \<in> set (users (tb d))" "ur_username x = n" "(u, ur_id x) \<in> graph (tb d)"
      "graph (tb d') = graph (tb d) - {(u, ur_id x)}" "later d d'"
      "tb d' = (tb d)\<lparr>contacts := filter (\<lambda>c. \<not> (cr_user_id c = u \<and> cr_contact_id c = ur_id x)) (contacts (tb d))\<rparr>"
proof -
  obtain r1 d1 where s: "stmt (lookup_id n) d = (r1, d1)" by fastforce
  note def = assms [unfolded RemoveContact_def s]
  from s show thesis
  proof (cases rule: lookup_id_stmt_cases)
    case (found x)
    let ?P = "\<lambda>c. cr_user_id c = u \<and> cr_contact_id c = ur_id x"
    from def found(1) have "and_then (stmt (delete_contacts ?P) d1)
        (\<lambda>n d2. if n = 0 then (Inl ErrContactNotFound, d2) else (Inr (), d2)) = (res, d')" by simp
    then show thesis
    proof (cases rule: and_then_cases)
      case (error e)
      from error(1) have "agree d1 d'" by (cases rule: stmt_cases) (auto simp: delete_contacts_def)
      then show thesis by (rule that(1) [OF error(2) agree_unchanged [OF agree_trans [OF found(2)]]])
    next
      case (ok k d2)
      from ok(1) obtain da where da: "agree d1 da" "delete_contacts ?P da = (Inr k, d2)"
        by (cases rule: stmt_cases) auto
      note ag = agreeD [OF agree_trans [OF found(2) da(1)]]
      have l: "later d da" using found(2) da(1) by (blast intro: agree_later later_trans)
      from da(2) have k: "k = count_where ?P (contacts (tb d))"
        and d2: "d2 = da\<lparr>tb := (tb d)\<lparr>contacts := filter (\<lambda>c. \<not> ?P c) (contacts (tb d))\<rparr>\<rparr>"
        by (auto simp: delete_contacts_def ag)
      show thesis
      proof (cases "k = 0")
        case True
        then have "\<forall>c \<in> set (contacts (tb d)). \<not> ?P c" using k count_where_0 [of ?P] by metis
        then have "filter (\<lambda>c. \<not> ?P c) (contacts (tb d)) = contacts (tb d)" by (simp add: filter_id_conv)
        with True ok(2) d2 l show thesis
          by (intro that(1) [of ErrContactNotFound]) (auto simp: unchanged_def)
      next
        case False
        then obtain c where "c \<in> set (contacts (tb d))" "?P c" using k count_where_0 [of ?P] by metis
        moreover from this(2) have "c = \<lparr>cr_user_id = u, cr_contact_id = ur_id x\<rparr>"
          by (simp add: contact_row.equality)
        ultimately have "\<lparr>cr_user_id = u, cr_contact_id = ur_id x\<rparr> \<in> set (contacts (tb d))" by simp
        then have "(u, ur_id x) \<in> graph (tb d)" by (simp add: graph_def)
        moreover have tbd: "tb d' = (tb d)\<lparr>contacts := filter (\<lambda>c. \<not> ?P c) (contacts (tb d))\<rparr>"
          using False ok(2) d2 by auto
        moreover have "graph (tb d') = graph (tb d) - {(u, ur_id x)}"
          unfolding tbd by (rule graph_filter)
        moreover have "res = Inr ()" "later d d'" using False ok(2) l d2 by auto
        ultimately show thesis using found(3,4) by (intro that(2) [of x])
      qed
    qed
  qed (use def in \<open>auto intro: that(1) agree_unchanged\<close>)
qed

section \<open>What the erasure does\<close>

lemma wrapped_stmt_ok:
  assumes "and_then (wrap p (stmt q d)) f = (Inr x, d')"
  obtains d0 y d1 where "agree d d0" "q d0 = (Inr y, d1)" "f y d1 = (Inr x, d')"
proof -
  obtain r d1 where s: "stmt q d = (r, d1)" by fastforce
  with assms obtain y where y: "r = Inr y" "f y d1 = (Inr x, d')"
    by (cases r) (auto simp: wrap_def)
  from s y(1) obtain d0 where "agree d d0" "q d0 = (Inr y, d1)" by (cases rule: stmt_cases) auto
  with y(2) show thesis by (intro that)
qed

lemma and_then_later:
  assumes "and_then (wrap p (stmt q d)) f = (r, d')"
    and "\<And>d r d'. q d = (r, d') \<Longrightarrow> later d d'" "\<And>x d1. f x d1 = (r, d') \<Longrightarrow> later d1 d'"
  shows "later d d'"
proof -
  obtain r1 d1 where s: "stmt q d = (r1, d1)" by fastforce
  then have "later d d1" using assms(2) by (rule stmt_later)
  with assms(1,3) s show ?thesis by (cases r1) (auto simp: wrap_def intro: later_trans)
qed

lemma gdpr_body_later:
  assumes "gdpr_body u now d = (r, d')"
  shows "later d d'"
proof -
  obtain r1 d1 where s: "stmt (lookup_username u) d = (r1, d1)" by fastforce
  have l1: "later d d1"
    using s by (rule stmt_later) (auto simp: lookup_username_def split: option.splits)
  show ?thesis
  proof (cases r1)
    case (Inl e)
    with assms s l1 show ?thesis by (auto simp: gdpr_body_def)
  next
    case (Inr name)
    with assms s have body: "and_then (wrap ''anonymize user'' (stmt (anonymize_user u now) d1)) (\<lambda>n d2.
          if n = 0 then (Inl ErrAlreadyDeleted, d2) else
          and_then (wrap ''purge message bodies'' (stmt (purge_messages u) d2)) (\<lambda>msgCount d3.
          and_then (wrap ''expire invite codes'' (stmt (expire_invites name) d3)) (\<lambda>invCount d4.
          and_then (wrap ''remove contacts''
            (stmt (delete_contacts (\<lambda>c. cr_user_id c = u \<or> cr_contact_id c = u)) d4)) (\<lambda>_ d5.
          let record = \<lparr>gdpr_UserID = u, MessagesPurged = int msgCount, PublicKeyCleared = True,
                        InvitesExpired = int invCount\<rparr>
          in and_then (wrap ''write gdpr log'' (stmt (write_gdpr_log now record) d5))
               (\<lambda>_ d6. (Inr record, d6)))))) = (r, d')"
      by (simp add: gdpr_body_def)
    have "later d1 d'"
      by (rule and_then_later [OF body])
        (auto simp: anonymize_user_def purge_messages_def expire_invites_def delete_contacts_def
          write_gdpr_log_def Let_def split: if_splits elim!: and_then_later)
    with l1 show ?thesis by (rule later_trans)
  qed
qed

text \<open>The tables after a successful erasure of the account \<open>x\<close>.\<close>

definition unused_invite_of :: "string \<Rightarrow> invite_row \<Rightarrow> bool" where
  "unused_invite_of name r \<longleftrightarrow> ir_created_by r = name \<and> ir_used_by r = None"

definition erasure_record :: "user_row \<Rightarrow> tables \<Rightarrow> GDPRDeletionRecord" where
  "erasure_record x t =
     \<lparr>gdpr_UserID = ur_id x,
      MessagesPurged = int (count_where (\<lambda>r. mr_sender_id r = ur_id x) (messages t)),
      PublicKeyCleared = True,
      InvitesExpired = int (count_where (unused_invite_of (ur_username x)) (invite_codes t))\<rparr>"

definition erased :: "user_row \<Rightarrow> time \<Rightarrow> db \<Rightarrow> tables" where
  "erased x now d =
     \<lparr>users = update_where (\<lambda>r. ur_id r = ur_id x \<and> live r) (anonymized now) (users (tb d)),
      messages = update_where (\<lambda>r. mr_sender_id r = ur_id x) purged (messages (tb d)),
      invite_codes = update_where (unused_invite_of (ur_username x))
        (\<lambda>r. r\<lparr>ir_expires_at := Some (clock d)\<rparr>) (invite_codes (tb d)),
      contacts = filter (\<lambda>c. \<not> (cr_user_id c = ur_id x \<or> cr_contact_id c = ur_id x)) (contacts (tb d)),
      gdpr_deletion_log = gdpr_deletion_log (tb d) @
        [\<lparr>gr_user_id = ur_id x, gr_requested_at = clock d, gr_anonymized_at = now,
          gr_messages_purged = MessagesPurged (erasure_record x (tb d)), gr_public_key_cleared = True,
          gr_invites_expired = InvitesExpired (erasure_record x (tb d)),
          gr_notes = ''user-initiated deletion''\<rparr>]\<rparr>"

lemma gdpr_body_ok:
  assumes "gdpr_body u now d = (Inr rec, d')"
  obtains x where "x \<in> set (users (tb d))" "ur_id x = u" "live x" "rec = erasure_record x (tb d)"
    "tb d' = erased x now d"
    "distinct (map ur_username (update_where (\<lambda>r. ur_id r = u \<and> live r) (anonymized now) (users (tb d))))"
proof -
  obtain r1 d1 where s: "stmt (lookup_username u) d = (r1, d1)" by fastforce
  with assms obtain name where r1: "r1 = Inr name" by (cases r1) (auto simp: gdpr_body_def)
  with s obtain da where a: "agree d da" "lookup_username u da = (Inr name, d1)"
    by (cases rule: stmt_cases) auto
  note a' = agreeD [OF a(1)]
  from a(2) obtain x where x: "select_one (\<lambda>r. ur_id r = u \<and> live r) (users (tb da)) = Some x"
    "name = ur_username x" "d1 = da" by (auto simp: lookup_username_def split: option.splits)
  have xs: "x \<in> set (users (tb d))" "ur_id x = u" "live x"
    using select_one_Some [OF x(1)] a' by auto
  from assms s r1 obtain db n d2 where b: "agree d1 db" "anonymize_user u now db = (Inr n, d2)"
    and 2: "(if n = 0 then (Inl ErrAlreadyDeleted, d2) else
          and_then (wrap ''purge message bodies'' (stmt (purge_messages u) d2)) (\<lambda>msgCount d3.
          and_then (wrap ''expire invite codes'' (stmt (expire_invites name) d3)) (\<lambda>invCount d4.
          and_then (wrap ''remove contacts''
            (stmt (delete_contacts (\<lambda>c. cr_user_id c = u \<or> cr_contact_id c = u)) d4)) (\<lambda>_ d5.
          let record = \<lparr>gdpr_UserID = u, MessagesPurged = int msgCount, PublicKeyCleared = True,
                        InvitesExpired = int invCount\<rparr>
          in and_then (wrap ''write gdpr log'' (stmt (write_gdpr_log now record) d5))
               (\<lambda>_ d6. (Inr record, d6)))))) = (Inr rec, d')"
    by (auto simp: gdpr_body_def elim!: wrapped_stmt_ok)
  then have "n \<noteq> 0" by (auto split: if_splits)
  from 2 [unfolded if_not_P [OF this]] obtain dc k d3 where c: "agree d2 dc" "purge_messages u dc = (Inr k, d3)"
    and 3: "and_then (wrap ''expire invite codes'' (stmt (expire_invites name) d3)) (\<lambda>invCount d4.
          and_then (wrap ''remove contacts''
            (stmt (delete_contacts (\<lambda>c. cr_user_id c = u \<or> cr_contact_id c = u)) d4)) (\<lambda>_ d5.
          let record = \<lparr>gdpr_UserID = u, MessagesPurged = int k, PublicKeyCleared = True,
                        InvitesExpired = int invCount\<rparr>
          in and_then (wrap ''write gdpr log'' (stmt (write_gdpr_log now record) d5))
               (\<lambda>_ d6. (Inr record, d6)))) = (Inr rec, d')"
    by (rule wrapped_stmt_ok) (rule that)
  from 3 obtain dd m d4 where e: "agree d3 dd" "expire_invites name dd = (Inr m, d4)"
    and 4: "and_then (wrap ''remove contacts''
            (stmt (delete_contacts (\<lambda>c. cr_user_id c = u \<or> cr_contact_id c = u)) d4)) (\<lambda>_ d5.
          let record = \<lparr>gdpr_UserID = u, MessagesPurged = int k, PublicKeyCleared = True,
                        InvitesExpired = int m\<rparr>
          in and_then (wrap ''write gdpr log'' (stmt (write_gdpr_log now record) d5))
               (\<lambda>_ d6. (Inr record, d6))) = (Inr rec, d')"
    by (rule wrapped_stmt_ok) (rule that)
  let ?rec = "\<lparr>gdpr_UserID = u, MessagesPurged = int k, PublicKeyCleared = True, InvitesExpired = int m\<rparr>"
  from 4 obtain de z d5 where f: "agree d4 de"
      "delete_contacts (\<lambda>c. cr_user_id c = u \<or> cr_contact_id c = u) de = (Inr z, d5)"
    and 5: "and_then (wrap ''write gdpr log'' (stmt (write_gdpr_log now ?rec) d5))
               (\<lambda>_ d6. (Inr ?rec, d6)) = (Inr rec, d')"
    unfolding Let_def by (rule wrapped_stmt_ok) (rule that)
  from 5 obtain df v d6 where g: "agree d5 df" "write_gdpr_log now ?rec df = (Inr v, d6)"
      "(Inr ?rec, d6) = (Inr rec, d')" by (rule wrapped_stmt_ok) (rule that, simp_all)
  let ?R = "update_where (\<lambda>r. ur_id r = u \<and> live r) (anonymized now) (users (tb d))"
  have an: "distinct (map ur_username ?R)" "d2 = db\<lparr>tb := (tb d)\<lparr>users := ?R\<rparr>\<rparr>" "clock db = clock d"
    using b(2) agreeD [OF b(1)] a' x(3) by (auto simp: anonymize_user_def Let_def split: if_splits)
  note c' = agreeD [OF c(1)]
  have pu: "d3 = dc\<lparr>tb := (tb d2)\<lparr>messages := update_where (\<lambda>r. mr_sender_id r = u) purged (messages (tb d))\<rparr>\<rparr>"
    "k = count_where (\<lambda>r. mr_sender_id r = u) (messages (tb d))" "clock dc = clock d"
    using c(2) an by (auto simp: purge_messages_def Let_def c')
  note e' = agreeD [OF e(1)]
  have un: "(\<lambda>r. ir_created_by r = name \<and> ir_used_by r = None) = unused_invite_of name"
    by (simp add: fun_eq_iff unused_invite_of_def)
  have ex: "d4 = dd\<lparr>tb := (tb d3)\<lparr>invite_codes := update_where (unused_invite_of name)
        (\<lambda>r. r\<lparr>ir_expires_at := Some (clock d)\<rparr>) (invite_codes (tb d))\<rparr>\<rparr>"
    "m = count_where (unused_invite_of name) (invite_codes (tb d))" "clock dd = clock d"
    using e(2) pu an by (auto simp: expire_invites_def Let_def e' un)
  note f' = agreeD [OF f(1)]
  have de: "d5 = de\<lparr>tb := (tb d4)\<lparr>contacts := filter (\<lambda>c. \<not> (cr_user_id c = u \<or> cr_contact_id c = u))
        (contacts (tb d))\<rparr>\<rparr>" "clock de = clock d"
    using f(2) ex pu an by (auto simp: delete_contacts_def f')
  note g' = agreeD [OF g(1)]
  have rec: "rec = erasure_record x (tb d)"
    using g(3) pu(2) ex(2) xs(2) x(2) by (simp add: erasure_record_def)
  have er: "gdpr_UserID (erasure_record x t) = ur_id x" "PublicKeyCleared (erasure_record x t) = True" for t
    by (simp_all add: erasure_record_def)
  from g(2,3) rec have log: "tb d6 = (tb df)\<lparr>gdpr_deletion_log := gdpr_deletion_log (tb df) @
        [\<lparr>gr_user_id = ur_id x, gr_requested_at = clock df, gr_anonymized_at = now,
          gr_messages_purged = MessagesPurged (erasure_record x (tb d)), gr_public_key_cleared = True,
          gr_invites_expired = InvitesExpired (erasure_record x (tb d)),
          gr_notes = ''user-initiated deletion''\<rparr>]\<rparr>"
    by (auto simp: write_gdpr_log_def er split: if_splits)
  have "tb d6 = erased x now d"
    unfolding log erased_def using de ex(1) pu(1) an(2) xs(2) x(2)
    by (intro tables.equality) (simp_all add: g')
  then show thesis using that xs rec an(1) g(3) by blast
qed

lemma DeleteAccountGDPR_cases:
  assumes "DeleteAccountGDPR u now d = (res, d')"
  obtains (error) e where "res = Inl e" "unchanged d d'"
  | (ok) x where "res = Inr (erasure_record x (tb d))" "x \<in> set (users (tb d))" "ur_id x = u" "live x"
      "tb d' = erased x now d" "later d d'"
      "distinct (map ur_username (update_where (\<lambda>r. ur_id r = u \<and> live r) (anonymized now) (users (tb d))))"
proof (cases res)
  case (Inl e)
  with assms show thesis
    unfolding DeleteAccountGDPR_def
    by (intro that(1) [OF Inl]) (auto intro: in_tx_later(2) gdpr_body_later)
next
  case (Inr rec)
  have l: "later d d'"
    using assms unfolding DeleteAccountGDPR_def by (rule in_tx_later(1)) (rule gdpr_body_later)
  from assms [unfolded DeleteAccountGDPR_def Inr] obtain d0 d1
    where ag: "agree d d0" "gdpr_body u now d0 = (Inr rec, d1)" "agree d1 d'"
    by (cases rule: in_tx_cases) auto
  note eqs = agreeD [OF ag(1)] agreeD [OF ag(3)]
  have same: "erased x now d0 = erased x now d" for x by (simp add: erased_def eqs)
  from ag(2) show thesis
    by (rule gdpr_body_ok) (intro that(2); use Inr l in \<open>simp add: eqs same\<close>)
qed

lemma anonymized_fields [simp]:
  "ur_id (anonymized now r) = ur_id r" "ur_deleted_at (anonymized now r) = Some now"
  "ur_username (anonymized now r) = tombstone_name (ur_id r)"
  "ur_password_hash (anonymized now r) = []" "ur_public_key (anonymized now r) = None"
  "ur_push_token (anonymized now r) = ur_push_token r" "ur_created_at (anonymized now r) = ur_created_at r"
  by (simp_all add: anonymized_def)

lemma purged_fields [simp]:
  "mr_id (purged r) = mr_id r" "mr_sender_id (purged r) = mr_sender_id r"
  "mr_recipient_id (purged r) = mr_recipient_id r"
  "mr_client_message_id (purged r) = mr_client_message_id r"
  by (simp_all add: purged_def)

lemma erased_ids:
  "map ur_id (users (erased x now d)) = map ur_id (users (tb d))"
  "map mr_id (messages (erased x now d)) = map mr_id (messages (tb d))"
  "map ir_id (invite_codes (erased x now d)) = map ir_id (invite_codes (tb d))"
  "map ir_code (invite_codes (erased x now d)) = map ir_code (invite_codes (tb d))"
  by (simp_all add: erased_def map_update_where)

lemma erased_tables_ok:
  assumes "tables_ok (tb d)"
    "distinct (map ur_username (update_where (\<lambda>r. ur_id r = ur_id x \<and> live r) (anonymized now) (users (tb d))))"
  shows "tables_ok (erased x now d)"
proof (rule tables_okI)
  note ok = tables_okD [OF assms(1)]
  have ids: "ur_id ` set (users (erased x now d)) = ur_id ` set (users (tb d))"
    using erased_ids(1) by (metis set_map)
  show "users_ok (erased x now d)"
    using ok(1) assms(2) erased_ids(1) [of x now d] by (simp add: users_ok_def) (simp add: erased_def)
  have "messages_ok ((tb d)\<lparr>messages := update_where (\<lambda>r. mr_sender_id r = ur_id x) purged (messages (tb d))\<rparr>)"
    by (rule update_messages_ok [OF ok(2)]) simp_all
  then show "messages_ok (erased x now d)"
    by (rule messages_ok_mono [rotated -1]) (simp_all add: ids, simp add: erased_def)
  show "invites_ok (erased x now d)" using erased_ids(3,4) ok(3) by (rule invites_ok_cong)
  show "contacts_ok (erased x now d)"
    by (rule contacts_ok_mono [OF _ _ _ ok(4)])
      (simp_all add: ids, simp_all add: erased_def contacts_ok_distinct [OF ok(4)] subset_iff)
qed

lemma DeleteAccountGDPR_db_ok:
  assumes "db_ok d" "DeleteAccountGDPR u now d = (res, d')"
  shows "db_ok d'"
  using assms(2)
proof (cases rule: DeleteAccountGDPR_cases)
  case (error e)
  with assms(1) show ?thesis by (blast intro: db_ok_unchanged)
next
  case (ok x)
  have "tables_ok (tb d')"
    unfolding ok(5) using db_okD(1) [OF assms(1)] ok(3,7) by (intro erased_tables_ok) simp_all
  with ok(6) show ?thesis
    by (intro db_ok_update [OF assms(1)]) (simp_all add: ok(5) erased_ids)
qed

text \<open>
  The erasure of an account is one atomic step. If it succeeds, the account existed and was
  live, the tables are exactly \<open>erased\<close> (account tombstoned, own messages emptied, own unused
  codes expired, contact rows removed, one log row) and the record returned has the true
  counts; if it fails, whichever of its eight statements failed, no table has changed. The
  schema's constraints hold in both cases.
\<close>

theorem gdpr_atomic:
  assumes "db_ok d" "DeleteAccountGDPR u now d = (res, d')"
  shows "(case res of
      Inl _ \<Rightarrow> tb d' = tb d
    | Inr record \<Rightarrow> \<exists>x \<in> set (users (tb d)). ur_id x = u \<and> live x \<and>
        record = erasure_record x (tb d) \<and> tb d' = erased x now d) \<and> db_ok d'"
proof
  show "db_ok d'" using assms by (rule DeleteAccountGDPR_db_ok)
  from assms(2) show "case res of
      Inl _ \<Rightarrow> tb d' = tb d
    | Inr record \<Rightarrow> \<exists>x \<in> set (users (tb d)). ur_id x = u \<and> live x \<and>
        record = erasure_record x (tb d) \<and> tb d' = erased x now d"
    by (cases rule: DeleteAccountGDPR_cases) (auto simp: unchanged_def)
qed

lemma demo_gdpr:
  "DeleteAccountGDPR 1 500 demo_db =
     (Inr \<lparr>gdpr_UserID = 1, MessagesPurged = 2, PublicKeyCleared = True, InvitesExpired = 1\<rparr>,
      demo_db\<lparr>tb := erased (demo_user 1 ''alice'') 500 demo_db\<rparr>)"
  by (simp add: DeleteAccountGDPR_def in_tx_def gdpr_body_def lookup_username_def wrap_def
      anonymize_user_def purge_messages_def expire_invites_def delete_contacts_def write_gdpr_log_def
      erased_def erasure_record_def unused_invite_of_def int4_ok_def count_where_def select_one_def
      anonymized_def tombstone_name_def live_def Let_def demo_defs)

theorem gdpr_atomic_witness:
  "\<exists>record d'. DeleteAccountGDPR 1 500 demo_db = (Inr record, d') \<and> MessagesPurged record = 2 \<and> db_ok d'"
  using gdpr_atomic [OF db_ok_demo demo_gdpr] demo_gdpr by simp

text \<open>The account of the erased id in the new tables.\<close>

lemma erased_account:
  assumes "tables_ok (tb d)" "x \<in> set (users (tb d))" "live x" "r \<in> set (users (erased x now d))"
    "ur_id r = ur_id x"
  shows "r = anonymized now x"
proof -
  from assms(4) obtain y where y: "y \<in> set (users (tb d))"
    "r = (if ur_id y = ur_id x \<and> live y then anonymized now y else y)"
    unfolding erased_def update_where_def by auto
  with assms(5) have "ur_id y = ur_id x" by (auto split: if_splits)
  with assms(1,2) y(1) have "y = x"
    using tables_okD(1) [OF assms(1)] unfolding users_ok_def by (metis distinct_map_eq)
  with y(2) assms(3) show ?thesis by simp
qed

lemma select_one_live_None:
  "\<forall>r \<in> set rows. P r \<longrightarrow> \<not> live r \<Longrightarrow> select_one (\<lambda>r. P r \<and> live r) rows = None"
  unfolding select_one_None by blast

lemma erased_not_found:
  assumes "db_ok d" "DeleteAccountGDPR u now d = (Inr record, d')" "faults d' = []"
  shows "fst (GetUserByID u d') = Inl ErrUserNotFound"
    and "\<exists>x \<in> set (users (tb d)). ur_id x = u \<and> live x \<and> tb d' = erased x now d \<and>
           fst (GetUserByUsername (ur_username x) d') = Inl ErrUserNotFound \<and>
           fst (GetUserByUsername (tombstone_name u) d') = Inl ErrUserNotFound"
    and "fst (DeleteAccountGDPR u now2 d') = Inl ErrAlreadyDeleted"
proof -
  have ok': "db_ok d'" using assms(1,2) by (rule DeleteAccountGDPR_db_ok)
  note tok = db_okD(1) [OF assms(1)]
  from assms(2) obtain x where x: "x \<in> set (users (tb d))" "ur_id x = u" "live x" "tb d' = erased x now d"
    by (cases rule: DeleteAccountGDPR_cases) auto
  have acc: "r = anonymized now x" if "r \<in> set (users (tb d'))" "ur_id r = u" for r
    using erased_account [OF tok x(1,3)] that x by metis
  have dead: "\<not> live (anonymized now y)" for y by (simp add: live_def)
  have noid: "select_one (\<lambda>r. ur_id r = u \<and> live r) (users (tb d')) = None"
    by (rule select_one_live_None) (use acc dead in metis)
  then show "fst (GetUserByID u d') = Inl ErrUserNotFound"
    using assms(3) by (simp add: GetUserByID_def)
  show "fst (DeleteAccountGDPR u now2 d') = Inl ErrAlreadyDeleted"
    using assms(3) noid by (simp add: DeleteAccountGDPR_def in_tx_def gdpr_body_def lookup_username_def)
  have here: "anonymized now x \<in> set (users (tb d'))"
    unfolding x(4) erased_def update_where_def using x(1,3) by (auto intro!: rev_image_eqI [of x])
  have tomb: "\<not> live r" if "r \<in> set (users (tb d'))" "ur_username r = tombstone_name u" for r
  proof -
    have "distinct (map ur_username (users (tb d')))"
      using tables_okD(1) [OF db_okD(1) [OF ok']] by (simp add: users_ok_def)
    with that here x(2) have "r = anonymized now x" by (auto intro: distinct_map_eq)
    with dead show ?thesis by simp
  qed
  have old: "\<not> live r" if "r \<in> set (users (tb d'))" "ur_username r = ur_username x" for r
  proof
    assume l: "live r"
    from that(1) obtain y where y: "y \<in> set (users (tb d))"
      "r = (if ur_id y = ur_id x \<and> live y then anonymized now y else y)"
      unfolding x(4) erased_def update_where_def by auto
    with l dead have r: "r = y" by (auto split: if_splits)
    have "y = x"
      using tables_okD(1) [OF tok] x(1) y(1) that(2) r unfolding users_ok_def by (metis distinct_map_eq)
    with y(2) x(3) r have "r = anonymized now x" by simp
    with dead l show False by metis
  qed
  have "select_one (\<lambda>r. ur_username r = ur_username x \<and> live r) (users (tb d')) = None"
    "select_one (\<lambda>r. ur_username r = tombstone_name u \<and> live r) (users (tb d')) = None"
    by (rule select_one_live_None, use old tomb in blast)+
  then show "\<exists>x \<in> set (users (tb d)). ur_id x = u \<and> live x \<and> tb d' = erased x now d \<and>
           fst (GetUserByUsername (ur_username x) d') = Inl ErrUserNotFound \<and>
           fst (GetUserByUsername (tombstone_name u) d') = Inl ErrUserNotFound"
    using x assms(3) by (auto simp: GetUserByUsername_def)
qed

lemma filter_update_where: "(\<And>r. P r \<Longrightarrow> \<not> Q r \<and> \<not> Q (f r)) \<Longrightarrow> filter Q (update_where P f rows) = filter Q rows"
  by (induction rows) (auto simp: update_where_def)

text \<open>
  C2: what a successful erasure leaves. The account is found neither by id nor by its old name nor
  by its tombstone name, its row has neither hash nor public key, deleting it again fails, every
  message it sent is empty and unencrypted in every thread, and its unused codes cannot be consumed
  any more. Beyond that the tables are as before: the rows of other users, all messages up to
  body, IV and encryption of its own, all codes up to the expiry of its own unused ones, the
  contact rows that do not mention it. One audit record is appended, whose counts of messages and
  codes are the true ones.
\<close>

theorem gdpr_erases:
  assumes "db_ok d" "DeleteAccountGDPR u now d = (Inr record, d')" "faults d' = []"
  shows "fst (GetUserByID u d') = Inl ErrUserNotFound \<and>
    fst (GetUserByUsername (tombstone_name u) d') = Inl ErrUserNotFound \<and>
    fst (DeleteAccountGDPR u now2 d') = Inl ErrAlreadyDeleted \<and>
    (\<forall>r \<in> set (users (tb d')). ur_id r = u \<longrightarrow> ur_username r = tombstone_name u \<and> ur_password_hash r = [] \<and> ur_public_key r = None) \<and>
    (\<forall>m \<in> set (thread a b (tb d')). SenderID m = u \<longrightarrow> Body m = [] \<and> IV m = [] \<and> \<not> Encrypted m) \<and>
    filter (\<lambda>r. ur_id r \<noteq> u) (users (tb d')) = filter (\<lambda>r. ur_id r \<noteq> u) (users (tb d)) \<and>
    messages (tb d') = map (\<lambda>r. if mr_sender_id r = u then r\<lparr>mr_body := [], mr_iv := None, mr_encrypted := False\<rparr> else r)
      (messages (tb d)) \<and>
    contacts (tb d') = filter (\<lambda>c. cr_user_id c \<noteq> u \<and> cr_contact_id c \<noteq> u) (contacts (tb d)) \<and>
    (\<exists>x entry. x \<in> set (users (tb d)) \<and> ur_id x = u \<and> fst (GetUserByUsername (ur_username x) d') = Inl ErrUserNotFound \<and>
       (\<forall>r \<in> set (invite_codes (tb d')). ir_created_by r = ur_username x \<longrightarrow> clock d \<le> t \<longrightarrow> \<not> consumable (ir_code r) t r) \<and>
       invite_codes (tb d') = map (\<lambda>r. if ir_created_by r = ur_username x \<and> ir_used_by r = None
          then r\<lparr>ir_expires_at := Some (clock d)\<rparr> else r) (invite_codes (tb d)) \<and>
       gdpr_deletion_log (tb d') = gdpr_deletion_log (tb d) @ [entry] \<and>
       gr_user_id entry = u \<and> gr_anonymized_at entry = now \<and> gr_public_key_cleared entry \<and>
       gr_messages_purged entry = int (length (filter (\<lambda>r. mr_sender_id r = u) (messages (tb d)))) \<and>
       gr_invites_expired entry = int (length (filter (\<lambda>r. ir_created_by r = ur_username x \<and> ir_used_by r = None)
          (invite_codes (tb d)))) \<and>
       MessagesPurged record = gr_messages_purged entry \<and> InvitesExpired record = gr_invites_expired entry)"
proof -
  note nf = erased_not_found [OF assms]
  from nf(2) obtain x where x: "x \<in> set (users (tb d))" "ur_id x = u" "live x" "tb d' = erased x now d"
    "fst (GetUserByUsername (ur_username x) d') = Inl ErrUserNotFound"
    "fst (GetUserByUsername (tombstone_name u) d') = Inl ErrUserNotFound" by blast
  from gdpr_atomic [OF assms(1,2)] obtain y where y: "y \<in> set (users (tb d))" "ur_id y = u" "record = erasure_record y (tb d)"
    by auto
  with x(1,2) have "y = x"
    using tables_okD(1) [OF db_okD(1) [OF assms(1)]] unfolding users_ok_def by (metis distinct_map_eq)
  with y(3) have rec: "record = erasure_record x (tb d)" by simp
  have acc: "\<forall>r \<in> set (users (tb d')). ur_id r = u \<longrightarrow> ur_username r = tombstone_name u \<and> ur_password_hash r = [] \<and> ur_public_key r = None"
  proof (intro ballI impI)
    fix r
    assume "r \<in> set (users (tb d'))" "ur_id r = u"
    then have "r = anonymized now x"
      using erased_account [OF db_okD(1) [OF assms(1)] x(1,3)] x(2,4) by metis
    then show "ur_username r = tombstone_name u \<and> ur_password_hash r = [] \<and> ur_public_key r = None"
      using x(2) by (simp add: anonymized_def)
  qed
  have codes: "\<forall>r \<in> set (invite_codes (tb d')). ir_created_by r = ur_username x \<longrightarrow> clock d \<le> t \<longrightarrow>
      \<not> consumable (ir_code r) t r"
    unfolding x(4) erased_def update_where_def by (auto simp: consumable_def unused_invite_of_def)
  have msgs: "\<forall>m \<in> set (thread a b (tb d')). SenderID m = u \<longrightarrow> Body m = [] \<and> IV m = [] \<and> \<not> Encrypted m"
    unfolding thread_def x(4) erased_def update_where_def using x(2)
    by (auto simp: scanMsg_def selectCols_def purged_def)
  have us: "filter (\<lambda>r. ur_id r \<noteq> u) (users (tb d')) = filter (\<lambda>r. ur_id r \<noteq> u) (users (tb d))"
    unfolding x(4) erased_def tables.simps by (rule filter_update_where) (simp add: x(2) anonymized_def)
  have rows: "messages (tb d') = map (\<lambda>r. if mr_sender_id r = u then r\<lparr>mr_body := [], mr_iv := None, mr_encrypted := False\<rparr> else r)
      (messages (tb d))"
    "contacts (tb d') = filter (\<lambda>c. cr_user_id c \<noteq> u \<and> cr_contact_id c \<noteq> u) (contacts (tb d))"
    "invite_codes (tb d') = map (\<lambda>r. if ir_created_by r = ur_username x \<and> ir_used_by r = None
        then r\<lparr>ir_expires_at := Some (clock d)\<rparr> else r) (invite_codes (tb d))"
    unfolding x(4) erased_def update_where_def by (simp_all add: x(2) purged_def [abs_def] unused_invite_of_def)
  define entry where "entry = last (gdpr_deletion_log (tb d'))"
  have log: "gdpr_deletion_log (tb d') = gdpr_deletion_log (tb d) @ [entry]" "gr_user_id entry = u"
    "gr_anonymized_at entry = now" "gr_public_key_cleared entry"
    "gr_messages_purged entry = int (length (filter (\<lambda>r. mr_sender_id r = u) (messages (tb d))))"
    "gr_invites_expired entry = int (length (filter (\<lambda>r. ir_created_by r = ur_username x \<and> ir_used_by r = None)
          (invite_codes (tb d))))"
    "MessagesPurged record = gr_messages_purged entry" "InvitesExpired record = gr_invites_expired entry"
    unfolding entry_def rec x(4) erased_def by (simp_all add: x(2) erasure_record_def count_where_def unused_invite_of_def [abs_def])
  show ?thesis
    by (intro conjI exI [of _ x] exI [of _ entry]) (fact nf(1,3) x(1,2,5,6) acc msgs us rows codes log)+
qed

theorem gdpr_erases_witness:
  "\<exists>record d' entry. DeleteAccountGDPR 1 500 demo_db = (Inr record, d') \<and>
     fst (GetUserByID 1 d') = Inl ErrUserNotFound \<and>
     (\<forall>m \<in> set (thread 1 2 (tb d')). SenderID m = 1 \<longrightarrow> Body m = []) \<and>
     gdpr_deletion_log (tb d') = gdpr_deletion_log (tb demo_db) @ [entry] \<and> gr_messages_purged entry = 2"
proof -
  let ?d = "demo_db\<lparr>tb := erased (demo_user 1 ''alice'') 500 demo_db\<rparr>"
  have f: "faults ?d = []" by simp
  from gdpr_erases [OF db_ok_demo demo_gdpr f, of 0 1 2 0] obtain entry where
    "fst (GetUserByID 1 ?d) = Inl ErrUserNotFound" "\<forall>m \<in> set (thread 1 2 (tb ?d)). SenderID m = 1 \<longrightarrow> Body m = []"
    "gdpr_deletion_log (tb ?d) = gdpr_deletion_log (tb demo_db) @ [entry]" "2 = gr_messages_purged entry"
    by (elim conjE exE) simp
  with demo_gdpr show ?thesis by metis
qed

section \<open>What the erasure leaves behind\<close>

text \<open>
  The push token survives the erasure. \<open>DeleteAccountGDPR\<close> does not clear the column and
  \<open>GetPushToken\<close> does not look at \<open>deleted_at\<close>, so after a successful erasure the device token
  of the deleted account is still handed out.
\<close>

theorem gdpr_keeps_push_token:
  assumes "db_ok d" "DeleteAccountGDPR u now d = (Inr record, d')" "faults d = []" "faults d' = []"
  shows "fst (GetPushToken u d') = fst (GetPushToken u d)"
proof -
  from assms(2) obtain x where x: "x \<in> set (users (tb d))" "ur_id x = u" "live x" "tb d' = erased x now d"
    by (cases rule: DeleteAccountGDPR_cases) auto
  have ok: "distinct (map ur_id (users (tb d)))"
    using tables_okD(1) [OF db_okD(1) [OF assms(1)]] by (simp add: users_ok_def)
  have "select_one (\<lambda>r. ur_id r = u) (users (tb d)) = Some x"
    by (rule select_one_unique) (use x ok in \<open>auto intro: distinct_map_eq\<close>)
  moreover have "select_one (\<lambda>r. ur_id r = u) (users (tb d')) = Some (anonymized now x)"
  proof (rule select_one_unique)
    show "anonymized now x \<in> set (users (tb d'))"
      unfolding x(4) erased_def update_where_def using x(1,3) by (auto intro!: rev_image_eqI [of x])
    show "r = anonymized now x" if "r \<in> set (users (tb d'))" "ur_id r = u" for r
      using erased_account [OF db_okD(1) [OF assms(1)] x(1,3)] that x(2,4) by metis
  qed (simp add: x(2))
  ultimately show ?thesis using assms(3,4) by (simp add: GetPushToken_def)
qed

theorem gdpr_keeps_push_token_witness:
  "\<exists>record d'. DeleteAccountGDPR 1 500 demo_db = (Inr record, d') \<and> fst (GetPushToken 1 d') = Inr ''push-alice''"
proof -
  have f: "faults (demo_db\<lparr>tb := erased (demo_user 1 ''alice'') 500 demo_db\<rparr>) = []" by simp
  have "fst (GetPushToken 1 demo_db) = Inr ''push-alice''"
    by (simp add: GetPushToken_def select_one_def demo_defs)
  with gdpr_keeps_push_token [OF db_ok_demo demo_gdpr demo_faults f] demo_gdpr show ?thesis by metis
qed

text \<open>
  The tombstone name can be taken. If another account is called \<open>deleted_<id>\<close> of a user, the
  unique index refuses the tombstone name, so on a working connection the erasure of that
  user fails, at every attempt, and deletes nothing.
\<close>

theorem gdpr_blocked_by_name:
  assumes "x \<in> set (users (tb d))" "ur_id x = u" "live x" "db_ok d"
    and "y \<in> set (users (tb d))" "ur_id y \<noteq> u" "ur_username y = tombstone_name u" "faults d = []"
  shows "fst (DeleteAccountGDPR u now d) = Inl (ErrWrap ''anonymize user'' (DBError unique_violation)) \<and>
    tb (snd (DeleteAccountGDPR u now d)) = tb d"
proof -
  let ?P = "\<lambda>r. ur_id r = u \<and> live r"
  let ?rows = "update_where ?P (anonymized now) (users (tb d))"
  have ids: "map ur_id ?rows = map ur_id (users (tb d))" by (simp add: map_update_where)
  have dist: "distinct (map ur_id (users (tb d)))"
    using tables_okD(1) [OF db_okD(1) [OF assms(4)]] by (simp add: users_ok_def)
  have sel: "select_one ?P (users (tb d)) = Some x"
    by (rule select_one_unique) (use assms dist in \<open>auto intro: distinct_map_eq\<close>)
  have a: "anonymized now x \<in> set ?rows"
    unfolding update_where_def using assms(1-3) by (auto intro!: rev_image_eqI [of x])
  have b: "y \<in> set ?rows"
    unfolding update_where_def using assms(5,6) by (auto intro!: rev_image_eqI [of y])
  have "\<not> distinct (map ur_username ?rows)"
  proof
    assume "distinct (map ur_username ?rows)"
    with a b assms(2,7) have "anonymized now x = y" by (auto intro: distinct_map_eq)
    with assms(2,6) show False by auto
  qed
  with sel assms(8) show ?thesis
    by (simp add: DeleteAccountGDPR_def in_tx_def gdpr_body_def lookup_username_def wrap_def
        anonymize_user_def Let_def rollback_def)
qed

definition squatted_db :: db where
  "squatted_db = snd (RegisterWithInvite ''welcome'' ''deleted_1'' ''h'' demo_db)"

lemma squatted_users: "tb squatted_db = registered ''welcome'' ''deleted_1'' ''h'' demo_db"
  "faults squatted_db = []"
  by (simp_all add: squatted_db_def RegisterWithInvite_def in_tx_def register_body_def consume_update_def
      Let_def insert_user_def registered_def new_user_row_def count_where_def consumable_def demo_defs)

theorem gdpr_blocked_by_name_witness:
  "fst (DeleteAccountGDPR 1 500 squatted_db) = Inl (ErrWrap ''anonymize user'' (DBError unique_violation))"
proof -
  have ok: "db_ok squatted_db"
    unfolding squatted_db_def using RegisterWithInvite_db_ok [OF db_ok_demo] by (metis prod.collapse)
  have "FormatInt 1 = ''1''" by code_simp
  then have n: "tombstone_name 1 = ''deleted_1''" by (simp add: tombstone_name_def)
  have "demo_user 1 ''alice'' \<in> set (users (tb squatted_db))"
    "new_user_row ''deleted_1'' ''h'' demo_db \<in> set (users (tb squatted_db))"
    by (simp_all add: squatted_users registered_def demo_db_def)
  moreover have "live (demo_user 1 ''alice'')" "ur_id (demo_user 1 ''alice'') = 1"
    by (simp_all add: live_def demo_user_def)
  moreover have "ur_id (new_user_row ''deleted_1'' ''h'' demo_db) \<noteq> 1"
    "ur_username (new_user_row ''deleted_1'' ''h'' demo_db) = tombstone_name 1"
    using n by (simp_all add: new_user_row_def demo_db_def)
  ultimately show ?thesis
    using gdpr_blocked_by_name [of "demo_user 1 ''alice''" squatted_db 1 "new_user_row ''deleted_1'' ''h'' demo_db" 500]
      ok squatted_users(2) by blast
qed

section \<open>Contacts as a relation\<close>

lemma set_join_users:
  "(c, x) \<in> set (join_users f t) \<longleftrightarrow> c \<in> set (contacts t) \<and> x \<in> set (users t) \<and> ur_id x = f c"
  by (auto simp: join_users_def)

lemma join_users_keys:
  assumes "users_ok t" "\<forall>c \<in> set (contacts t). f c \<in> ur_id ` set (users t)"
  shows "map fst (join_users f t) = contacts t"
proof -
  have "map fst (concat (map (\<lambda>c. map (\<lambda>x. (c, x)) (filter (\<lambda>x. ur_id x = f c) (users t))) cs)) = cs"
    if "\<forall>c \<in> set cs. f c \<in> ur_id ` set (users t)" for cs
    using that
  proof (induction cs)
    case (Cons c cs)
    then obtain x where "x \<in> set (users t)" "ur_id x = f c" by auto
    then have "filter (\<lambda>x. ur_id x = f c) (users t) = [x]"
      using filter_unique_key [of ur_id "users t" x] assms(1) by (simp add: users_ok_def)
    with Cons show ?case by simp
  qed simp
  with assms(2) show ?thesis by (simp add: join_users_def)
qed

lemma distinct_joined:
  assumes "tables_ok t" "f = cr_contact_id \<and> g = cr_user_id \<or> f = cr_user_id \<and> g = cr_contact_id"
  shows "distinct (map (\<lambda>(c, x). f c) (filter (\<lambda>(c, x). g c = u \<and> live x) (join_users f t)))"
proof -
  note ok = tables_okD(1,4) [OF assms(1)]
  have "map fst (join_users f t) = contacts t"
    by (rule join_users_keys [OF ok(1)]) (use ok(2) assms(2) in \<open>auto simp: contacts_ok_def\<close>)
  then have "distinct (map fst (join_users f t))" using ok(2) by (simp add: contacts_ok_def)
  then have d: "distinct (join_users f t)" and i: "inj_on fst (set (join_users f t))"
    by (simp_all add: distinct_map)
  have "inj_on (\<lambda>(c, x). f c) (set (filter (\<lambda>(c, x). g c = u \<and> live x) (join_users f t)))"
  proof (rule inj_onI, clarsimp)
    fix c x c' x'
    assume h: "(c, x) \<in> set (join_users f t)" "u = g c" "(c', x') \<in> set (join_users f t)" "g c' = g c" "f c = f c'"
    then have "c = c'" using assms(2) by (auto intro: contact_row.equality)
    with i h(1,3) show "c = c' \<and> x = x'" unfolding inj_on_def by fastforce
  qed
  with d show ?thesis by (simp add: distinct_map distinct_filter)
qed

lemma query_fst: "fst (query f d) = Inr x \<Longrightarrow> x = f (tb d)"
  by (metis prod.collapse query_Inr)

lemma contact_row_eqI:
  "cr_user_id c = u \<Longrightarrow> cr_contact_id c = v \<Longrightarrow> (c :: contact_row) = \<lparr>cr_user_id = u, cr_contact_id = v\<rparr>"
  by (cases c) simp

lemma graph_iff:
  "(u, v) \<in> graph t \<longleftrightarrow> (\<exists>c \<in> set (contacts t). cr_user_id c = u \<and> cr_contact_id c = v)"
proof
  assume "\<exists>c \<in> set (contacts t). cr_user_id c = u \<and> cr_contact_id c = v"
  then obtain c where c: "c \<in> set (contacts t)" "cr_user_id c = u" "cr_contact_id c = v" by blast
  have "\<lparr>cr_user_id = u, cr_contact_id = v\<rparr> \<in> set (contacts t)"
    using c(1) by (subst contact_row_eqI [OF c(2,3), symmetric])
  then show "(u, v) \<in> graph t" by (simp add: graph_def)
next
  assume "(u, v) \<in> graph t"
  then have "\<lparr>cr_user_id = u, cr_contact_id = v\<rparr> \<in> set (contacts t)" by (simp add: graph_def)
  then show "\<exists>c \<in> set (contacts t). cr_user_id c = u \<and> cr_contact_id c = v"
    by (rule rev_bexI) simp
qed

lemma AddContact_spec:
  "case AddContact u n d of
     (Inl _, d') \<Rightarrow> tb d' = tb d
   | (Inr _, d') \<Rightarrow> \<exists>x \<in> set (users (tb d)). ur_username x = n \<and> live x \<and>
       graph (tb d') = insert (u, ur_id x) (graph (tb d))"
proof (cases "AddContact u n d")
  case (Pair res d')
  then show ?thesis
  proof (cases rule: AddContact_cases)
    case (error e)
    with Pair show ?thesis by (simp add: agreeD)
  next
    case (ok x)
    have "\<exists>x \<in> set (users (tb d)). ur_username x = n \<and> live x \<and>
       graph (tb d') = insert (u, ur_id x) (graph (tb d))"
      using ok(2-4,6) by blast
    with Pair ok(1) show ?thesis by simp
  qed
qed

lemma RemoveContact_spec:
  "case RemoveContact u n d of
     (Inl _, d') \<Rightarrow> tb d' = tb d
   | (Inr _, d') \<Rightarrow> \<exists>x \<in> set (users (tb d)). ur_username x = n \<and> (u, ur_id x) \<in> graph (tb d) \<and>
       graph (tb d') = graph (tb d) - {(u, ur_id x)}"
proof (cases "RemoveContact u n d")
  case (Pair res d')
  then show ?thesis
  proof (cases rule: RemoveContact_cases)
    case (error e)
    with Pair show ?thesis by (simp add: unchanged_def)
  next
    case (ok x)
    have "\<exists>x \<in> set (users (tb d)). ur_username x = n \<and> (u, ur_id x) \<in> graph (tb d) \<and>
       graph (tb d') = graph (tb d) - {(u, ur_id x)}"
      using ok(2-5) by blast
    with Pair ok(1) show ?thesis by simp
  qed
qed

lemma ListContacts_spec:
  assumes "tables_ok (tb d)" "fst (ListContacts collate u d) = Inr cs"
  shows "sorted (map (\<lambda>c. collate (contact_Username c)) cs)" "distinct (map contact_ID cs)"
    "contact_ID ` set cs = {v. (u, v) \<in> graph (tb d) \<and> (\<exists>x \<in> set (users (tb d)). ur_id x = v \<and> live x)}"
proof -
  let ?t = "tb d"
  let ?js = "filter (\<lambda>(c, x). cr_user_id c = u \<and> live x) (join_users cr_contact_id ?t)"
  let ?row = "\<lambda>(c, x). \<lparr>contact_ID = ur_id x, contact_Username = ur_username x, contact_Online = False\<rparr>"
  let ?key = "\<lambda>(c, x). collate (ur_username x)"
  have cs: "cs = map ?row (sort_key ?key ?js)"
    by (rule query_fst [OF assms(2) [unfolded ListContacts_def]])
  have "(\<lambda>c. collate (contact_Username c)) \<circ> ?row = ?key" by (auto simp: fun_eq_iff)
  then have "map (\<lambda>c. collate (contact_Username c)) cs = map ?key (sort_key ?key ?js)" by (simp add: cs)
  then show "sorted (map (\<lambda>c. collate (contact_Username c)) cs)" by simp
  have "map contact_ID (map ?row ?js) = map (\<lambda>(c, x). cr_contact_id c) ?js"
    by (auto simp: set_join_users)
  moreover have "distinct (map (\<lambda>(c, x). cr_contact_id c) ?js)"
    by (rule distinct_joined [OF assms(1)]) simp
  ultimately have "distinct (map contact_ID (map ?row ?js))" by (simp only:)
  then have "distinct (map (contact_ID \<circ> ?row) ?js)" by (simp only: map_map)
  then have "distinct (map (contact_ID \<circ> ?row) (sort_key ?key ?js))" by (simp only: distinct_sort_key_map)
  then show "distinct (map contact_ID cs)" by (simp add: cs)
  have "contact_ID ` set cs = {v. \<exists>c x. (c, x) \<in> set (join_users cr_contact_id ?t) \<and> cr_user_id c = u \<and> live x \<and> v = ur_id x}"
    by (auto simp: cs image_iff; blast)
  also have "\<dots> = {v. (u, v) \<in> graph ?t \<and> (\<exists>x \<in> set (users ?t). ur_id x = v \<and> live x)}"
  proof (rule Collect_cong)
    fix v
    show "(\<exists>c x. (c, x) \<in> set (join_users cr_contact_id ?t) \<and> cr_user_id c = u \<and> live x \<and> v = ur_id x) \<longleftrightarrow>
        (u, v) \<in> graph ?t \<and> (\<exists>x \<in> set (users ?t). ur_id x = v \<and> live x)"
      unfolding set_join_users graph_iff by (metis (no_types, lifting))
  qed
  finally show "contact_ID ` set cs = {v. (u, v) \<in> graph ?t \<and> (\<exists>x \<in> set (users ?t). ur_id x = v \<and> live x)}" .
qed

lemma GetContactFollowerIDs_spec:
  assumes "tables_ok (tb d)" "fst (GetContactFollowerIDs u d) = Inr ids"
  shows "distinct ids"
    "set ids = {v. (v, u) \<in> graph (tb d) \<and> (\<exists>x \<in> set (users (tb d)). ur_id x = v \<and> live x)}"
proof -
  let ?t = "tb d"
  have ids: "ids = map (\<lambda>(c, x). cr_user_id c)
      (filter (\<lambda>(c, x). cr_contact_id c = u \<and> live x) (join_users cr_user_id ?t))"
    by (rule query_fst [OF assms(2) [unfolded GetContactFollowerIDs_def]])
  show "distinct ids" unfolding ids by (rule distinct_joined [OF assms(1)]) simp
  have "set ids = {v. \<exists>c x. (c, x) \<in> set (join_users cr_user_id ?t) \<and> cr_contact_id c = u \<and> live x \<and> v = cr_user_id c}"
    by (auto simp: ids image_iff)
  also have "\<dots> = {v. (v, u) \<in> graph ?t \<and> (\<exists>x \<in> set (users ?t). ur_id x = v \<and> live x)}"
  proof (rule Collect_cong)
    fix v
    show "(\<exists>c x. (c, x) \<in> set (join_users cr_user_id ?t) \<and> cr_contact_id c = u \<and> live x \<and> v = cr_user_id c) \<longleftrightarrow>
        (v, u) \<in> graph ?t \<and> (\<exists>x \<in> set (users ?t). ur_id x = v \<and> live x)"
      unfolding set_join_users graph_iff by (metis (no_types, lifting))
  qed
  finally show "set ids = {v. (v, u) \<in> graph ?t \<and> (\<exists>x \<in> set (users ?t). ur_id x = v \<and> live x)}" .
qed

lemma IsContact_spec:
  assumes "fst (IsContact u v d) = Inr b"
  shows "b \<longleftrightarrow> (u, v) \<in> graph (tb d)"
proof -
  have "b = list_ex (\<lambda>c. cr_user_id c = u \<and> cr_contact_id c = v) (contacts (tb d))"
    by (rule query_fst [OF assms [unfolded IsContact_def]])
  then show ?thesis by (simp add: list_ex_iff graph_iff)
qed

text \<open>
  The contact operations implement a relation between accounts. A successful \<open>AddContact\<close> adds
  the pair of the caller and the live account of that name, a successful \<open>RemoveContact\<close> takes
  away a pair that was there, a failed one changes nothing; \<open>IsContact\<close> is membership,
  \<open>ListContacts\<close> lists the live accounts the caller is related to, each once and sorted by name,
  and \<open>GetContactFollowerIDs\<close> the live accounts related to the caller, each once.
\<close>

theorem contacts_refine_relation:
  assumes "db_ok d"
  shows "(case AddContact u n d of
            (Inl _, d') \<Rightarrow> tb d' = tb d
          | (Inr _, d') \<Rightarrow> \<exists>x \<in> set (users (tb d)). ur_username x = n \<and> live x \<and>
              graph (tb d') = insert (u, ur_id x) (graph (tb d))) \<and>
    (case RemoveContact u n d of
            (Inl _, d') \<Rightarrow> tb d' = tb d
          | (Inr _, d') \<Rightarrow> \<exists>x \<in> set (users (tb d)). ur_username x = n \<and> (u, ur_id x) \<in> graph (tb d) \<and>
              graph (tb d') = graph (tb d) - {(u, ur_id x)}) \<and>
    (\<forall>b. fst (IsContact u v d) = Inr b \<longrightarrow> b = ((u, v) \<in> graph (tb d))) \<and>
    (\<forall>cs. fst (ListContacts collate u d) = Inr cs \<longrightarrow>
       sorted (map (\<lambda>c. collate (contact_Username c)) cs) \<and> distinct (map contact_ID cs) \<and>
       contact_ID ` set cs = {w. (u, w) \<in> graph (tb d) \<and> (\<exists>x \<in> set (users (tb d)). ur_id x = w \<and> live x)}) \<and>
    (\<forall>ids. fst (GetContactFollowerIDs u d) = Inr ids \<longrightarrow> distinct ids \<and>
       set ids = {w. (w, u) \<in> graph (tb d) \<and> (\<exists>x \<in> set (users (tb d)). ur_id x = w \<and> live x)})"
proof (intro conjI allI impI)
  note tok = db_okD(1) [OF assms]
  show "case AddContact u n d of
            (Inl _, d') \<Rightarrow> tb d' = tb d
          | (Inr _, d') \<Rightarrow> \<exists>x \<in> set (users (tb d)). ur_username x = n \<and> live x \<and>
              graph (tb d') = insert (u, ur_id x) (graph (tb d))"
    by (rule AddContact_spec)
  show "case RemoveContact u n d of
            (Inl _, d') \<Rightarrow> tb d' = tb d
          | (Inr _, d') \<Rightarrow> \<exists>x \<in> set (users (tb d)). ur_username x = n \<and> (u, ur_id x) \<in> graph (tb d) \<and>
              graph (tb d') = graph (tb d) - {(u, ur_id x)}"
    by (rule RemoveContact_spec)
  fix b assume "fst (IsContact u v d) = Inr b"
  then show "b = ((u, v) \<in> graph (tb d))" using IsContact_spec by blast
next
  fix cs assume "fst (ListContacts collate u d) = Inr cs"
  from ListContacts_spec [OF db_okD(1) [OF assms] this]
  show "sorted (map (\<lambda>c. collate (contact_Username c)) cs)" "distinct (map contact_ID cs)"
    "contact_ID ` set cs = {w. (u, w) \<in> graph (tb d) \<and> (\<exists>x \<in> set (users (tb d)). ur_id x = w \<and> live x)}" .
next
  fix ids assume "fst (GetContactFollowerIDs u d) = Inr ids"
  from GetContactFollowerIDs_spec [OF db_okD(1) [OF assms] this]
  show "distinct ids"
    "set ids = {w. (w, u) \<in> graph (tb d) \<and> (\<exists>x \<in> set (users (tb d)). ur_id x = w \<and> live x)}" .
qed

theorem contacts_refine_relation_witness:
  "\<exists>d'. AddContact 1 ''carol'' demo_db = (Inr (), d') \<and> (1, 3) \<in> graph (tb d') \<and> (3, 1) \<notin> graph (tb demo_db)"
proof -
  obtain d' where d: "AddContact 1 ''carol'' demo_db = (Inr (), d')"
    by (simp add: AddContact_def lookup_live_id_def insert_contact_def select_one_def live_def demo_defs)
  with contacts_refine_relation [OF db_ok_demo, where u = 1 and n = "''carol''" and v = 1 and collate = length]
  obtain x where "x \<in> set (users (tb demo_db))" "ur_username x = ''carol''"
    "graph (tb d') = insert (1, ur_id x) (graph (tb demo_db))" by auto
  then have "(1, 3) \<in> graph (tb d')" by (auto simp: demo_defs)
  with d show ?thesis by (auto simp: graph_def demo_defs)
qed

section \<open>The user store keeps the constraints\<close>

lemma CreateUser_db_ok:
  assumes "db_ok d" "CreateUser n h d = (res, d')"
  shows "db_ok d'"
  using assms(2) [unfolded CreateUser_def]
proof (cases rule: and_then_cases)
  case (error e)
  from error(1) have "unchanged d d'"
  proof (cases rule: stmt_cases)
    case (ok d1)
    from ok(2) have "unchanged d1 d'" by (cases rule: insert_user_cases) (simp_all add: unchanged_def later_def)
    with ok(1) show ?thesis by (blast intro: agree_unchanged unchanged_trans)
  qed (rule agree_unchanged)
  with assms(1) show ?thesis by (rule db_ok_unchanged [rotated])
next
  case (ok x d1)
  from ok(1) obtain d0 where d0: "agree d d0" "insert_user n h d0 = (Inr x, d1)"
    by (cases rule: stmt_cases) auto
  have "db_ok d0" using assms(1) d0(1) by (simp add: db_ok_agree)
  moreover from d0(2) have "n \<notin> ur_username ` set (users (tb d0))" "tb d1 = (tb d0)\<lparr>users := users (tb d0) @ [new_user_row n h d0]\<rparr>"
    "user_seq d1 = user_seq d0 + 1" "msg_seq d1 = msg_seq d0" "invite_seq d1 = invite_seq d0"
    by (cases rule: insert_user_cases; simp)+
  ultimately have "db_ok d1" by (rule db_ok_add_user)
  with ok(2) show ?thesis by simp
qed

lemma update_users_db_ok:
  assumes "db_ok d" "update_users P f d = (res, d')"
    and "\<And>r. ur_id (f r) = ur_id r" "\<And>r. ur_username (f r) = ur_username r"
  shows "db_ok d'"
  using assms(2) unfolding update_users_def
proof (cases rule: stmt_cases)
  case (fault e)
  with assms(1) show ?thesis by (simp add: db_ok_agree)
next
  case (ok d0)
  have d0: "db_ok d0" using assms(1) ok(1) by (simp add: db_ok_agree)
  let ?rows = "update_where P f (users (tb d0))"
  have ids: "map ur_id ?rows = map ur_id (users (tb d0))" "map ur_username ?rows = map ur_username (users (tb d0))"
    by (rule map_update_where, rule assms)+
  have d': "d' = d0\<lparr>tb := (tb d0)\<lparr>users := ?rows\<rparr>\<rparr>" using ok(2) by simp
  note u = tables_okD(1) [OF db_okD(1) [OF d0], unfolded users_ok_def]
  have "ur_id ` set (users (tb d0)) \<subseteq> ur_id ` set ?rows" using ids(1) by (metis order_refl set_map)
  then have "tables_ok (tb d')"
    unfolding d' using u by (simp add: tables_ok_users [OF db_okD(1) [OF d0]] ids)
  then show ?thesis by (rule db_ok_update [OF d0]) (simp_all add: d' ids)
qed

lemma AddContact_db_ok:
  assumes "db_ok d" "AddContact u n d = (res, d')"
  shows "db_ok d'"
  using assms(2)
proof (cases rule: AddContact_cases)
  case (error e)
  with assms(1) show ?thesis by (simp add: db_ok_agree)
next
  case (ok x)
  have "tables_ok (tb d')" using ok(11) db_okD(1) [OF assms(1)] by blast
  then show ?thesis using ok(7-10) by (intro db_ok_update [OF assms(1)]) simp_all
qed

lemma RemoveContact_db_ok:
  assumes "db_ok d" "RemoveContact u n d = (res, d')"
  shows "db_ok d'"
  using assms(2)
proof (cases rule: RemoveContact_cases)
  case (error e)
  with assms(1) show ?thesis by (blast intro: db_ok_unchanged)
next
  case (ok x)
  have "tables_ok (tb d')"
    unfolding ok(7) by (rule delete_contacts_tables_ok [OF db_okD(1) [OF assms(1)]])
  then show ?thesis using ok(6) by (intro db_ok_update [OF assms(1)]) (simp_all add: ok(7))
qed

lemma stmt_read_agree:
  assumes "\<And>d0. snd (q d0) = d0"
  shows "agree d (snd (stmt q d))"
proof (cases "stmt q d")
  case (Pair r d')
  then show ?thesis
  proof (cases rule: stmt_cases)
    case (ok d1)
    then have "d' = d1" using assms [of d1] by simp
    with ok(1) Pair show ?thesis by simp
  qed (use Pair in simp)
qed

lemma query_read_agree: "agree d (snd (query f d))"
  unfolding query_def by (rule stmt_read_agree) simp

lemma user_reads_agree:
  "agree d (snd (GetUserByUsername n d))" "agree d (snd (GetByUsername n d))"
  "agree d (snd (GetUserByID u d))" "agree d (snd (ListUsers collate d))"
  "agree d (snd (SearchUsers ilike collate q d))" "agree d (snd (GetPublicKeyByUsername n d))"
  "agree d (snd (GetPushToken u d))" "agree d (snd (Ping d))" "agree d (snd (GetInviteCode c d))"
  "agree d (snd (AdminListInvites d))" "agree d (snd (ListContacts collate u d))"
  "agree d (snd (GetContactFollowerIDs u d))" "agree d (snd (IsContact u v d))"
  unfolding GetByUsername_def GetUserByUsername_def GetUserByID_def ListUsers_def SearchUsers_def
    GetPublicKeyByUsername_def GetPushToken_def Ping_def GetInviteCode_def AdminListInvites_def
    ListContacts_def GetContactFollowerIDs_def IsContact_def
  by (rule query_read_agree stmt_read_agree; simp split: option.split)+

text \<open>
  Every operation of the user store keeps the schema's constraints, whatever statement
  fails: what the handlers get as \<open>userStorer\<close> never leaves the database inconsistent.
\<close>

theorem user_store_keeps_db_ok:
  assumes "db_ok d" "s = pg_user_store ilike collate"
  shows "db_ok (snd (us_RegisterWithInvite s c n h d)) \<and> db_ok (snd (us_CreateUser s n h d)) \<and>
    db_ok (snd (us_ConsumeInviteCode s c n d)) \<and> db_ok (snd (us_SetPublicKey s u k d)) \<and>
    db_ok (snd (us_SetPushToken s u k d)) \<and> db_ok (snd (us_UpdatePassword s u h d)) \<and>
    db_ok (snd (us_AdminCreateInvite s c n ex d)) \<and> db_ok (snd (us_AdminResetInvite s c d)) \<and>
    db_ok (snd (us_AddContact s u n d)) \<and> db_ok (snd (us_RemoveContact s u n d)) \<and>
    db_ok (snd (us_DeleteAccountGDPR s u now d)) \<and>
    db_ok (snd (us_GetUserByUsername s n d)) \<and> db_ok (snd (us_GetByUsername s n d)) \<and>
    db_ok (snd (us_GetUserByID s u d)) \<and> db_ok (snd (us_ListUsers s d)) \<and>
    db_ok (snd (us_SearchUsers s q d)) \<and> db_ok (snd (us_GetPublicKeyByUsername s n d)) \<and>
    db_ok (snd (us_GetPushToken s u d)) \<and> db_ok (snd (us_Ping s d)) \<and>
    db_ok (snd (us_AdminListInvites s d)) \<and> db_ok (snd (us_ListContacts s u d)) \<and>
    db_ok (snd (us_GetContactFollowerIDs s u d)) \<and> db_ok (snd (us_IsContact s u v d))"
proof -
  have writes: "db_ok (snd (RegisterWithInvite c n h d))" "db_ok (snd (CreateUser n h d))"
    "db_ok (snd (ConsumeInviteCode c n d))" "db_ok (snd (AdminCreateInvite c n ex d))"
    "db_ok (snd (AdminResetInvite c d))" "db_ok (snd (AddContact u n d))"
    "db_ok (snd (RemoveContact u n d))" "db_ok (snd (DeleteAccountGDPR u now d))"
    using assms(1) RegisterWithInvite_db_ok CreateUser_db_ok ConsumeInviteCode_db_ok
      AdminCreateInvite_db_ok AdminResetInvite_db_ok AddContact_db_ok RemoveContact_db_ok
      DeleteAccountGDPR_db_ok by (metis prod.collapse)+
  have updates: "db_ok (snd (SetPublicKey u k d))" "db_ok (snd (SetPushToken u k d))"
    "db_ok (snd (UpdatePassword u h d))"
    unfolding SetPublicKey_def SetPushToken_def UpdatePassword_def
    by (rule update_users_db_ok [OF assms(1) surjective_pairing]; simp)+
  have reads: "db_ok (snd (q d))" if "agree d (snd (q d))" for q :: "db \<Rightarrow> 'b result \<times> db"
    using that assms(1) by (simp add: db_ok_agree)
  show ?thesis
    unfolding assms(2) pg_user_store_def user_storer.simps
    by (intro conjI writes updates) (rule reads, rule user_reads_agree)+
qed

theorem user_store_keeps_db_ok_witness:
  "db_ok (snd (us_DeleteAccountGDPR (pg_user_store (=) length) 1 500 demo_db)) \<and>
   db_ok (snd (us_AddContact (pg_user_store (=) length) 1 ''carol'' demo_db))"
  using user_store_keeps_db_ok [OF db_ok_demo refl, of "(=)" "length"] by blast

end
