(* ===== verification/Account_Contract.thy ===== *)
theory Account_Contract
  imports Contact_Store
begin

text \<open>
  What the HTTP handlers rely on when they call \<open>userStorer\<close>: a finite map from ids to live
  accounts, with one account per name and ids that are never given out twice. The locale states
  it for any store; the interpretation shows that the PostgreSQL store of \<open>User_Store\<close> and
  \<open>Contact_Store\<close> keeps it, failing statements included.
\<close>

section \<open>The contract\<close>

locale accounts =
  fixes us :: "'d user_storer"
    and inv :: "'d \<Rightarrow> bool"
    and acct :: "'d \<Rightarrow> int64 \<Rightarrow> user option"
    and ever :: "'d \<Rightarrow> int64 set"
  assumes acct_id: "inv d \<Longrightarrow> acct d i = Some u \<Longrightarrow> UserID u = i \<and> i \<in> ever d"
    and acct_name: "inv d \<Longrightarrow> acct d i = Some u \<Longrightarrow> acct d j = Some v \<Longrightarrow> Username u = Username v \<Longrightarrow> i = j"
    and by_id: "inv d \<Longrightarrow> us_GetUserByID us i d = (res, d') \<Longrightarrow>
      inv d' \<and> acct d' = acct d \<and> ever d' = ever d \<and>
      (case res of Inr u \<Rightarrow> acct d i = Some u
       | Inl e \<Rightarrow> e = ErrUserNotFound \<and> acct d i = None \<or> (\<exists>s. e = DBError s))"
    and by_name: "inv d \<Longrightarrow> us_GetUserByUsername us n d = (res, d') \<Longrightarrow>
      inv d' \<and> acct d' = acct d \<and> ever d' = ever d \<and>
      (case res of Inr u \<Rightarrow> acct d (UserID u) = Some u \<and> Username u = n
       | Inl e \<Rightarrow> e = ErrUserNotFound \<and> (\<forall>i u. acct d i = Some u \<longrightarrow> Username u \<noteq> n) \<or> (\<exists>s. e = DBError s))"
    and same_lookup: "us_GetByUsername us = us_GetUserByUsername us"
    and set_password: "inv d \<Longrightarrow> us_UpdatePassword us i h d = (ures, d') \<Longrightarrow>
      inv d' \<and> ever d' = ever d \<and>
      acct d' = (case ures of
          Inr _ \<Rightarrow> (acct d)(i := map_option (\<lambda>u. u\<lparr>PasswordHash := h\<rparr>) (acct d i))
        | Inl _ \<Rightarrow> acct d)"
    and set_key: "inv d \<Longrightarrow> us_SetPublicKey us i k d = (ures, d') \<Longrightarrow>
      inv d' \<and> ever d' = ever d \<and>
      acct d' = (case ures of
          Inr _ \<Rightarrow> (acct d)(i := map_option (\<lambda>u. u\<lparr>PublicKey := k\<rparr>) (acct d i))
        | Inl _ \<Rightarrow> acct d)"
    and erase: "inv d \<Longrightarrow> us_DeleteAccountGDPR us i now d = (eres, d') \<Longrightarrow>
      inv d' \<and> ever d' = ever d \<and>
      (case eres of Inr _ \<Rightarrow> acct d i \<noteq> None \<and> acct d' = (acct d)(i := None) | Inl _ \<Rightarrow> acct d' = acct d)"
    and register: "inv d \<Longrightarrow> us_RegisterWithInvite us c n h d = (rres, d') \<Longrightarrow>
      inv d' \<and>
      (case rres of
         Inr u \<Rightarrow> u = \<lparr>UserID = UserID u, Username = n, PasswordHash = h, PublicKey = []\<rparr> \<and>
           UserID u \<notin> ever d \<and> ever d' = insert (UserID u) (ever d) \<and>
           acct d' = (acct d)(UserID u \<mapsto> u) \<and> (\<forall>i v. acct d i = Some v \<longrightarrow> Username v \<noteq> n)
       | Inl _ \<Rightarrow> acct d' = acct d \<and> ever d' = ever d)"
begin

text \<open>A lookup by name and one by id that both succeed agree when the id's account has the name.\<close>

lemma same_account:
  assumes "inv d" "acct d i = Some u" "acct d (UserID v) = Some v" "Username u = Username v"
  shows "v = u"
  using assms acct_name by fastforce

text \<open>An id that was given out and is no longer live stays so.\<close>

lemma erased_gone:
  assumes "inv d" "us_DeleteAccountGDPR us i now d = (Inr rec, d')"
  shows "i \<in> ever d' \<and> acct d' i = None"
  using erase [OF assms] acct_id [OF assms(1), of i] by auto

lemma gone_stays:
  assumes "inv d" "i \<in> ever d" "acct d i = None"
  shows "us_RegisterWithInvite us c n h d = (rres, d') \<Longrightarrow> i \<in> ever d' \<and> acct d' i = None"
    "us_UpdatePassword us j h d = (ures, d') \<Longrightarrow> i \<in> ever d' \<and> acct d' i = None"
    "us_DeleteAccountGDPR us j now d = (eres, d') \<Longrightarrow> i \<in> ever d' \<and> acct d' i = None"
proof -
  assume "us_RegisterWithInvite us c n h d = (rres, d')"
  from register [OF assms(1) this] assms(2,3) show "i \<in> ever d' \<and> acct d' i = None"
    by (auto split: sum.splits)
next
  assume "us_UpdatePassword us j h d = (ures, d')"
  from set_password [OF assms(1) this] assms(2,3) show "i \<in> ever d' \<and> acct d' i = None"
    by (auto split: sum.splits)
next
  assume "us_DeleteAccountGDPR us j now d = (eres, d')"
  from erase [OF assms(1) this] assms(2,3) show "i \<in> ever d' \<and> acct d' i = None"
    by (auto split: sum.splits)
qed

end

section \<open>The PostgreSQL store keeps it\<close>

definition live_account :: "db \<Rightarrow> int64 \<Rightarrow> user option" where
  "live_account d i = map_option scan_user (select_one (\<lambda>r. ur_id r = i \<and> live r) (users (tb d)))"

definition known_ids :: "db \<Rightarrow> int64 set" where
  "known_ids d = ur_id ` set (users (tb d))"

lemma same_tables:
  assumes "tb d' = tb d"
  shows "live_account d' = live_account d" "known_ids d' = known_ids d"
  using assms by (simp_all add: live_account_def known_ids_def fun_eq_iff)

lemma agree_accounts:
  assumes "agree d d'"
  shows "live_account d' = live_account d" "known_ids d' = known_ids d" "db_ok d' = db_ok d"
  using agreeD(1) [OF assms] db_ok_agree [OF assms] same_tables [of d' d] by simp_all

lemma unchanged_accounts:
  assumes "unchanged d d'"
  shows "live_account d' = live_account d" "known_ids d' = known_ids d"
  using assms same_tables [of d' d] by (simp_all add: unchanged_def)

lemma scan_user_fields [simp]:
  "UserID (scan_user r) = ur_id r" "Username (scan_user r) = ur_username r"
  "PasswordHash (scan_user r) = ur_password_hash r"
  by (simp_all add: scan_user_def)

lemma users_distinct: "db_ok d \<Longrightarrow> distinct (map ur_id (users (tb d))) \<and> distinct (map ur_username (users (tb d)))"
  by (simp add: ok_defs)

lemma live_account_row:
  assumes "live_account d i = Some u"
  obtains r where "r \<in> set (users (tb d))" "ur_id r = i" "live r" "u = scan_user r"
  using assms select_one_Some unfolding live_account_def by fastforce

lemma live_account_Some:
  assumes "db_ok d" "r \<in> set (users (tb d))" "live r"
  shows "live_account d (ur_id r) = Some (scan_user r)"
proof -
  have "select_one (\<lambda>x. ur_id x = ur_id r \<and> live x) (users (tb d)) = Some r"
    by (rule select_one_unique [OF assms(2)])
      (use assms users_distinct [OF assms(1)] distinct_map_eq in auto)
  then show ?thesis by (simp add: live_account_def)
qed

lemma live_account_None: "live_account d i = None \<longleftrightarrow> (\<forall>r \<in> set (users (tb d)). \<not> (ur_id r = i \<and> live r))"
  by (simp add: live_account_def select_one_None)

lemma live_account_eqI:
  assumes "\<And>r. r \<in> set (users (tb d)) \<Longrightarrow> live r \<Longrightarrow> ur_id r = i \<Longrightarrow> u = Some (scan_user r)"
    "(\<And>r. r \<in> set (users (tb d)) \<Longrightarrow> live r \<Longrightarrow> ur_id r \<noteq> i) \<Longrightarrow> u = None"
  shows "live_account d i = u"
proof (cases "live_account d i")
  case None
  then have "\<And>r. r \<in> set (users (tb d)) \<Longrightarrow> live r \<Longrightarrow> ur_id r \<noteq> i"
    by (auto simp: live_account_None)
  then have "u = None" by (rule assms(2))
  with None show ?thesis by simp
next
  case (Some v)
  then show ?thesis by (rule live_account_row) (use assms(1) Some in auto)
qed

lemma update_users_live:
  assumes "db_ok d" "update_users (\<lambda>r. ur_id r = i) f d = (ures, d')"
    and "\<And>r. ur_id (f r) = ur_id r" "\<And>r. ur_username (f r) = ur_username r" "\<And>r. live (f r) = live r"
    and "\<And>r. scan_user (f r) = g (scan_user r)"
  shows "db_ok d' \<and> known_ids d' = known_ids d \<and>
    live_account d' = (case ures of
        Inr _ \<Rightarrow> (live_account d)(i := map_option g (live_account d i))
      | Inl _ \<Rightarrow> live_account d)"
proof
  show "db_ok d'" by (rule update_users_db_ok [OF assms(1-4)])
  from assms(2) [unfolded update_users_def]
  show "known_ids d' = known_ids d \<and> live_account d' = (case ures of
        Inr _ \<Rightarrow> (live_account d)(i := map_option g (live_account d i))
      | Inl _ \<Rightarrow> live_account d)"
  proof (cases rule: stmt_cases)
    case (fault e)
    then show ?thesis using agree_accounts [OF fault(2)] by simp
  next
    case (ok d1)
    let ?rows = "update_where (\<lambda>r. ur_id r = i) f (users (tb d))"
    have t: "users (tb d') = ?rows" "ures = Inr ()" using ok by (auto simp: agreeD)
    have known: "known_ids d' = known_ids d"
      using map_update_where [of "\<lambda>r. ur_id r = i" ur_id f "users (tb d)"] assms(3)
      unfolding known_ids_def t(1) by (metis set_map)
    have "live_account d' j = ((live_account d)(i := map_option g (live_account d i))) j" for j
    proof (rule live_account_eqI)
      fix r assume "r \<in> set (users (tb d'))" "live r" "ur_id r = j"
      then obtain x where x: "x \<in> set (users (tb d))" "r = (if ur_id x = i then f x else x)" "live x" "ur_id x = j"
        unfolding t(1) update_where_def using assms(3,5) by (auto split: if_splits)
      with live_account_Some [OF assms(1) x(1,3)] assms(6)
      show "((live_account d)(i := map_option g (live_account d i))) j = Some (scan_user r)"
        by (cases "j = i") auto
    next
      assume none: "\<And>r. r \<in> set (users (tb d')) \<Longrightarrow> live r \<Longrightarrow> ur_id r \<noteq> j"
      have "live_account d j = None"
        unfolding live_account_None
      proof
        fix x assume "x \<in> set (users (tb d))"
        then have "(if ur_id x = i then f x else x) \<in> set (users (tb d'))"
          unfolding t(1) update_where_def by auto
        from none [OF this] show "\<not> (ur_id x = j \<and> live x)" using assms(3,5) by (cases "ur_id x = i") auto
      qed
      then show "((live_account d)(i := map_option g (live_account d i))) j = None" by auto
    qed
    then show ?thesis using t(2) known by auto
  qed
qed

lemma lookup_by_name_cases:
  assumes "GetUserByUsername n d = (res, d')"
  obtains (fault) e where "res = Inl (DBError e)" "agree d d'"
  | (none) "res = Inl ErrUserNotFound" "agree d d'" "\<forall>x \<in> set (users (tb d)). \<not> (ur_username x = n \<and> live x)"
  | (found) x where "res = Inr (scan_user x)" "agree d d'" "x \<in> set (users (tb d))" "ur_username x = n" "live x"
  using assms [unfolded GetUserByUsername_def]
proof (cases rule: stmt_cases)
  case (ok d1)
  note ag = agreeD [OF ok(1)]
  show thesis
  proof (cases "select_one (\<lambda>r. ur_username r = n \<and> live r) (users (tb d1))")
    case None
    then have "\<forall>x \<in> set (users (tb d)). \<not> (ur_username x = n \<and> live x)"
      unfolding ag(1) select_one_None by simp
    with None ok show thesis by (intro none) auto
  next
    case (Some x)
    then have "x \<in> set (users (tb d1)) \<and> ur_username x = n \<and> live x" by (rule select_one_Some)
    with Some ok ag show thesis by (intro found [of x]) auto
  qed
qed (rule fault)

lemma lookup_by_id_cases:
  assumes "GetUserByID i d = (res, d')"
  obtains (fault) e where "res = Inl (DBError e)" "agree d d'"
  | (none) "res = Inl ErrUserNotFound" "agree d d'" "live_account d i = None"
  | (found) u where "res = Inr u" "agree d d'" "live_account d i = Some u"
  using assms [unfolded GetUserByID_def]
proof (cases rule: stmt_cases)
  case (ok d1)
  then show thesis
    using none found unfolding live_account_def
    by (cases "select_one (\<lambda>r. ur_id r = i \<and> live r) (users (tb d1))") (auto simp: agreeD)
qed (rule fault)

lemma register_live:
  assumes "db_ok d" "RegisterWithInvite c n h d = (Inr u, d')"
  shows "u = \<lparr>UserID = UserID u, Username = n, PasswordHash = h, PublicKey = []\<rparr> \<and>
    UserID u \<notin> known_ids d \<and> known_ids d' = insert (UserID u) (known_ids d) \<and>
    live_account d' = (live_account d)(UserID u \<mapsto> u) \<and>
    (\<forall>i v. live_account d i = Some v \<longrightarrow> Username v \<noteq> n)"
  using assms(2)
proof (cases rule: RegisterWithInvite_cases)
  case ok
  let ?r = "new_user_row n h d"
  have us: "users (tb d') = users (tb d) @ [?r]" by (simp add: ok(4) registered_def)
  have fresh: "user_seq d \<notin> known_ids d"
    using fresh_user_id [OF assms(1)] by (simp add: known_ids_def)
  have u: "u = \<lparr>UserID = user_seq d, Username = n, PasswordHash = h, PublicKey = []\<rparr>" using ok(1) by simp
  have scan: "scan_user ?r = u" "live ?r" "ur_id ?r = user_seq d"
    by (simp_all add: scan_user_def new_user_row_def u live_def)
  have "live_account d' j = ((live_account d)(UserID u \<mapsto> u)) j" for j
  proof (rule live_account_eqI)
    fix r assume r: "r \<in> set (users (tb d'))" "live r" "ur_id r = j"
    show "((live_account d)(UserID u \<mapsto> u)) j = Some (scan_user r)"
    proof (cases "r = ?r")
      case True
      with r scan show ?thesis by (simp add: u)
    next
      case False
      then have m: "r \<in> set (users (tb d))" using r us by auto
      then have "ur_id r \<in> known_ids d" by (simp add: known_ids_def)
      with fresh have "ur_id r \<noteq> user_seq d" by metis
      with live_account_Some [OF assms(1) m r(2)] r(3) show ?thesis by (simp add: u)
    qed
  next
    assume none: "\<And>r. r \<in> set (users (tb d')) \<Longrightarrow> live r \<Longrightarrow> ur_id r \<noteq> j"
    have "j \<noteq> user_seq d" using none [of ?r] us scan by auto
    moreover have "live_account d j = None"
      unfolding live_account_None using none us by auto
    ultimately show "((live_account d)(UserID u \<mapsto> u)) j = None" by (simp add: u)
  qed
  then have "live_account d' = (live_account d)(UserID u \<mapsto> u)" by blast
  moreover have "Username v \<noteq> n" if "live_account d i = Some v" for i v
    using that by (rule live_account_row) (use ok(3) in auto)
  moreover have "known_ids d' = insert (UserID u) (known_ids d)"
    by (simp add: known_ids_def us scan u)
  ultimately show ?thesis using fresh by (simp add: u)
qed simp

lemma erase_live:
  assumes "db_ok d" "DeleteAccountGDPR i now d = (Inr rec, d')"
  shows "known_ids d' = known_ids d \<and> live_account d i \<noteq> None \<and> live_account d' = (live_account d)(i := None)"
  using assms(2)
proof (cases rule: DeleteAccountGDPR_cases)
  case (ok x)
  have us: "users (tb d') = update_where (\<lambda>r. ur_id r = i \<and> live r) (anonymized now) (users (tb d))"
    by (simp add: ok(3,5) erased_def)
  have dead: "\<not> live (anonymized now r)" for r by (simp add: live_def)
  have "known_ids d' = known_ids d"
    using erased_ids(1) [of x now d] unfolding known_ids_def ok(5) by (metis set_map)
  moreover have "live_account d i \<noteq> None" using live_account_Some [OF assms(1) ok(2,4)] ok(3) by simp
  moreover have "live_account d' j = ((live_account d)(i := None)) j" for j
  proof (rule live_account_eqI)
    fix r assume r: "r \<in> set (users (tb d'))" "live r" "ur_id r = j"
    then obtain y where y: "y \<in> set (users (tb d))" "r = (if ur_id y = i \<and> live y then anonymized now y else y)"
      unfolding us update_where_def by auto
    with r(2) dead have "r = y" "ur_id y \<noteq> i" by (auto split: if_splits)
    with live_account_Some [OF assms(1) y(1)] r show "((live_account d)(i := None)) j = Some (scan_user r)" by auto
  next
    assume none: "\<And>r. r \<in> set (users (tb d')) \<Longrightarrow> live r \<Longrightarrow> ur_id r \<noteq> j"
    have "live_account d j = None" if "j \<noteq> i"
      unfolding live_account_None
    proof
      fix y assume "y \<in> set (users (tb d))"
      then have "(if ur_id y = i \<and> live y then anonymized now y else y) \<in> set (users (tb d'))"
        unfolding us update_where_def by auto
      from none [OF this] that show "\<not> (ur_id y = j \<and> live y)" by (cases "ur_id y = i") auto
    qed
    then show "((live_account d)(i := None)) j = None" by simp
  qed
  ultimately show ?thesis by blast
qed simp

interpretation pg: accounts "pg_user_store ilike collate" db_ok live_account known_ids
  for ilike collate
proof
  fix d i j u v
  assume ok: "db_ok d"
  show "UserID u = i \<and> i \<in> known_ids d" if "live_account d i = Some u"
    using that by (rule live_account_row) (auto simp: known_ids_def)
  show "i = j" if a: "live_account d i = Some u" and b: "live_account d j = Some v"
    and c: "Username u = Username v"
  proof -
    obtain r where r: "r \<in> set (users (tb d))" "ur_id r = i" "u = scan_user r"
      using a by (rule live_account_row)
    obtain s where s: "s \<in> set (users (tb d))" "ur_id s = j" "v = scan_user s"
      using b by (rule live_account_row)
    have "r = s" using users_distinct [OF ok] r s c by (intro distinct_map_eq [of ur_username]) auto
    with r s show ?thesis by simp
  qed
next
  fix d d' i and res :: "user result"
  assume ok: "db_ok d" and r: "us_GetUserByID (pg_user_store ilike collate) i d = (res, d')"
  from r have "GetUserByID i d = (res, d')" by (simp add: pg_user_store_def)
  then show "db_ok d' \<and> live_account d' = live_account d \<and> known_ids d' = known_ids d \<and>
      (case res of Inr u \<Rightarrow> live_account d i = Some u
       | Inl e \<Rightarrow> e = ErrUserNotFound \<and> live_account d i = None \<or> (\<exists>s. e = DBError s))"
    by (cases rule: lookup_by_id_cases; use ok agree_accounts [of d d'] in simp)
next
  fix d d' n and res :: "user result"
  assume ok: "db_ok d" and r: "us_GetUserByUsername (pg_user_store ilike collate) n d = (res, d')"
  from r have "GetUserByUsername n d = (res, d')" by (simp add: pg_user_store_def)
  then show "db_ok d' \<and> live_account d' = live_account d \<and> known_ids d' = known_ids d \<and>
      (case res of Inr u \<Rightarrow> live_account d (UserID u) = Some u \<and> Username u = n
       | Inl e \<Rightarrow> e = ErrUserNotFound \<and> (\<forall>i u. live_account d i = Some u \<longrightarrow> Username u \<noteq> n) \<or>
           (\<exists>s. e = DBError s))"
  proof (cases rule: lookup_by_name_cases)
    case none
    then have "\<forall>i u. live_account d i = Some u \<longrightarrow> Username u \<noteq> n"
      by (auto elim!: live_account_row)
    with none(1) ok agree_accounts [OF none(2)] show ?thesis by simp
  qed (use ok agree_accounts [of d d'] live_account_Some [OF ok] in \<open>simp_all\<close>)
next
  show "us_GetByUsername (pg_user_store ilike collate) = us_GetUserByUsername (pg_user_store ilike collate)"
    by (simp add: pg_user_store_def GetByUsername_def fun_eq_iff)
next
  fix d d' i h and ures :: "unit result"
  assume ok: "db_ok d" and r: "us_UpdatePassword (pg_user_store ilike collate) i h d = (ures, d')"
  then show "db_ok d' \<and> known_ids d' = known_ids d \<and> live_account d' = (case ures of
        Inr _ \<Rightarrow> (live_account d)(i := map_option (\<lambda>u. u\<lparr>PasswordHash := h\<rparr>) (live_account d i))
      | Inl _ \<Rightarrow> live_account d)"
    by (intro update_users_live [where f = "\<lambda>r. r\<lparr>ur_password_hash := h\<rparr>"])
      (simp_all add: pg_user_store_def UpdatePassword_def live_def scan_user_def)
next
  fix d d' i k and ures :: "unit result"
  assume ok: "db_ok d" and r: "us_SetPublicKey (pg_user_store ilike collate) i k d = (ures, d')"
  then show "db_ok d' \<and> known_ids d' = known_ids d \<and> live_account d' = (case ures of
        Inr _ \<Rightarrow> (live_account d)(i := map_option (\<lambda>u. u\<lparr>PublicKey := k\<rparr>) (live_account d i))
      | Inl _ \<Rightarrow> live_account d)"
    by (intro update_users_live [where f = "\<lambda>r. r\<lparr>ur_public_key := Some k\<rparr>"])
      (simp_all add: pg_user_store_def SetPublicKey_def live_def scan_user_def)
next
  fix d d' i now and eres :: "GDPRDeletionRecord result"
  assume ok: "db_ok d" and r: "us_DeleteAccountGDPR (pg_user_store ilike collate) i now d = (eres, d')"
  then have r: "DeleteAccountGDPR i now d = (eres, d')" by (simp add: pg_user_store_def)
  show "db_ok d' \<and> known_ids d' = known_ids d \<and>
      (case eres of Inr _ \<Rightarrow> live_account d i \<noteq> None \<and> live_account d' = (live_account d)(i := None)
       | Inl _ \<Rightarrow> live_account d' = live_account d)"
  proof (cases eres)
    case (Inl e)
    with r have "unchanged d d'" by (auto elim: DeleteAccountGDPR_cases)
    with Inl show ?thesis
      using DeleteAccountGDPR_db_ok [OF ok r] unchanged_accounts [of d d'] by simp
  next
    case (Inr rec)
    show ?thesis using DeleteAccountGDPR_db_ok [OF ok r] erase_live [OF ok r [unfolded Inr]] Inr by simp
  qed
next
  fix d d' c n h and rres :: "user result"
  assume ok: "db_ok d" and r: "us_RegisterWithInvite (pg_user_store ilike collate) c n h d = (rres, d')"
  then have r: "RegisterWithInvite c n h d = (rres, d')" by (simp add: pg_user_store_def)
  show "db_ok d' \<and> (case rres of
         Inr u \<Rightarrow> u = \<lparr>UserID = UserID u, Username = n, PasswordHash = h, PublicKey = []\<rparr> \<and>
           UserID u \<notin> known_ids d \<and> known_ids d' = insert (UserID u) (known_ids d) \<and>
           live_account d' = (live_account d)(UserID u \<mapsto> u) \<and>
           (\<forall>i v. live_account d i = Some v \<longrightarrow> Username v \<noteq> n)
       | Inl _ \<Rightarrow> live_account d' = live_account d \<and> known_ids d' = known_ids d)"
  proof (cases rres)
    case (Inl e)
    with r have "unchanged d d'" by (auto elim: RegisterWithInvite_cases)
    with Inl show ?thesis
      using RegisterWithInvite_db_ok [OF ok r] unchanged_accounts [of d d'] by simp
  next
    case (Inr u)
    show ?thesis using RegisterWithInvite_db_ok [OF ok r] register_live [OF ok r [unfolded Inr]] Inr by simp
  qed
qed

end
