(* ===== verification/Metrics.thy ===== *)
theory Metrics
  imports Prelude Complex_Main
begin

text \<open>
  The Prometheus collectors of the server (\<open>observability_middleware.go\<close>) and of the notification
  service (\<open>metrics.go\<close>): what is declared, how it is registered, and the calls the services make
  on the collectors, kept in the order they are made. The registry of the client library is a
  parameter; the value of a counter is what the calls on it add up to.
\<close>

section \<open>Collectors\<close>

text \<open>\<open>DefBuckets\<close> is the default of the client library.\<close>

datatype buckets = DefBuckets | Buckets "rat list"

datatype collector_kind = Counter | Gauge | Histogram buckets

record collector =
  co_name :: string
  co_kind :: collector_kind
  co_labels :: "string list"

definition httpRequests :: collector where
  "httpRequests = \<lparr>co_name = ''http_requests_total'', co_kind = Counter,
     co_labels = [''method'', ''route'', ''status'']\<rparr>"

definition httpDuration :: collector where
  "httpDuration = \<lparr>co_name = ''http_request_duration_seconds'', co_kind = Histogram DefBuckets,
     co_labels = [''method'', ''route'']\<rparr>"

definition ActiveWSConnections :: collector where
  "ActiveWSConnections = \<lparr>co_name = ''ws_active_connections'', co_kind = Gauge, co_labels = []\<rparr>"

definition WSMessagesReceived :: collector where
  "WSMessagesReceived = \<lparr>co_name = ''ws_messages_received_total'', co_kind = Counter, co_labels = [''type'']\<rparr>"

definition WSRateLimitRejections :: collector where
  "WSRateLimitRejections = \<lparr>co_name = ''ws_rate_limit_rejections_total'', co_kind = Counter, co_labels = []\<rparr>"

definition MessagesSent :: collector where
  "MessagesSent = \<lparr>co_name = ''messages_sent_total'', co_kind = Counter, co_labels = []\<rparr>"

definition MessageDeduplicated :: collector where
  "MessageDeduplicated = \<lparr>co_name = ''messages_deduplicated_total'', co_kind = Counter, co_labels = []\<rparr>"

definition MessagePublishFailures :: collector where
  "MessagePublishFailures = \<lparr>co_name = ''messages_publish_failures_total'', co_kind = Counter, co_labels = []\<rparr>"

definition DBQueryDuration :: collector where
  "DBQueryDuration = \<lparr>co_name = ''db_query_duration_seconds'',
     co_kind = Histogram (Buckets [1/1000, 5/1000, 10/1000, 25/1000, 50/1000, 100/1000, 250/1000, 500/1000, 1, 2500/1000]),
     co_labels = [''operation'']\<rparr>"

definition HTTPRateLimitRejections :: collector where
  "HTTPRateLimitRejections = \<lparr>co_name = ''http_rate_limit_rejections_total'', co_kind = Counter,
     co_labels = [''limiter'']\<rparr>"

definition RedisOpDuration :: collector where
  "RedisOpDuration = \<lparr>co_name = ''redis_op_duration_seconds'',
     co_kind = Histogram (Buckets [1/10000, 5/10000, 10/10000, 25/10000, 50/10000, 100/10000, 250/10000, 500/10000, 1000/10000]),
     co_labels = [''operation'']\<rparr>"

text \<open>The arguments of \<open>MustRegister\<close> in \<open>InitHTTPMetrics\<close>, and those in the notification service.\<close>

definition http_metrics :: "collector list" where
  "http_metrics =
     [httpRequests, httpDuration, ActiveWSConnections, WSMessagesReceived, WSRateLimitRejections, MessagesSent,
      MessageDeduplicated, MessagePublishFailures, DBQueryDuration, HTTPRateLimitRejections, RedisOpDuration]"

definition notifier_metrics :: "collector list" where
  "notifier_metrics =
     [\<lparr>co_name = ''notifications_sent_total'', co_kind = Counter, co_labels = []\<rparr>,
      \<lparr>co_name = ''notifications_skipped_online_total'', co_kind = Counter, co_labels = []\<rparr>,
      \<lparr>co_name = ''notification_delivery_errors_total'', co_kind = Counter, co_labels = []\<rparr>,
      \<lparr>co_name = ''notification_delivery_duration_seconds'', co_kind = Histogram DefBuckets, co_labels = []\<rparr>]"

section \<open>Registration\<close>

text \<open>
  \<open>MustRegister\<close> is a parameter; \<open>None\<close> is its panic. \<open>sync.Once\<close> runs its function at the first
  call and counts it as done even if it panics.
\<close>

definition InitHTTPMetrics ::
  "(collector list \<Rightarrow> 'reg \<Rightarrow> 'reg option) \<Rightarrow> bool \<times> 'reg \<Rightarrow> unit option \<times> bool \<times> 'reg" where
  "InitHTTPMetrics MustRegister st =
     (case st of (once, reg) \<Rightarrow>
        if once then (Some (), True, reg)
        else (case MustRegister http_metrics reg of
                None \<Rightarrow> (None, True, reg)
              | Some reg' \<Rightarrow> (Some (), True, reg')))"

text \<open>\<open>init\<close> of \<open>metrics.go\<close>.\<close>

definition init_notifier_metrics :: "(collector list \<Rightarrow> 'reg \<Rightarrow> 'reg option) \<Rightarrow> 'reg \<Rightarrow> 'reg option" where
  "init_notifier_metrics MustRegister = MustRegister notifier_metrics"

text \<open>
  What the client library documents: a panic comes from a collector whose name is taken or whose
  description is invalid (bucket bounds that do not increase, a label twice).
\<close>

definition valid_collector :: "collector \<Rightarrow> bool" where
  "valid_collector c \<longleftrightarrow> co_name c \<noteq> [] \<and> distinct (co_labels c) \<and>
     (case co_kind c of Histogram (Buckets bs) \<Rightarrow> sorted_wrt (<) bs | _ \<Rightarrow> True)"

definition register_law :: "(collector list \<Rightarrow> 'reg \<Rightarrow> 'reg option) \<Rightarrow> ('reg \<Rightarrow> collector list) \<Rightarrow> bool" where
  "register_law MustRegister registered \<longleftrightarrow>
     (\<forall>cs reg. (\<forall>c \<in> set cs. valid_collector c) \<and> distinct (map co_name cs) \<and>
        co_name ` set cs \<inter> co_name ` set (registered reg) = {} \<longrightarrow>
        (\<exists>reg'. MustRegister cs reg = Some reg' \<and> registered reg' = registered reg @ cs))"

section \<open>Calls on the collectors\<close>

text \<open>
  \<open>Inc\<close>, \<open>Dec\<close> and \<open>Observe\<close>, with the label values given to \<open>WithLabelValues\<close>; an observed duration
  is in nanoseconds.
\<close>

datatype metric_op = Inc collector "string list" | Dec collector | Observe collector "string list" time

definition ObserveDBQuery :: "string \<Rightarrow> time \<Rightarrow> time \<Rightarrow> metric_op" where
  "ObserveDBQuery operation start now = Observe DBQueryDuration [operation] (now - start)"

definition ObserveRedisOp :: "string \<Rightarrow> time \<Rightarrow> time \<Rightarrow> metric_op" where
  "ObserveRedisOp operation start now = Observe RedisOpDuration [operation] (now - start)"

text \<open>
  The calls the library accepts: the collector is of the kind and is given one value for each of
  its labels; \<open>WithLabelValues\<close> panics otherwise.
\<close>

fun op_ok :: "metric_op \<Rightarrow> bool" where
  "op_ok (Inc c ls) = (co_kind c \<in> {Counter, Gauge} \<and> length ls = length (co_labels c))"
| "op_ok (Dec c) = (co_kind c = Gauge \<and> co_labels c = [])"
| "op_ok (Observe c ls dt) = (co_kind c \<notin> {Counter, Gauge} \<and> length ls = length (co_labels c))"

declare op_ok.simps [simp del]

text \<open>The value of the series of a collector with some label values.\<close>

fun series_value :: "collector \<Rightarrow> string list \<Rightarrow> metric_op list \<Rightarrow> int" where
  "series_value c ls [] = 0"
| "series_value c ls (Inc d ks # ops) = (if d = c \<and> ks = ls then 1 else 0) + series_value c ls ops"
| "series_value c ls (Dec d # ops) = (if d = c \<and> ls = [] then - 1 else 0) + series_value c ls ops"
| "series_value c ls (Observe d ks dt # ops) = series_value c ls ops"

lemma series_value_append [simp]: "series_value c ls (xs @ ys) = series_value c ls xs + series_value c ls ys"
  by (induction c ls xs rule: series_value.induct) simp_all

text \<open>A counter never falls.\<close>

lemma counter_monotone:
  assumes "\<forall>op \<in> set ys. op_ok op" "co_kind c = Counter"
  shows "series_value c ls xs \<le> series_value c ls (xs @ ys)"
proof -
  have "0 \<le> series_value c ls ys"
    using assms by (induction c ls ys rule: series_value.induct) (auto simp: op_ok.simps)
  then show ?thesis by simp
qed

lemmas collector_defs =
  httpRequests_def httpDuration_def ActiveWSConnections_def WSMessagesReceived_def WSRateLimitRejections_def
  MessagesSent_def MessageDeduplicated_def MessagePublishFailures_def DBQueryDuration_def
  HTTPRateLimitRejections_def RedisOpDuration_def

text \<open>The calls on the counters that the handlers make.\<close>

lemma counted_ok [simp]:
  "op_ok (Inc MessagesSent [])" "op_ok (Inc MessageDeduplicated [])" "op_ok (Inc MessagePublishFailures [])"
  "op_ok (Inc ActiveWSConnections [])" "op_ok (Dec ActiveWSConnections)" "op_ok (Inc WSRateLimitRejections [])"
  "op_ok (Inc WSMessagesReceived [ty])"
  by (simp_all add: collector_defs op_ok.simps)

lemma http_metrics_valid:
  "\<forall>c \<in> set http_metrics. valid_collector c" "distinct (map co_name http_metrics)"
  "\<forall>c \<in> set notifier_metrics. valid_collector c" "distinct (map co_name notifier_metrics)"
  by (simp_all add: http_metrics_def notifier_metrics_def valid_collector_def collector_defs)

text \<open>
  On a registry where none of the names is taken the first call registers the eleven collectors
  and every further call (a second router in the same process) changes nothing.
\<close>

theorem metrics_registered_once:
  assumes "register_law MustRegister registered" "co_name ` set http_metrics \<inter> co_name ` set (registered reg) = {}"
  shows "\<exists>reg'. InitHTTPMetrics MustRegister (False, reg) = (Some (), True, reg') \<and>
    registered reg' = registered reg @ http_metrics \<and> InitHTTPMetrics MustRegister (True, reg') = (Some (), True, reg')"
proof -
  obtain reg' where "MustRegister http_metrics reg = Some reg'" "registered reg' = registered reg @ http_metrics"
    using assms http_metrics_valid(1,2) unfolding register_law_def by blast
  then show ?thesis by (auto simp: InitHTTPMetrics_def)
qed

text \<open>A registry that keeps the collectors in a list.\<close>

theorem metrics_registered_once_witness:
  "\<exists>reg'. InitHTTPMetrics (\<lambda>cs reg. if co_name ` set cs \<inter> co_name ` set reg = {} then Some (reg @ cs) else None) (False, []) =
     (Some (), True, reg') \<and> reg' = http_metrics"
proof -
  have "register_law (\<lambda>cs reg. if co_name ` set cs \<inter> co_name ` set reg = {} then Some (reg @ cs) else None) (\<lambda>reg. reg)"
    unfolding register_law_def by simp
  from metrics_registered_once [OF this, of "[]"] show ?thesis by simp
qed

end
