(* ===== verification/Server.thy ===== *)
theory Server
  imports Tokens Presence Hub Account_Contract Metrics
begin

text \<open>
  The state the handlers of \<open>internal/http\<close> work on, and the values they were constructed with.
  The world holds the database and the Redis server as the stores and the client library see
  them, the hub of this instance, the three rate limiters of \<open>NewRouter\<close>, goroutines that were
  started and have not run yet, the application's clock, the random bytes still to be drawn and the
  counters of this process as the calls made on them. Logging leaves no trace, and neither do the
  histograms of durations (\<open>ObserveDBQuery\<close>, \<open>ObserveRedisOp\<close>), since no time passes inside a handler.
\<close>

section \<open>Events and goroutines\<close>

record MessageCreatedEvent =
  mc_MessageID :: int64
  mc_SenderID :: int64
  mc_RecipientID :: int64
  mc_ClientMessageID :: string
  mc_TraceContext :: "(string \<times> string) list"

record MessageDeletedEvent =
  md_MessageID :: int64
  md_SenderID :: int64
  md_RecipientID :: int64

datatype job =
    JobPublishCreated MessageCreatedEvent
  | JobPublishDeleted MessageDeletedEvent
  | JobKeyChanged int64 string

section \<open>The world and the server's parts\<close>

record ('d, 's, 'l) world =
  w_db :: 'd
  w_rd :: 's
  w_hub :: "'l hub"
  w_jobs :: "job list"
  w_now :: time
  w_entropy :: "string option list"
  w_ipLimiter :: "'l KeyedLimiter"
  w_idLimiter :: "'l KeyedLimiter"
  w_userLimiter :: "'l KeyedLimiter"
  w_metrics :: "metric_op list"

text \<open>
  \<open>golang.org/x/crypto/bcrypt\<close> with the salt's random bytes as an argument, and what depends on
  Go's Unicode tables: full case folding and case mapping.
\<close>

record bcrypt =
  GenerateFromPassword :: "string option \<Rightarrow> string \<Rightarrow> string option"
  CompareHashAndPassword :: "string \<Rightarrow> string \<Rightarrow> bool"

record unicode =
  uc_EqualFold :: "string \<Rightarrow> string \<Rightarrow> bool"
  uc_ToLower :: "string \<Rightarrow> string"
  uc_ToUpper :: "string \<Rightarrow> string"

record ('d, 's, 'l) server =
  sv_users :: "'d user_storer"
  sv_msgs :: "'d message_storer"
  sv_redis :: "'s redis"
  sv_jwt :: jwt_lib
  sv_mgr :: JWTManager
  sv_limits :: "'l limiter_lib"
  sv_bcrypt :: bcrypt
  sv_unicode :: unicode
  sv_trace :: "request \<Rightarrow> (string \<times> string) list"   \<comment> \<open>what the tracing propagator injects\<close>
  sv_writes :: "request \<Rightarrow> bool"   \<comment> \<open>whether writing the response body succeeds\<close>

text \<open>Calls of the database and of Redis, and a draw of random bytes.\<close>

definition on_db :: "('d \<Rightarrow> 'a \<times> 'd) \<Rightarrow> ('d, 's, 'l) world \<Rightarrow> 'a \<times> ('d, 's, 'l) world" where
  "on_db f w = (case f (w_db w) of (x, d) \<Rightarrow> (x, w\<lparr>w_db := d\<rparr>))"

definition on_rd :: "('s \<Rightarrow> 'a \<times> 's) \<Rightarrow> ('d, 's, 'l) world \<Rightarrow> 'a \<times> ('d, 's, 'l) world" where
  "on_rd f w = (case f (w_rd w) of (x, s) \<Rightarrow> (x, w\<lparr>w_rd := s\<rparr>))"

definition on_hub :: "('l hub \<Rightarrow> 'l hub) \<Rightarrow> ('d, 's, 'l) world \<Rightarrow> ('d, 's, 'l) world" where
  "on_hub f w = w\<lparr>w_hub := f (w_hub w)\<rparr>"

definition draw :: "('d, 's, 'l) world \<Rightarrow> string option \<times> ('d, 's, 'l) world" where
  "draw w = (case w_entropy w of [] \<Rightarrow> (None, w) | e # es \<Rightarrow> (e, w\<lparr>w_entropy := es\<rparr>))"

definition go_routine :: "job \<Rightarrow> ('d, 's, 'l) world \<Rightarrow> ('d, 's, 'l) world" where
  "go_routine j w = w\<lparr>w_jobs := w_jobs w @ [j]\<rparr>"

definition count_metric :: "metric_op \<Rightarrow> ('d, 's, 'l) world \<Rightarrow> ('d, 's, 'l) world" where
  "count_metric m w = w\<lparr>w_metrics := w_metrics w @ [m]\<rparr>"

lemma count_metric_simps [simp]:
  "w_db (count_metric m w) = w_db w" "w_rd (count_metric m w) = w_rd w" "w_hub (count_metric m w) = w_hub w"
  "w_jobs (count_metric m w) = w_jobs w" "w_now (count_metric m w) = w_now w" "w_entropy (count_metric m w) = w_entropy w"
  "w_metrics (count_metric m w) = w_metrics w @ [m]"
  by (simp_all add: count_metric_def)

lemma on_db_cases:
  assumes "on_db f w = (x, w')"
  obtains d where "f (w_db w) = (x, d)" "w' = w\<lparr>w_db := d\<rparr>"
  using assms by (auto simp: on_db_def split: prod.splits)

lemma on_rd_cases:
  assumes "on_rd f w = (x, w')"
  obtains s where "f (w_rd w) = (x, s)" "w' = w\<lparr>w_rd := s\<rparr>"
  using assms by (auto simp: on_rd_def split: prod.splits)

lemma draw_cases:
  assumes "draw w = (e, w')"
  obtains es where "w' = w\<lparr>w_entropy := es\<rparr>"
proof (cases "w_entropy w")
  case Nil
  with assms have "w' = w\<lparr>w_entropy := []\<rparr>" by (simp add: draw_def)
  then show thesis by (rule that)
next
  case (Cons a as)
  with assms have "w' = w\<lparr>w_entropy := as\<rparr>" by (simp add: draw_def)
  then show thesis by (rule that)
qed

section \<open>Messages as JSON\<close>

definition opt_member :: "string \<Rightarrow> 'a option \<Rightarrow> ('a \<Rightarrow> jv) \<Rightarrow> (string \<times> jv) list" where
  "opt_member k x f = (case x of None \<Rightarrow> [] | Some v \<Rightarrow> [(k, f v)])"

text \<open>The tags of \<open>store.Message\<close>, \<open>omitempty\<close> included.\<close>

definition message_json :: "message \<Rightarrow> jv" where
  "message_json m =
     JObj ([(''id'', JInt (ID m)), (''senderId'', JInt (SenderID m)), (''recipientId'', JInt (RecipientID m)),
            (''body'', JStr (Body m))] @
           (if IV m = [] then [] else [(''iv'', JStr (IV m))]) @
           [(''encrypted'', JBool (Encrypted m))] @
           (if ClientMessageID m = [] then [] else [(''clientMessageId'', JStr (ClientMessageID m))]) @
           [(''createdAt'', JTime (CreatedAt m))] @
           opt_member ''readAt'' (ReadAt m) JTime @ opt_member ''deletedAt'' (DeletedAt m) JTime)"

definition created_json :: "MessageCreatedEvent \<Rightarrow> jv" where
  "created_json ev =
     JObj ([(''messageId'', JInt (mc_MessageID ev)), (''senderId'', JInt (mc_SenderID ev)),
            (''recipientId'', JInt (mc_RecipientID ev)),
            (''clientMessageId'', JStr (mc_ClientMessageID ev))] @
           (if mc_TraceContext ev = [] then []
            else [(''traceContext'', JObj (map (\<lambda>(k, v). (k, JStr v)) (mc_TraceContext ev)))]))"

definition deleted_json :: "MessageDeletedEvent \<Rightarrow> jv" where
  "deleted_json ev =
     JObj [(''messageId'', JInt (md_MessageID ev)), (''senderId'', JInt (md_SenderID ev)),
           (''recipientId'', JInt (md_RecipientID ev))]"

section \<open>What a request leaves alone\<close>

text \<open>Two worlds that differ in the database at most.\<close>

definition same_but_db :: "('d, 's, 'l) world \<Rightarrow> ('d, 's, 'l) world \<Rightarrow> bool" where
  "same_but_db w w' \<longleftrightarrow> w' = w\<lparr>w_db := w_db w'\<rparr>"

lemma same_but_db_fields:
  assumes "same_but_db w w'"
  shows "w_rd w' = w_rd w" "w_hub w' = w_hub w" "w_jobs w' = w_jobs w" "w_now w' = w_now w"
    "w_entropy w' = w_entropy w" "w_ipLimiter w' = w_ipLimiter w" "w_idLimiter w' = w_idLimiter w"
    "w_userLimiter w' = w_userLimiter w" "w_metrics w' = w_metrics w"
  using assms unfolding same_but_db_def by (metis world.select_convs(2-10) world.surjective world.update_convs(1))+

lemma same_but_db_refl [simp]: "same_but_db w w" "same_but_db w (w\<lparr>w_db := d\<rparr>)"
  by (simp_all add: same_but_db_def)

end
