(* ===== verification/Auth.thy ===== *)
theory Auth
  imports Server
begin

text \<open>
  Who may call a handler: \<open>AuthMiddleware\<close> (\<open>middleware.go\<close>), \<open>WSAuthMiddleware\<close>
  (\<open>ws_auth_middleware.go\<close>), \<open>AdminOnly\<close> (\<open>admin_handlers.go\<close>) and \<open>InternalServiceAuth\<close>
  (\<open>internal_handlers.go\<close>), over the account contract and the documented behaviour of the token
  library.
\<close>

section \<open>The middlewares\<close>

definition bearer_token :: "string \<Rightarrow> string option" where
  "bearer_token authHeader =
     (case split_n2 CHR '' '' authHeader of
        [scheme, token] \<Rightarrow> if ascii_equal_fold scheme ''Bearer'' then Some token else None
      | _ \<Rightarrow> None)"

definition AuthMiddleware ::
  "('d, 's, 'l) server \<Rightarrow> ('d, 's, 'l) world handler \<Rightarrow> ('d, 's, 'l) world handler" where
  "AuthMiddleware sv next r w =
     (if rq_method r = ''OPTIONS'' then next r w
      else let authHeader = lookup ''Authorization'' (rq_header r) in
      if authHeader = [] then (writeJSONError 401 ''missing authorization header'', w)
      else case bearer_token authHeader of
        None \<Rightarrow> (writeJSONError 401 ''invalid authorization header'', w)
      | Some token \<Rightarrow>
          (case jwt_Parse (sv_jwt sv) (sv_mgr sv) (w_now w) token of
             None \<Rightarrow> (writeJSONError 401 ''invalid or expired token'', w)
           | Some claims \<Rightarrow>
               (case on_db (us_GetUserByID (sv_users sv) (cm_UserID claims)) w of
                  (Inl _, w1) \<Rightarrow> (writeJSONError 401 ''account not found or deleted'', w1)
                | (Inr _, w1) \<Rightarrow>
                    next (r\<lparr>rq_user := Some \<lparr>au_ID = cm_UserID claims, au_Username = cm_Username claims\<rparr>\<rparr>) w1)))"

definition ws_bearer_user :: "('d, 's, 'l) server \<Rightarrow> request \<Rightarrow> time \<Rightarrow> AuthUser option" where
  "ws_bearer_user sv r now =
     (let authHeader = lookup ''Authorization'' (rq_header r) in
      if authHeader = [] then None
      else case bearer_token authHeader of
        None \<Rightarrow> None
      | Some token \<Rightarrow>
          (case jwt_Parse (sv_jwt sv) (sv_mgr sv) now token of
             None \<Rightarrow> None
           | Some claims \<Rightarrow> Some \<lparr>au_ID = cm_UserID claims, au_Username = cm_Username claims\<rparr>))"

definition WSAuthMiddleware ::
  "('d, 's, 'l) server \<Rightarrow> ('d, 's, 'l) world handler \<Rightarrow> ('d, 's, 'l) world handler" where
  "WSAuthMiddleware sv next r w =
     (case on_rd (redeem_ticket (sv_redis sv) (lookup ''ticket'' (rq_query r))) w of
        (ticket_user, w1) \<Rightarrow>
          (case (case ticket_user of Some u \<Rightarrow> Some u | None \<Rightarrow> ws_bearer_user sv r (w_now w1)) of
             None \<Rightarrow> (http_Error ''unauthorized'' 401, w1)
           | Some user \<Rightarrow>
               (case on_db (us_GetUserByID (sv_users sv) (au_ID user)) w1 of
                  (Inl err, w2) \<Rightarrow>
                    (if errors_Is err ErrUserNotFound then (http_Error ''unauthorized'' 401, w2)
                     else (http_Error ''internal server error'' 500, w2))
                | (Inr _, w2) \<Rightarrow> next (r\<lparr>rq_user := Some user\<rparr>) w2)))"

definition AdminOnly :: "string \<Rightarrow> 'w handler \<Rightarrow> 'w handler" where
  "AdminOnly allowedUsername next r w =
     (case CurrentUser r of
        None \<Rightarrow> (http_Error ''forbidden'' 403, w)
      | Some user \<Rightarrow>
          if au_Username user \<noteq> allowedUsername then (http_Error ''forbidden'' 403, w) else next r w)"

definition InternalServiceAuth :: "string \<Rightarrow> 'w handler \<Rightarrow> 'w handler" where
  "InternalServiceAuth secret next r w =
     (if lookup ''X-Service-Secret'' (rq_header r) \<noteq> secret then (http_Error ''forbidden'' 403, w)
      else next r w)"

section \<open>The token library\<close>

text \<open>
  What \<open>golang-jwt\<close> documents: a token it signed parses back to its claims until it expires when
  the key function hands out the signing key for its method, and is refused afterwards; a token
  that parses as valid verifies under a method and key the key function accepted; dates are cut
  to whole seconds. \<open>verifies\<close> is the signature check.
\<close>

definition jwt_laws :: "jwt_lib \<Rightarrow> (signing_method \<Rightarrow> string \<Rightarrow> string \<Rightarrow> bool) \<Rightarrow> bool" where
  "jwt_laws lib verifies \<longleftrightarrow>
     (\<forall>meth key c tok kf now. SignedString lib meth key c = Some tok \<longrightarrow> kf meth = Some key \<longrightarrow>
        ParseWithClaims lib now tok kf = (if now < cm_ExpiresAt c then Some (c, True) else None)) \<and>
     (\<forall>now tok kf c. ParseWithClaims lib now tok kf = Some (c, True) \<longrightarrow>
        now < cm_ExpiresAt c \<and> (\<exists>meth key. kf meth = Some key \<and> verifies meth key tok)) \<and>
     (\<forall>t. t - second < NewNumericDate lib t \<and> NewNumericDate lib t \<le> t)"

lemma jwt_lawsD:
  assumes "jwt_laws lib verifies"
  shows "SignedString lib meth key c = Some tok \<Longrightarrow> kf meth = Some key \<Longrightarrow>
      ParseWithClaims lib now tok kf = (if now < cm_ExpiresAt c then Some (c, True) else None)"
    "ParseWithClaims lib now tok kf = Some (c, True) \<Longrightarrow>
      now < cm_ExpiresAt c \<and> (\<exists>meth key. kf meth = Some key \<and> verifies meth key tok)"
    "t - second < NewNumericDate lib t" "NewNumericDate lib t \<le> t"
  using assms unfolding jwt_laws_def by blast+

lemma jwt_Parse_sound:
  assumes "jwt_laws lib verifies" "jwt_Parse lib m now tok = Some c"
  shows "now < cm_ExpiresAt c \<and> (\<exists>h. verifies (HMAC h) (jm_secret m) tok)"
proof -
  have p: "ParseWithClaims lib now tok (key_func m) = Some (c, True)"
    using assms(2) by (auto simp: jwt_Parse_def split: option.splits if_splits)
  from jwt_lawsD(2) [OF assms(1) p] obtain meth key where
    "now < cm_ExpiresAt c" "key_func m meth = Some key" "verifies meth key tok" by blast
  then show ?thesis by (cases meth) (auto simp: key_func_def)
qed

lemma jwt_Parse_Generate:
  assumes "jwt_laws lib verifies" "jwt_Generate lib m t i n = Some tok"
  shows "jwt_Parse lib m now tok =
    (if now < NewNumericDate lib (t + jm_ttl m)
     then Some \<lparr>cm_UserID = i, cm_Username = n, cm_Subject = FormatInt i,
                cm_ExpiresAt = NewNumericDate lib (t + jm_ttl m), cm_IssuedAt = NewNumericDate lib t\<rparr>
     else None)"
proof -
  have "key_func m (HMAC ''HS256'') = Some (jm_secret m)" by (simp add: key_func_def)
  from jwt_lawsD(1) [where kf = "key_func m", OF assms(1) assms(2) [unfolded jwt_Generate_def] this]
  show ?thesis by (simp add: jwt_Parse_def)
qed

text \<open>A library that keeps the laws: it signs under one key and writes the claims in plain text.\<close>

definition demo_claims :: "string \<Rightarrow> Claims option" where
  "demo_claims tok =
     (case split_n2 CHR '':'' tok of
        [a, r1] \<Rightarrow> (case split_n2 CHR '':'' r1 of
          [b, r2] \<Rightarrow> (case split_n2 CHR '':'' r2 of
            [c, n] \<Rightarrow> (case (parse_int64 a, parse_int64 b, parse_int64 c) of
                (Inr i, Inr ex, Inr iat) \<Rightarrow>
                  Some \<lparr>cm_UserID = i, cm_Username = n, cm_Subject = FormatInt i, cm_ExpiresAt = ex, cm_IssuedAt = iat\<rparr>
              | _ \<Rightarrow> None)
          | _ \<Rightarrow> None)
        | _ \<Rightarrow> None)
      | _ \<Rightarrow> None)"

definition in_int64 :: "int64 \<Rightarrow> bool" where
  "in_int64 i \<longleftrightarrow> min_int64 \<le> i \<and> i \<le> max_int64"

definition demo_jwt :: jwt_lib where
  "demo_jwt =
     \<lparr>SignedString = (\<lambda>meth key c.
        if meth = HMAC ''HS256'' \<and> key = ''k'' \<and> cm_Subject c = FormatInt (cm_UserID c) \<and>
           in_int64 (cm_UserID c) \<and> in_int64 (cm_ExpiresAt c) \<and> in_int64 (cm_IssuedAt c)
        then Some (FormatInt (cm_UserID c) @ CHR '':'' # FormatInt (cm_ExpiresAt c) @ CHR '':'' #
                   FormatInt (cm_IssuedAt c) @ CHR '':'' # cm_Username c) else None),
      ParseWithClaims = (\<lambda>now tok kf.
        if kf (HMAC ''HS256'') = Some ''k''
        then case demo_claims tok of None \<Rightarrow> None
             | Some c \<Rightarrow> if now < cm_ExpiresAt c then Some (c, True) else None
        else None),
      NewNumericDate = (\<lambda>t. t - t mod second)\<rparr>"

lemma demo_claims_signed:
  assumes "SignedString demo_jwt meth key c = Some tok"
  shows "demo_claims tok = Some c \<and> meth = HMAC ''HS256'' \<and> key = ''k''"
proof -
  note no = FormatInt_no_colon
  note s = split_n2_append [OF no] and p = parse_int64_FormatInt
  have c: "meth = HMAC ''HS256''" "key = ''k''" "cm_Subject c = FormatInt (cm_UserID c)"
    "in_int64 (cm_UserID c)" "in_int64 (cm_ExpiresAt c)" "in_int64 (cm_IssuedAt c)"
    "tok = FormatInt (cm_UserID c) @ CHR '':'' # FormatInt (cm_ExpiresAt c) @ CHR '':'' #
       FormatInt (cm_IssuedAt c) @ CHR '':'' # cm_Username c"
    using assms by (simp_all add: demo_jwt_def split: if_splits)
  have "\<lparr>cm_UserID = cm_UserID c, cm_Username = cm_Username c, cm_Subject = cm_Subject c,
      cm_ExpiresAt = cm_ExpiresAt c, cm_IssuedAt = cm_IssuedAt c\<rparr> = c" by simp
  then have "demo_claims tok = Some c"
    using c(3-6) unfolding demo_claims_def c(7) s by (simp add: s p in_int64_def)
  with c(1,2) show ?thesis by blast
qed

lemma demo_jwt_laws: "jwt_laws demo_jwt (\<lambda>meth key tok. meth = HMAC ''HS256'' \<and> key = ''k'')"
  unfolding jwt_laws_def
proof (intro conjI allI impI)
  fix meth key c tok and kf :: "signing_method \<Rightarrow> string option" and now
  assume s: "SignedString demo_jwt meth key c = Some tok" and k: "kf meth = Some key"
  note d = demo_claims_signed [OF s]
  then show "ParseWithClaims demo_jwt now tok kf = (if now < cm_ExpiresAt c then Some (c, True) else None)"
    using k by (simp add: demo_jwt_def)
next
  fix now tok kf c
  assume "ParseWithClaims demo_jwt now tok kf = Some (c, True)"
  then show "now < cm_ExpiresAt c" "\<exists>meth key. kf meth = Some key \<and> meth = HMAC ''HS256'' \<and> key = ''k''"
    by (auto simp: demo_jwt_def split: if_splits option.splits)
next
  fix t
  have "0 \<le> t mod second" "t mod second < second" by simp_all
  then show "t - second < NewNumericDate demo_jwt t" "NewNumericDate demo_jwt t \<le> t"
    by (simp_all add: demo_jwt_def)
qed

lemma bearer_token_Bearer [simp]: "bearer_token (''Bearer '' @ tok) = Some tok"
proof -
  have "split_n2 CHR '' '' (''Bearer'' @ CHR '' '' # tok) = [''Bearer'', tok]"
    by (rule split_n2_append) simp
  then show ?thesis by (simp add: bearer_token_def ascii_equal_fold_def)
qed

lemmas bearer_token_literal [simp] = bearer_token_Bearer [unfolded append.simps]

lemma redeem_spends:
  assumes "redis_laws R view" "redeem_ticket R t s = (Some u, s')"
  shows "\<not> ticket_live t (view s')"
proof -
  obtain res s1 where g: "rd_GetDel R (ticketPrefix @ t) s = (res, s1)" by fastforce
  have rd: "reads view (e_del (ticketPrefix @ t)) (ticketPrefix @ t) s (res, s1)"
    using redis_lawsD(2) [OF assms(1), of "ticketPrefix @ t" s] g by simp
  have "t \<noteq> []" using assms(2) by (auto simp: redeem_ticket_def)
  with assms(2) g obtain v where "res = Inr v" "s' = s1"
    by (cases res) (auto simp: redeem_ticket_def split: list.splits sum.splits)
  with readsD(1) [OF rd] show ?thesis by (simp add: ticket_live_effects)
qed

section \<open>Only live accounts reach a protected handler\<close>

lemma pg_by_id:
  assumes "sv_users sv = pg_user_store ilike collate" "db_ok (w_db w)"
    "on_db (us_GetUserByID (sv_users sv) i) w = (res, w1)"
  shows "same_but_db w w1 \<and> db_ok (w_db w1) \<and> tb (w_db w1) = tb (w_db w) \<and>
    live_account (w_db w1) = live_account (w_db w) \<and>
    (case res of Inr u \<Rightarrow> live_account (w_db w) i = Some u
     | Inl e \<Rightarrow> e = ErrUserNotFound \<and> live_account (w_db w) i = None \<or> (\<exists>s. e = DBError s))"
proof -
  from assms(3) obtain d where d: "us_GetUserByID (sv_users sv) i (w_db w) = (res, d)" "w1 = w\<lparr>w_db := d\<rparr>"
    by (rule on_db_cases)
  have "agree (w_db w) d" using user_reads_agree(3) [of "w_db w" i] d(1) by (simp add: assms(1) pg_user_store_def)
  then have "tb d = tb (w_db w)" by (rule agreeD)
  with d(2) show ?thesis using pg.by_id [OF assms(2) d(1) [unfolded assms(1)]] by simp
qed

lemma AuthMiddleware_gate:
  assumes "sv_users sv = pg_user_store ilike collate" "db_ok (w_db w)" "jwt_laws (sv_jwt sv) verifies"
    "rq_method r \<noteq> ''OPTIONS''" "AuthMiddleware sv next r w = (resp, w')"
  shows "\<exists>w1. same_but_db w w1 \<and> db_ok (w_db w1) \<and> tb (w_db w1) = tb (w_db w) \<and>
    live_account (w_db w1) = live_account (w_db w) \<and>
    ((rs_status resp = 401 \<and> w' = w1) \<or>
     (\<exists>tok claims u h. bearer_token (lookup ''Authorization'' (rq_header r)) = Some tok \<and>
        verifies (HMAC h) (jm_secret (sv_mgr sv)) tok \<and>
        jwt_Parse (sv_jwt sv) (sv_mgr sv) (w_now w) tok = Some claims \<and> w_now w < cm_ExpiresAt claims \<and>
        live_account (w_db w) (cm_UserID claims) = Some u \<and>
        (resp, w') = next (r\<lparr>rq_user := Some \<lparr>au_ID = cm_UserID claims, au_Username = cm_Username claims\<rparr>\<rparr>) w1))"
proof -
  let ?h = "lookup ''Authorization'' (rq_header r)"
  have refused: ?thesis if "rs_status resp = 401" "w' = w" using that assms(2) by (intro exI [of _ w]) simp
  show ?thesis
  proof (cases "bearer_token ?h")
    case None
    with assms(4,5) have "rs_status resp = 401 \<and> w' = w"
      unfolding AuthMiddleware_def Let_def by (auto split: if_splits)
    then show ?thesis using refused by blast
  next
    case (Some tok)
    then have ne: "?h \<noteq> []" by (auto simp: bearer_token_def split_n2_none)
    show ?thesis
    proof (cases "jwt_Parse (sv_jwt sv) (sv_mgr sv) (w_now w) tok")
      case None
      with assms(4,5) Some ne have "rs_status resp = 401 \<and> w' = w"
        unfolding AuthMiddleware_def Let_def by auto
      then show ?thesis using refused by blast
    next
      case (Some claims)
      obtain res w1 where g: "on_db (us_GetUserByID (sv_users sv) (cm_UserID claims)) w = (res, w1)" by fastforce
      note p = pg_by_id [OF assms(1,2) g]
      have run: "AuthMiddleware sv next r w = (case res of
          Inl _ \<Rightarrow> (writeJSONError 401 ''account not found or deleted'', w1)
        | Inr _ \<Rightarrow> next (r\<lparr>rq_user := Some \<lparr>au_ID = cm_UserID claims, au_Username = cm_Username claims\<rparr>\<rparr>) w1)"
        using assms(4) ne \<open>bearer_token ?h = Some tok\<close> Some g
        unfolding AuthMiddleware_def Let_def by (auto split: sum.split)
      show ?thesis
      proof (cases res)
        case (Inl e)
        then show ?thesis using run assms(5) p by (intro exI [of _ w1]) auto
      next
        case (Inr u)
        then show ?thesis
          using run assms(5) p jwt_Parse_sound [OF assms(3) Some] \<open>bearer_token ?h = Some tok\<close> Some
          by (intro exI [of _ w1]) auto
      qed
    qed
  qed
qed

text \<open>
  C6: \<open>AuthMiddleware\<close> lets a request through only for a live account. An \<open>OPTIONS\<close> request goes
  to the next handler as it is, without any check. For every other method the next handler runs
  only if the request bears an unexpired token that verifies under an HMAC method with the
  server's secret and whose account exists and is not deleted, and it then sees exactly the
  identity of the token; every other such request gets a 401. Nothing but the database's
  connection state changes before the next handler runs.
\<close>

theorem auth_gate:
  assumes "sv_users sv = pg_user_store ilike collate" "db_ok (w_db w)" "jwt_laws (sv_jwt sv) verifies"
    "AuthMiddleware sv next r w = (resp, w')"
  shows "if rq_method r = ''OPTIONS'' then (resp, w') = next r w
    else \<exists>w1. same_but_db w w1 \<and> db_ok (w_db w1) \<and> tb (w_db w1) = tb (w_db w) \<and>
    live_account (w_db w1) = live_account (w_db w) \<and>
    ((rs_status resp = 401 \<and> w' = w1) \<or>
     (\<exists>tok claims u h. bearer_token (lookup ''Authorization'' (rq_header r)) = Some tok \<and>
        verifies (HMAC h) (jm_secret (sv_mgr sv)) tok \<and>
        jwt_Parse (sv_jwt sv) (sv_mgr sv) (w_now w) tok = Some claims \<and> w_now w < cm_ExpiresAt claims \<and>
        live_account (w_db w) (cm_UserID claims) = Some u \<and>
        (resp, w') = next (r\<lparr>rq_user := Some \<lparr>au_ID = cm_UserID claims, au_Username = cm_Username claims\<rparr>\<rparr>) w1))"
proof (cases "rq_method r = ''OPTIONS''")
  case True
  with assms(4) show ?thesis by (simp add: AuthMiddleware_def)
next
  case False
  from AuthMiddleware_gate [OF assms(1-3) False assms(4)] show ?thesis by (simp only: False if_False)
qed

text \<open>
  C7: the lifetime of an access token. A token made by \<open>Generate\<close> at an instant opens the
  protected handlers, as the user it was made for, exactly until fifteen minutes later (cut to a
  whole second) and exactly as long as the account is live; deleting the account ends it at once.
\<close>

theorem token_lifetime:
  assumes "sv_users sv = pg_user_store ilike collate" "jwt_laws (sv_jwt sv) verifies"
    "NewJWTManager secret = Some (sv_mgr sv)"
    "jwt_Generate (sv_jwt sv) (sv_mgr sv) t0 i n = Some tok"
    "lookup ''Authorization'' (rq_header r) = ''Bearer '' @ tok" "rq_method r \<noteq> ''OPTIONS''"
    "faults (w_db w) = []"
  shows "(w_now w \<le> t0 + 15 * minute - second \<and> live_account (w_db w) i \<noteq> None \<longrightarrow>
      AuthMiddleware sv next r w = next (r\<lparr>rq_user := Some \<lparr>au_ID = i, au_Username = n\<rparr>\<rparr>) w) \<and>
    (t0 + 15 * minute \<le> w_now w \<longrightarrow>
      AuthMiddleware sv next r w = (writeJSONError 401 ''invalid or expired token'', w)) \<and>
    (live_account (w_db w) i = None \<longrightarrow>
      rs_status (fst (AuthMiddleware sv next r w)) = 401 \<and> snd (AuthMiddleware sv next r w) = w)"
proof -
  have ttl: "jm_ttl (sv_mgr sv) = 15 * minute" using assms(3) by (auto simp: NewJWTManager_def dest!: sym [of _ "sv_mgr sv"] split: if_splits)
  let ?exp = "NewNumericDate (sv_jwt sv) (t0 + 15 * minute)"
  note date = jwt_lawsD(3,4) [OF assms(2), of "t0 + 15 * minute"]
  note parse = jwt_Parse_Generate [OF assms(2,4), unfolded ttl, of "w_now w"]
  have lookup: "on_db (us_GetUserByID (sv_users sv) i) w =
      ((case live_account (w_db w) i of None \<Rightarrow> Inl ErrUserNotFound | Some u \<Rightarrow> Inr u), w)"
    by (simp add: on_db_def assms(1,7) pg_user_store_def GetUserByID_def live_account_def split: option.split)
  have run: "AuthMiddleware sv next r w =
      (if w_now w < ?exp
       then case live_account (w_db w) i of
              None \<Rightarrow> (writeJSONError 401 ''account not found or deleted'', w)
            | Some u \<Rightarrow> next (r\<lparr>rq_user := Some \<lparr>au_ID = i, au_Username = n\<rparr>\<rparr>) w
       else (writeJSONError 401 ''invalid or expired token'', w))"
    unfolding AuthMiddleware_def Let_def assms(5) bearer_token_Bearer option.case parse
    using assms(6) lookup by (cases "w_now w < ?exp") (simp_all split: option.split)
  have early: "w_now w \<le> t0 + 15 * minute - second \<longrightarrow> w_now w < ?exp" using date(1) by linarith
  have late: "t0 + 15 * minute \<le> w_now w \<longrightarrow> \<not> w_now w < ?exp" using date(2) by linarith
  show ?thesis
    unfolding run using early late by (auto split: option.split)
qed

lemma WSAuthMiddleware_gate:
  assumes "sv_users sv = pg_user_store ilike collate" "db_ok (w_db w)" "jwt_laws (sv_jwt sv) verifies"
    "redis_laws (sv_redis sv) view" "WSAuthMiddleware sv next r w = (resp, w')"
  shows "\<exists>w1. w1 = w\<lparr>w_db := w_db w1, w_rd := w_rd w1\<rparr> \<and> db_ok (w_db w1) \<and> tb (w_db w1) = tb (w_db w) \<and>
    live_account (w_db w1) = live_account (w_db w) \<and>
    ((rs_status resp \<in> {401, 500} \<and> w' = w1) \<or>
     (\<exists>user u. live_account (w_db w) (au_ID user) = Some u \<and> (resp, w') = next (r\<lparr>rq_user := Some user\<rparr>) w1 \<and>
        (redeem_ticket (sv_redis sv) (lookup ''ticket'' (rq_query r)) (w_rd w) = (Some user, w_rd w1) \<and>
           \<not> ticket_live (lookup ''ticket'' (rq_query r)) (view (w_rd w1)) \<or>
         (\<exists>tok claims h. bearer_token (lookup ''Authorization'' (rq_header r)) = Some tok \<and>
            verifies (HMAC h) (jm_secret (sv_mgr sv)) tok \<and>
            jwt_Parse (sv_jwt sv) (sv_mgr sv) (w_now w) tok = Some claims \<and> w_now w < cm_ExpiresAt claims \<and>
            user = \<lparr>au_ID = cm_UserID claims, au_Username = cm_Username claims\<rparr>))))"
proof -
  let ?t = "lookup ''ticket'' (rq_query r)"
  obtain tu s1 where red: "redeem_ticket (sv_redis sv) ?t (w_rd w) = (tu, s1)" by fastforce
  let ?w1 = "w\<lparr>w_rd := s1\<rparr>"
  let ?user = "case tu of Some u \<Rightarrow> Some u | None \<Rightarrow> ws_bearer_user sv r (w_now ?w1)"
  have run: "WSAuthMiddleware sv next r w = (case ?user of
      None \<Rightarrow> (http_Error ''unauthorized'' 401, ?w1)
    | Some user \<Rightarrow> (case on_db (us_GetUserByID (sv_users sv) (au_ID user)) ?w1 of
        (Inl err, w2) \<Rightarrow> (if errors_Is err ErrUserNotFound then (http_Error ''unauthorized'' 401, w2)
                          else (http_Error ''internal server error'' 500, w2))
      | (Inr _, w2) \<Rightarrow> next (r\<lparr>rq_user := Some user\<rparr>) w2))"
    by (simp add: WSAuthMiddleware_def on_rd_def red)
  show ?thesis
  proof (cases ?user)
    case None
    with run assms(2,5) show ?thesis by (intro exI [of _ ?w1]) auto
  next
    case (Some user)
    obtain res w2 where g: "on_db (us_GetUserByID (sv_users sv) (au_ID user)) ?w1 = (res, w2)" by fastforce
    have p: "same_but_db ?w1 w2 \<and> db_ok (w_db w2) \<and> tb (w_db w2) = tb (w_db w) \<and> live_account (w_db w2) = live_account (w_db w) \<and>
      (case res of Inr u \<Rightarrow> live_account (w_db w) (au_ID user) = Some u
       | Inl e \<Rightarrow> e = ErrUserNotFound \<and> live_account (w_db w) (au_ID user) = None \<or> (\<exists>s. e = DBError s))"
      using pg_by_id [OF assms(1) _ g] assms(2) by (simp cong: sum.case_cong)
    then obtain d where d: "w2 = w\<lparr>w_rd := s1, w_db := d\<rparr>" unfolding same_but_db_def by blast
    have w2: "w2 = w\<lparr>w_db := w_db w2, w_rd := w_rd w2\<rparr>" "w_rd w2 = s1" unfolding d by simp_all
    show ?thesis
    proof (cases res)
      case (Inl e)
      with run Some g assms(5) p w2 show ?thesis by (intro exI [of _ w2]) (auto split: if_splits)
    next
      case (Inr u)
      have "next (r\<lparr>rq_user := Some user\<rparr>) w2 = (resp, w')" using run Some g Inr assms(5) by simp
      moreover have "(tu = Some user \<and> \<not> ticket_live ?t (view s1)) \<or> ws_bearer_user sv r (w_now w) = Some user"
        using Some red redeem_spends [OF assms(4)] by (auto split: option.splits)
      moreover have "\<exists>tok claims h. bearer_token (lookup ''Authorization'' (rq_header r)) = Some tok \<and>
            verifies (HMAC h) (jm_secret (sv_mgr sv)) tok \<and>
            jwt_Parse (sv_jwt sv) (sv_mgr sv) (w_now w) tok = Some claims \<and> w_now w < cm_ExpiresAt claims \<and>
            user = \<lparr>au_ID = cm_UserID claims, au_Username = cm_Username claims\<rparr>"
        if "ws_bearer_user sv r (w_now w) = Some user"
      proof -
        from that obtain tok c where c: "bearer_token (lookup ''Authorization'' (rq_header r)) = Some tok"
          "jwt_Parse (sv_jwt sv) (sv_mgr sv) (w_now w) tok = Some c"
          "user = \<lparr>au_ID = cm_UserID c, au_Username = cm_Username c\<rparr>"
          by (auto simp: ws_bearer_user_def Let_def split: if_splits option.splits)
        with jwt_Parse_sound [OF assms(3) c(2)] show ?thesis by blast
      qed
      ultimately show ?thesis using p w2 red Inr by (intro exI [of _ w2]) auto
    qed
  qed
qed

text \<open>
  C8: a WebSocket handshake is let through only for a live account, and its ticket is spent. The
  handler runs only with a user that the ticket named (the ticket is then gone from Redis) or
  that an unexpired token under the server's secret names, and whose account is live; a deleted
  account's ticket is refused although Redis still accepted it.
\<close>

theorem ws_auth_gate:
  assumes "sv_users sv = pg_user_store ilike collate" "db_ok (w_db w)" "jwt_laws (sv_jwt sv) verifies"
    "redis_laws (sv_redis sv) view" "WSAuthMiddleware sv next r w = (resp, w')"
  shows "\<exists>w1. w1 = w\<lparr>w_db := w_db w1, w_rd := w_rd w1\<rparr> \<and> db_ok (w_db w1) \<and> tb (w_db w1) = tb (w_db w) \<and>
    live_account (w_db w1) = live_account (w_db w) \<and>
    ((rs_status resp \<in> {401, 500} \<and> w' = w1) \<or>
     (\<exists>user u. live_account (w_db w) (au_ID user) = Some u \<and> (resp, w') = next (r\<lparr>rq_user := Some user\<rparr>) w1 \<and>
        (redeem_ticket (sv_redis sv) (lookup ''ticket'' (rq_query r)) (w_rd w) = (Some user, w_rd w1) \<and>
           \<not> ticket_live (lookup ''ticket'' (rq_query r)) (view (w_rd w1)) \<or>
         (\<exists>tok claims h. bearer_token (lookup ''Authorization'' (rq_header r)) = Some tok \<and>
            verifies (HMAC h) (jm_secret (sv_mgr sv)) tok \<and>
            jwt_Parse (sv_jwt sv) (sv_mgr sv) (w_now w) tok = Some claims \<and> w_now w < cm_ExpiresAt claims \<and>
            user = \<lparr>au_ID = cm_UserID claims, au_Username = cm_Username claims\<rparr>))))"
  using WSAuthMiddleware_gate [OF assms] .

section \<open>A server for concrete instances\<close>

text \<open>
  The PostgreSQL stores on the small database, the in-memory Redis, the token library above,
  limiters that count, a password hash that prefixes the salt and ASCII case mapping.
\<close>

definition demo_bcrypt :: bcrypt where
  "demo_bcrypt =
     \<lparr>GenerateFromPassword = (\<lambda>salt p. map_option (\<lambda>s. ''hash-'' @ p) salt),
      CompareHashAndPassword = (\<lambda>h p. h = ''hash-'' @ p)\<rparr>"

definition demo_server :: "(db, mem_server, nat) server" where
  "demo_server =
     \<lparr>sv_users = pg_user_store (=) length, sv_msgs = pg_message_store, sv_redis = mem_redis,
      sv_jwt = demo_jwt, sv_mgr = \<lparr>jm_secret = ''k'', jm_ttl = 15 * minute\<rparr>, sv_limits = counting_lib,
      sv_bcrypt = demo_bcrypt,
      sv_unicode = \<lparr>uc_EqualFold = ascii_equal_fold, uc_ToLower = map ascii_lower, uc_ToUpper = id\<rparr>,
      sv_trace = (\<lambda>_. []), sv_writes = (\<lambda>_. True)\<rparr>"

definition demo_world :: "(db, mem_server, nat) world" where
  "demo_world =
     \<lparr>w_db = demo_db, w_rd = mem_empty, w_hub = NewHub, w_jobs = [], w_now = 100,
      w_entropy = [Some ''r1'', Some ''r2''], w_ipLimiter = NewKeyedLimiter 5 10 (10 * minute),
      w_idLimiter = NewKeyedLimiter 2 4 (10 * minute), w_userLimiter = NewKeyedLimiter 10 20 (10 * minute), w_metrics = []\<rparr>"

definition demo_request :: "string \<Rightarrow> (string \<times> string) list \<Rightarrow> jv option \<Rightarrow> request" where
  "demo_request meth hs body =
     \<lparr>rq_method = meth, rq_vars = [], rq_query = [], rq_header = hs, rq_remote = ''10.0.0.1:99'',
      rq_body = body, rq_body_len = 10, rq_user = None\<rparr>"

lemma demo_server_simps [simp]:
  "sv_users demo_server = pg_user_store (=) length" "sv_msgs demo_server = pg_message_store"
  "sv_redis demo_server = mem_redis" "sv_jwt demo_server = demo_jwt"
  "sv_mgr demo_server = \<lparr>jm_secret = ''k'', jm_ttl = 15 * minute\<rparr>" "sv_limits demo_server = counting_lib"
  "sv_bcrypt demo_server = demo_bcrypt" "uc_EqualFold (sv_unicode demo_server) = ascii_equal_fold"
  "uc_ToLower (sv_unicode demo_server) = map ascii_lower" "uc_ToUpper (sv_unicode demo_server) = id"
  "sv_trace demo_server r = []" "sv_writes demo_server r"
  by (simp_all add: demo_server_def)

lemma demo_world_simps [simp]:
  "w_db demo_world = demo_db" "w_rd demo_world = mem_empty" "w_hub demo_world = NewHub" "w_jobs demo_world = []"
  "w_now demo_world = 100" "w_entropy demo_world = [Some ''r1'', Some ''r2'']"
  by (simp_all add: demo_world_def)

lemma demo_request_simps [simp]:
  "rq_method (demo_request m hs b) = m" "rq_header (demo_request m hs b) = hs" "rq_body (demo_request m hs b) = b"
  "rq_user (demo_request m hs b) = None" "rq_query (demo_request m hs b) = []" "rq_vars (demo_request m hs b) = []"
  by (simp_all add: demo_request_def)

lemma demo_live: "live_account demo_db 1 = Some \<lparr>UserID = 1, Username = ''alice'', PasswordHash = ''hash-alice'', PublicKey = ''key-alice''\<rparr>"
  "live_account demo_db 7 = None"
  by (simp_all add: live_account_def select_one_def demo_defs live_def scan_user_def)

text \<open>The access token of alice made at the instant 100.\<close>

definition demo_token :: string where
  "demo_token = the (jwt_Generate demo_jwt \<lparr>jm_secret = ''k'', jm_ttl = 15 * minute\<rparr> 100 1 ''alice'')"

lemma demo_token: "jwt_Generate demo_jwt \<lparr>jm_secret = ''k'', jm_ttl = 15 * minute\<rparr> 100 1 ''alice'' = Some demo_token"
  by (simp add: demo_token_def) (simp add: jwt_Generate_def demo_jwt_def in_int64_def)

abbreviation echo :: "'w handler" where
  "echo \<equiv> \<lambda>r w. (no_content (case rq_user r of None \<Rightarrow> 400 | Some u \<Rightarrow> 200), w)"

abbreviation alice_request :: request where
  "alice_request \<equiv> demo_request ''GET'' [(''Authorization'', ''Bearer '' @ demo_token)] None"

theorem token_lifetime_witness:
  "AuthMiddleware demo_server echo alice_request demo_world = (no_content 200, demo_world)"
proof -
  have "AuthMiddleware demo_server echo alice_request demo_world =
      echo (alice_request\<lparr>rq_user := Some \<lparr>au_ID = 1, au_Username = ''alice''\<rparr>\<rparr>) demo_world"
    using token_lifetime [of demo_server "(=)" length _ "''k''" 100 1 "''alice''" demo_token alice_request demo_world echo]
      demo_jwt_laws demo_token demo_live
    by (simp add: NewJWTManager_def lookup_def)
  then show ?thesis by simp
qed

theorem auth_gate_witness:
  "rs_status (fst (AuthMiddleware demo_server echo (demo_request ''GET'' [(''Authorization'', ''token'')] None) demo_world)) = 401"
proof -
  let ?r = "demo_request ''GET'' [(''Authorization'', ''token'')] None"
  obtain resp w' where r: "AuthMiddleware demo_server echo ?r demo_world = (resp, w')" by fastforce
  have "bearer_token ''token'' = None" by (simp add: bearer_token_def split_n2_none)
  then show ?thesis
    using auth_gate [OF _ _ _ r, of "(=)" length] demo_jwt_laws r by (fastforce simp: lookup_def)
qed

theorem ws_auth_gate_witness:
  "rs_status (fst (WSAuthMiddleware demo_server echo (demo_request ''GET'' [(''Authorization'', ''token'')] None) demo_world)) \<in> {401, 500}"
proof -
  let ?r = "demo_request ''GET'' [(''Authorization'', ''token'')] None"
  obtain resp w' where r: "WSAuthMiddleware demo_server echo ?r demo_world = (resp, w')" by fastforce
  have b: "bearer_token ''token'' = None" by (simp add: bearer_token_def split_n2_none)
  have t: "redeem_ticket mem_redis [] s = (None, s)" for s by (simp add: redeem_ticket_def)
  show ?thesis
    using ws_auth_gate [OF _ _ _ _ r, of "(=)" length _ mem_observe] demo_jwt_laws mem_redis_laws r b t
    by (fastforce simp: lookup_def)
qed

end
