(* ===== verification/Mailbox_Contract.thy ===== *)
theory Mailbox_Contract
  imports Message_Store
begin

text \<open>
  What the HTTP handlers and the subscriber rely on when they call \<open>messageStorer\<close>: one list of
  all messages in the order of their ids, as they are displayed. Sending appends to it, reading
  and deleting change single entries of it, and the listings are stretches of it. The locale
  states this for any store; the interpretation shows it for the PostgreSQL store.
\<close>

section \<open>The contract\<close>

definition in_conversation :: "int64 \<Rightarrow> int64 \<Rightarrow> message \<Rightarrow> bool" where
  "in_conversation u p m \<longleftrightarrow>
     (SenderID m = u \<and> RecipientID m = p) \<or> (SenderID m = p \<and> RecipientID m = u)"

definition blank :: "time \<Rightarrow> message \<Rightarrow> message" where
  "blank now m = m\<lparr>Body := [], IV := [], DeletedAt := Some now\<rparr>"

definition unread_by :: "int64 \<Rightarrow> int64 \<Rightarrow> message \<Rightarrow> bool" where
  "unread_by rcpt sndr m \<longleftrightarrow>
     RecipientID m = rcpt \<and> SenderID m = sndr \<and> ReadAt m = None \<and> DeletedAt m = None"

locale mailbox_store =
  fixes ms :: "'d message_storer"
    and inv :: "'d \<Rightarrow> bool"
    and box :: "'d \<Rightarrow> message list"
  assumes box_sorted: "inv d \<Longrightarrow> sorted_wrt (<) (map ID (box d))"
    and send: "inv d \<Longrightarrow> ms_CreateOrGetExisting ms s p b iv e c d = (sres, d') \<Longrightarrow>
      inv d' \<and>
      (case sres of
         Inr (m, True) \<Rightarrow>
           SenderID m = s \<and> RecipientID m = p \<and> Body m = b \<and> IV m = iv \<and> Encrypted m = e \<and>
           ClientMessageID m = c \<and> ReadAt m = None \<and> DeletedAt m = None \<and> box d' = box d @ [m]
       | Inr (m, False) \<Rightarrow> SenderID m = s \<and> ClientMessageID m = c \<and> ID m \<in> ID ` set (box d) \<and> box d' = box d
       | Inl _ \<Rightarrow> box d' = box d)"
    and get: "inv d \<Longrightarrow> ms_GetByID ms i d = (gres, d') \<Longrightarrow>
      inv d' \<and> box d' = box d \<and>
      (case gres of Inr m \<Rightarrow> m \<in> set (box d) \<and> ID m = i
       | Inl err \<Rightarrow> err = ErrNoRows \<and> i \<notin> ID ` set (box d) \<or> (\<exists>t. err = DBError t))"
    and since: "inv d \<Longrightarrow> 0 < l \<Longrightarrow> ms_ListConversationSince ms u p n l d = (lres, d') \<Longrightarrow>
      inv d' \<and> box d' = box d \<and>
      (case lres of Inl _ \<Rightarrow> True
       | Inr x \<Rightarrow> let r = filter (\<lambda>m. n < ID m \<and> in_conversation u p m) (box d)
                 in x = (take (nat l) r, nat l < length r))"
    and before: "inv d \<Longrightarrow> 0 < l \<Longrightarrow> ms_ListConversationBefore ms u p n l d = (lres, d') \<Longrightarrow>
      inv d' \<and> box d' = box d \<and>
      (case lres of Inl _ \<Rightarrow> True
       | Inr x \<Rightarrow> let r = filter (\<lambda>m. ID m < n \<and> in_conversation u p m) (box d)
                 in x = (drop (length r - nat l) r, nat l < length r))"
    and unread: "inv d \<Longrightarrow> ms_GetUnreadForUser ms u n d = (ures, d') \<Longrightarrow>
      inv d' \<and> box d' = box d \<and>
      (case ures of Inl _ \<Rightarrow> True
       | Inr xs \<Rightarrow> xs = filter (\<lambda>m. RecipientID m = u \<and> n < ID m \<and> DeletedAt m = None) (box d))"
    and mark: "inv d \<Longrightarrow> ms_MarkRead ms rcpt sndr d = (mres, d') \<Longrightarrow>
      inv d' \<and>
      (case mres of Inl _ \<Rightarrow> box d' = box d
       | Inr is \<Rightarrow> distinct is \<and> set is = ID ` {m \<in> set (box d). unread_by rcpt sndr m} \<and>
           (\<exists>now. box d' = map (\<lambda>m. if unread_by rcpt sndr m then m\<lparr>ReadAt := Some now\<rparr> else m) (box d)))"
    and delete: "inv d \<Longrightarrow> ms_SoftDelete ms i s d = (dres, d') \<Longrightarrow>
      inv d' \<and>
      (case dres of
         Inl err \<Rightarrow> box d' = box d \<and>
           (err = ErrMessageNotFound \<and> \<not> (\<exists>x \<in> set (box d). ID x = i \<and> SenderID x = s \<and> DeletedAt x = None)
            \<or> (\<exists>t. err = DBError t))
       | Inr m \<Rightarrow> ID m = i \<and> SenderID m = s \<and>
           (\<exists>x \<in> set (box d). ID x = i \<and> SenderID x = s \<and> DeletedAt x = None \<and> RecipientID m = RecipientID x) \<and>
           (\<exists>now. box d' = map (\<lambda>y. if ID y = i then blank now y else y) (box d)))"
begin

lemma box_unique:
  assumes "inv d" "x \<in> set (box d)" "y \<in> set (box d)" "ID x = ID y"
  shows "x = y"
  using box_sorted [OF assms(1)] assms(2-4)
  by (metis distinct_map_eq strict_sorted_iff)

text \<open>A message just sent is what a look-up by its id finds.\<close>

lemma get_sent:
  assumes "inv d" "ms_CreateOrGetExisting ms s p b iv e c d = (Inr (m, True), d')"
    "ms_GetByID ms (ID m) d' = (gres, d'')"
  shows "gres = Inr m \<or> (\<exists>t. gres = Inl (DBError t))"
proof -
  have s: "inv d'" "m \<in> set (box d')" using send [OF assms(1,2)] by auto
  from get [OF s(1) assms(3)] s show ?thesis
    using box_unique [OF s(1)] by (cases gres) auto
qed

end

section \<open>The PostgreSQL store keeps it\<close>

definition mailbox :: "db \<Rightarrow> message list" where
  "mailbox d = map display (sort_key mr_id (messages (tb d)))"

lemma mailbox_cong: "tb d' = tb d \<Longrightarrow> mailbox d' = mailbox d"
  by (simp add: mailbox_def)

lemma in_conversation_display: "in_conversation u p (display r) = between u p r"
  by (auto simp: in_conversation_def between_def scanMsg_def selectCols_def)

lemma thread_mailbox: "thread u p (tb d) = filter (in_conversation u p) (mailbox d)"
  by (simp add: thread_def mailbox_def filter_map comp_def in_conversation_display sort_key_filter)

lemma set_mailbox: "set (mailbox d) = display ` set (messages (tb d))"
  by (simp add: mailbox_def)

lemma display_new: "display (new_message_row s p b iv e c d) = scanMsg (new_message_row s p b iv e c d)"
  by (simp add: scanMsg_def selectCols_def new_message_row_def)

lemma scanMsg_fields [simp]:
  "ID (scanMsg r) = mr_id r" "SenderID (scanMsg r) = mr_sender_id r"
  "RecipientID (scanMsg r) = mr_recipient_id r" "ReadAt (scanMsg r) = mr_read_at r"
  "DeletedAt (scanMsg r) = mr_deleted_at r"
  by (simp_all add: scanMsg_def)

lemma selectCols_fields [simp]:
  "mr_id (selectCols r) = mr_id r" "mr_sender_id (selectCols r) = mr_sender_id r"
  "mr_recipient_id (selectCols r) = mr_recipient_id r" "mr_read_at (selectCols r) = mr_read_at r"
  "mr_deleted_at (selectCols r) = mr_deleted_at r"
  by (simp_all add: selectCols_def)

lemma unread_by_display: "unread_by rcpt sndr (display r) = unread_from rcpt sndr r"
  by (simp add: unread_by_def unread_from_def)

lemma display_read: "display (r\<lparr>mr_read_at := Some now\<rparr>) = (display r)\<lparr>ReadAt := Some now\<rparr>"
  by (simp add: scanMsg_def selectCols_def)

lemma display_deleted: "display (r\<lparr>mr_deleted_at := Some now\<rparr>) = blank now (display r)"
  by (simp add: blank_def scanMsg_def selectCols_def)

lemma mailbox_update:
  assumes "\<And>r. mr_id (f r) = mr_id r"
    "messages (tb d') = update_where P f (messages (tb d))"
    "\<And>r. r \<in> set (messages (tb d)) \<Longrightarrow> Q (display r) = P r"
    "\<And>r. r \<in> set (messages (tb d)) \<Longrightarrow> P r \<Longrightarrow> display (f r) = g (display r)"
  shows "mailbox d' = map (\<lambda>m. if Q m then g m else m) (mailbox d)"
proof -
  have "sort_key mr_id (messages (tb d')) =
      map (\<lambda>r. if P r then f r else r) (sort_key mr_id (messages (tb d)))"
    unfolding assms(2) update_where_def by (rule sort_key_map) (simp add: assms(1))
  then show ?thesis using assms(3,4) by (auto simp: mailbox_def)
qed

lemma MarkRead_mailbox:
  assumes "db_ok d" "MarkRead rcpt sndr d = (Inr is, d')"
  shows "distinct is \<and> set is = ID ` {m \<in> set (mailbox d). unread_by rcpt sndr m} \<and>
    (\<exists>now. mailbox d' = map (\<lambda>m. if unread_by rcpt sndr m then m\<lparr>ReadAt := Some now\<rparr> else m) (mailbox d))"
  using assms(2)
proof (cases rule: MarkRead_cases)
  case ok
  have d: "distinct (map mr_id (messages (tb d)))" using assms(1) by (simp add: ok_defs)
  have "mailbox d' = map (\<lambda>m. if unread_by rcpt sndr m then m\<lparr>ReadAt := Some (clock d)\<rparr> else m) (mailbox d)"
    by (rule mailbox_update [where P = "unread_from rcpt sndr" and f = "\<lambda>r. r\<lparr>mr_read_at := Some (clock d)\<rparr>"])
      (use agreeD(1) [OF ok(2)] in \<open>simp_all add: unread_by_display display_read\<close>)
  moreover have "set is = ID ` {m \<in> set (mailbox d). unread_by rcpt sndr m}"
  proof -
    have "{m \<in> set (mailbox d). unread_by rcpt sndr m} = display ` {r \<in> set (messages (tb d)). unread_from rcpt sndr r}"
      using unread_by_display unfolding set_mailbox by blast
    then show ?thesis using ok(1) by (simp add: image_image)
  qed
  moreover have "distinct is" using ok(1) d by (simp add: distinct_map_filter)
  ultimately show ?thesis by blast
qed simp

lemma SoftDelete_mailbox:
  assumes "db_ok d" "SoftDelete i s d = (Inr m, d')"
  shows "ID m = i \<and> SenderID m = s \<and>
    (\<exists>x \<in> set (mailbox d). ID x = i \<and> SenderID x = s \<and> DeletedAt x = None \<and> RecipientID m = RecipientID x) \<and>
    (\<exists>now. mailbox d' = map (\<lambda>y. if ID y = i then blank now y else y) (mailbox d))"
  using assms(2)
proof (cases rule: SoftDelete_cases)
  case (ok r)
  have d: "distinct (map mr_id (messages (tb d)))" using assms(1) by (simp add: ok_defs)
  have only: "deletable i s x \<longleftrightarrow> mr_id x = i" if "x \<in> set (messages (tb d))" for x
    using distinct_map_eq [OF d that ok(1)] ok(2) by (auto simp: deletable_def)
  have "mailbox d' = map (\<lambda>y. if ID y = i then blank (clock d) y else y) (mailbox d)"
    by (rule mailbox_update [where P = "deletable i s" and f = "\<lambda>r. r\<lparr>mr_deleted_at := Some (clock d)\<rparr>"])
      (use agreeD(1) [OF ok(4)] only in \<open>simp_all add: display_deleted\<close>)
  moreover have "display r \<in> set (mailbox d)" using ok(1) by (simp add: set_mailbox)
  ultimately show ?thesis using ok(2,3) by (auto simp: deletable_def intro!: bexI [of _ "display r"])
qed simp

lemma SoftDelete_refused:
  assumes "SoftDelete i s d = (Inl err, d')"
  shows "mailbox d' = mailbox d \<and>
    (err = ErrMessageNotFound \<and> \<not> (\<exists>x \<in> set (mailbox d). ID x = i \<and> SenderID x = s \<and> DeletedAt x = None)
     \<or> (\<exists>t. err = DBError t))"
  using assms unfolding SoftDelete_def
proof (cases rule: stmt_cases)
  case (fault e)
  then show ?thesis using mailbox_cong [of d' d] by (simp add: agreeD)
next
  case (ok d1)
  then have none: "select_one (deletable i s) (messages (tb d1)) = None" "err = ErrMessageNotFound" "d' = d1"
    by (auto simp: Let_def split: option.splits)
  moreover have "tb d1 = tb d" using ok(1) by (simp add: agreeD)
  ultimately show ?thesis
    using mailbox_cong [of d1 d] by (auto simp: select_one_None deletable_def set_mailbox)
qed

lemma send_mailbox:
  assumes "db_ok d" "CreateOrGetExisting s p b iv e c d = (res, d')"
  shows "case res of
         Inr (m, True) \<Rightarrow>
           SenderID m = s \<and> RecipientID m = p \<and> Body m = b \<and> IV m = iv \<and> Encrypted m = e \<and>
           ClientMessageID m = c \<and> ReadAt m = None \<and> DeletedAt m = None \<and> mailbox d' = mailbox d @ [m]
       | Inr (m, False) \<Rightarrow> SenderID m = s \<and> ClientMessageID m = c \<and> ID m \<in> ID ` set (mailbox d) \<and> mailbox d' = mailbox d
       | Inl _ \<Rightarrow> mailbox d' = mailbox d"
  using assms(2)
proof (cases rule: CreateOrGetExisting_cases)
  case (error err)
  then show ?thesis using mailbox_cong [of d' d] by simp
next
  case (inserted row)
  have "\<forall>y \<in> set (messages (tb d)). mr_id y < mr_id row"
    using assms(1) by (simp add: ok_defs inserted(2) new_message_row_def)
  then have "mailbox d' = mailbox d @ [display row]"
    by (simp add: mailbox_def inserted(3) sort_key_snoc)
  then show ?thesis
    using inserted(1,2) display_new [of s p b iv e c d] by (simp add: new_message_row_def) (simp add: scanMsg_def)
next
  case (existing row)
  then show ?thesis
    using mailbox_cong [of d' d]
    by (auto simp: set_mailbox image_iff same_client_id_def scanMsg_def intro!: bexI [of _ row])
qed

lemma GetByID_cases:
  assumes "GetByID i d = (res, d')"
  obtains (fault) e where "res = Inl (DBError e)" "agree d d'"
  | (none) "res = Inl ErrNoRows" "agree d d'" "i \<notin> ID ` set (mailbox d)"
  | (found) m where "res = Inr m" "agree d d'" "m \<in> set (mailbox d)" "ID m = i"
  using assms unfolding GetByID_def
proof (cases rule: stmt_cases)
  case (ok d1)
  note ag = agreeD [OF ok(1)]
  show thesis
  proof (cases "select_one (\<lambda>r. mr_id r = i) (messages (tb d1))")
    case None
    then have "i \<notin> ID ` set (mailbox d)" unfolding ag(1) by (auto simp: select_one_None set_mailbox)
    with None ok show thesis by (intro none) auto
  next
    case (Some r)
    then have "r \<in> set (messages (tb d)) \<and> mr_id r = i" unfolding ag(1) by (rule select_one_Some)
    with Some ok show thesis by (intro found [of "display r"]) (auto simp: set_mailbox)
  qed
qed (rule fault)

lemma agree_mailbox:
  assumes "agree d d'"
  shows "mailbox d' = mailbox d" "db_ok d' = db_ok d"
  using mailbox_cong [of d' d] assms by (simp_all add: agreeD db_ok_agree)

interpretation pg_box: mailbox_store pg_message_store db_ok mailbox
proof
  fix d assume ok: "db_ok d"
  then have "distinct (map mr_id (sort_key mr_id (messages (tb d))))"
    by (simp add: distinct_sort_key_map ok_defs)
  then show "sorted_wrt (<) (map ID (mailbox d))"
    by (simp add: mailbox_def comp_def strict_sorted_iff)
next
  fix d s p b iv e c sres d'
  assume ok: "db_ok d" and "ms_CreateOrGetExisting pg_message_store s p b iv e c d = (sres, d')"
  then have r: "CreateOrGetExisting s p b iv e c d = (sres, d')" by (simp add: pg_message_store_def)
  show "db_ok d' \<and> (case sres of
         Inr (m, True) \<Rightarrow>
           SenderID m = s \<and> RecipientID m = p \<and> Body m = b \<and> IV m = iv \<and> Encrypted m = e \<and>
           ClientMessageID m = c \<and> ReadAt m = None \<and> DeletedAt m = None \<and> mailbox d' = mailbox d @ [m]
       | Inr (m, False) \<Rightarrow> SenderID m = s \<and> ClientMessageID m = c \<and> ID m \<in> ID ` set (mailbox d) \<and> mailbox d' = mailbox d
       | Inl _ \<Rightarrow> mailbox d' = mailbox d)"
    using CreateOrGetExisting_db_ok [OF ok r] send_mailbox [OF ok r] by blast
next
  fix d i gres d'
  assume ok: "db_ok d" and "ms_GetByID pg_message_store i d = (gres, d')"
  then have "GetByID i d = (gres, d')" by (simp add: pg_message_store_def)
  then show "db_ok d' \<and> mailbox d' = mailbox d \<and>
      (case gres of Inr m \<Rightarrow> m \<in> set (mailbox d) \<and> ID m = i
       | Inl err \<Rightarrow> err = ErrNoRows \<and> i \<notin> ID ` set (mailbox d) \<or> (\<exists>t. err = DBError t))"
    by (cases rule: GetByID_cases; use ok agree_mailbox [of d d'] in simp)
next
  fix d l u p n lres d'
  assume ok: "db_ok d" and l: "0 < l" and "ms_ListConversationSince pg_message_store u p n l d = (lres, d')"
  then have r: "ListConversationSince u p n l d = (lres, d')" by (simp add: pg_message_store_def)
  have "agree d d'" using message_reads_agree(3) [of d u p n l] r by simp
  moreover have "x = (let r = filter (\<lambda>m. n < ID m \<and> in_conversation u p m) (mailbox d)
                 in (take (nat l) r, nat l < length r))" if "lres = Inr x" for x
    using ListConversationSince_Inr [OF r [unfolded that] l] by (simp add: thread_mailbox conj_commute)
  ultimately show "db_ok d' \<and> mailbox d' = mailbox d \<and>
      (case lres of Inl _ \<Rightarrow> True
       | Inr x \<Rightarrow> let r = filter (\<lambda>m. n < ID m \<and> in_conversation u p m) (mailbox d)
                 in x = (take (nat l) r, nat l < length r))"
    using ok agree_mailbox [of d d'] by (cases lres) (simp_all add: Let_def)
next
  fix d l u p n lres d'
  assume ok: "db_ok d" and l: "0 < l" and "ms_ListConversationBefore pg_message_store u p n l d = (lres, d')"
  then have r: "ListConversationBefore u p n l d = (lres, d')" by (simp add: pg_message_store_def)
  have "agree d d'" using message_reads_agree(4) [of d u p n l] r by simp
  moreover have "x = (let r = filter (\<lambda>m. ID m < n \<and> in_conversation u p m) (mailbox d)
                 in (drop (length r - nat l) r, nat l < length r))" if "lres = Inr x" for x
    using ListConversationBefore_Inr [OF r [unfolded that] l] by (simp add: thread_mailbox conj_commute)
  ultimately show "db_ok d' \<and> mailbox d' = mailbox d \<and>
      (case lres of Inl _ \<Rightarrow> True
       | Inr x \<Rightarrow> let r = filter (\<lambda>m. ID m < n \<and> in_conversation u p m) (mailbox d)
                 in x = (drop (length r - nat l) r, nat l < length r))"
    using ok agree_mailbox [of d d'] by (cases lres) (simp_all add: Let_def)
next
  fix d u n ures d'
  assume ok: "db_ok d" and "ms_GetUnreadForUser pg_message_store u n d = (ures, d')"
  then have r: "GetUnreadForUser u n d = (ures, d')" by (simp add: pg_message_store_def)
  have a: "agree d d'" using message_reads_agree(2) [of d u n] r by simp
  have "xs = filter (\<lambda>m. RecipientID m = u \<and> n < ID m \<and> DeletedAt m = None) (mailbox d)" if "ures = Inr xs" for xs
    using query_Inr [OF r [unfolded that GetUnreadForUser_def]]
    by (simp add: mailbox_def filter_map comp_def sort_key_filter)
  with a ok agree_mailbox [of d d'] show "db_ok d' \<and> mailbox d' = mailbox d \<and>
      (case ures of Inl _ \<Rightarrow> True
       | Inr xs \<Rightarrow> xs = filter (\<lambda>m. RecipientID m = u \<and> n < ID m \<and> DeletedAt m = None) (mailbox d))"
    by (cases ures) simp_all
next
  fix d rcpt sndr mres d'
  assume ok: "db_ok d" and "ms_MarkRead pg_message_store rcpt sndr d = (mres, d')"
  then have r: "MarkRead rcpt sndr d = (mres, d')" by (simp add: pg_message_store_def)
  show "db_ok d' \<and>
      (case mres of Inl _ \<Rightarrow> mailbox d' = mailbox d
       | Inr is \<Rightarrow> distinct is \<and> set is = ID ` {m \<in> set (mailbox d). unread_by rcpt sndr m} \<and>
           (\<exists>now. mailbox d' = map (\<lambda>m. if unread_by rcpt sndr m then m\<lparr>ReadAt := Some now\<rparr> else m) (mailbox d)))"
  proof (cases mres)
    case (Inl err)
    from r have "agree d d'" unfolding Inl by (cases rule: MarkRead_cases) simp_all
    with ok Inl agree_mailbox [of d d'] show ?thesis by simp
  next
    case (Inr "is")
    then show ?thesis using MarkRead_db_ok [OF ok r] MarkRead_mailbox [OF ok r [unfolded Inr]] by simp
  qed
next
  fix d i s dres d'
  assume ok: "db_ok d" and "ms_SoftDelete pg_message_store i s d = (dres, d')"
  then have r: "SoftDelete i s d = (dres, d')" by (simp add: pg_message_store_def)
  show "db_ok d' \<and>
      (case dres of
         Inl err \<Rightarrow> mailbox d' = mailbox d \<and>
           (err = ErrMessageNotFound \<and> \<not> (\<exists>x \<in> set (mailbox d). ID x = i \<and> SenderID x = s \<and> DeletedAt x = None)
            \<or> (\<exists>t. err = DBError t))
       | Inr m \<Rightarrow> ID m = i \<and> SenderID m = s \<and>
           (\<exists>x \<in> set (mailbox d). ID x = i \<and> SenderID x = s \<and> DeletedAt x = None \<and> RecipientID m = RecipientID x) \<and>
           (\<exists>now. mailbox d' = map (\<lambda>y. if ID y = i then blank now y else y) (mailbox d)))"
    using SoftDelete_db_ok [OF ok r] SoftDelete_mailbox [OF ok] SoftDelete_refused r
    by (cases dres) simp_all
qed

end
