(* ===== verification/Message_Handlers.thy ===== *)
theory Message_Handlers
  imports Auth Mailbox_Contract
begin

text \<open>
  \<open>internal/http/message_handlers.go\<close>: validation of a send, the four message endpoints, the
  event publisher with the goroutines that call it, and one step of the subscriber that turns
  events into frames on this instance's hub.
\<close>

section \<open>Requests\<close>

definition body_members :: "request \<Rightarrow> (string \<times> jv) list option" where
  "body_members r = (case rq_body r of None \<Rightarrow> None | Some v \<Rightarrow> members v)"

record SendMessageRequest =
  sm_RecipientUsername :: string
  sm_Body :: string
  sm_IV :: string
  sm_Encrypted :: bool
  sm_ClientMessageID :: string

definition decode_send :: "request \<Rightarrow> SendMessageRequest option" where
  "decode_send r =
     (case body_members r of None \<Rightarrow> None | Some ms \<Rightarrow>
        (case (get_string ''recipientUsername'' ms, get_string ''body'' ms, get_string ''iv'' ms,
               get_bool ''encrypted'' ms, get_string ''clientMessageId'' ms) of
           (Some n, Some b, Some iv, Some e, Some c) \<Rightarrow>
             Some \<lparr>sm_RecipientUsername = n, sm_Body = b, sm_IV = iv, sm_Encrypted = e, sm_ClientMessageID = c\<rparr>
         | _ \<Rightarrow> None))"

definition maxUsernameLen :: nat where "maxUsernameLen = 32"
definition maxMessageLen :: nat where "maxMessageLen = 8192"
definition defaultPageSize :: int where "defaultPageSize = 50"
definition maxPageSize :: int where "maxPageSize = 100"

definition Validate :: "SendMessageRequest \<Rightarrow> string" where
  "Validate q =
     (if sm_RecipientUsername q = [] \<or> sm_Body q = [] \<or> sm_ClientMessageID q = []
      then ''recipientUsername, body, and clientMessageId required''
      else if length (sm_RecipientUsername q) > maxUsernameLen then ''recipientUsername too long''
      else if length (sm_Body q) > maxMessageLen then ''message body too long''
      else if length (sm_ClientMessageID q) > 128 then ''clientMessageId too long''
      else if sm_Encrypted q then
        (if sm_IV q = [] then ''iv required when encrypted is true''
         else case StdEncoding_DecodeString (sm_IV q) of
             Some ivBytes \<Rightarrow>
               if length ivBytes \<noteq> 12 then ''iv must be a base64-encoded 96-bit (12-byte) AES-GCM nonce'' else []
           | None \<Rightarrow> ''iv must be a base64-encoded 96-bit (12-byte) AES-GCM nonce'')
      else [])"

section \<open>Handlers\<close>

definition SendMessageHandler :: "('d, 's, 'l) server \<Rightarrow> ('d, 's, 'l) world handler" where
  "SendMessageHandler sv r w =
     (if rq_method r \<noteq> ''POST'' then (http_Error ''method not allowed'' 405, w)
      else case CurrentUser r of
        None \<Rightarrow> (http_Error ''unauthorized'' 401, w)
      | Some currentUser \<Rightarrow>
     (case decode_send r of
        None \<Rightarrow> (http_Error ''invalid json'' 400, w)
      | Some req \<Rightarrow>
     (if Validate req \<noteq> [] then (http_Error (Validate req) 400, w)
      else case on_db (us_GetByUsername (sv_users sv) (sm_RecipientUsername req)) w of
        (Inl _, w1) \<Rightarrow> (http_Error ''recipient not found'' 400, w1)
      | (Inr recipient, w1) \<Rightarrow>
     (case on_db (ms_CreateOrGetExisting (sv_msgs sv) (au_ID currentUser) (UserID recipient)
                    (sm_Body req) (sm_IV req) (sm_Encrypted req) (sm_ClientMessageID req)) w1 of
        (Inl _, w2) \<Rightarrow> (writeJSONError 500 ''failed to save message'', w2)
      | (Inr (saved, inserted), w3) \<Rightarrow>
          let w2 = count_metric (Inc (if inserted then MessagesSent else MessageDeduplicated) []) w3 in
          (json_body (if inserted then 201 else 200) (message_json saved),
           if \<not> sv_writes sv r then w2
           else go_routine (JobPublishCreated
                  \<lparr>mc_MessageID = ID saved, mc_SenderID = SenderID saved,
                   mc_RecipientID = RecipientID saved, mc_ClientMessageID = sm_ClientMessageID req,
                   mc_TraceContext = sv_trace sv r\<rparr>) w2)))))"

definition page_limit :: "request \<Rightarrow> int" where
  "page_limit r =
     (let limitStr = lookup ''limit'' (rq_query r);
          limit = (if limitStr = [] then defaultPageSize
                   else case parse_int64 limitStr of
                          Inr v \<Rightarrow> if v > 0 then v else defaultPageSize
                        | Inl _ \<Rightarrow> defaultPageSize)
      in if limit > maxPageSize then maxPageSize else limit)"

definition list_response :: "message list \<times> bool \<Rightarrow> jv" where
  "list_response p = JObj [(''messages'', JArr (map message_json (fst p))), (''hasMore'', JBool (snd p))]"

definition ListMessagesHandler :: "('d, 's, 'l) server \<Rightarrow> ('d, 's, 'l) world handler" where
  "ListMessagesHandler sv r w =
     (case CurrentUser r of
        None \<Rightarrow> (http_Error ''unauthorized'' 401, w)
      | Some currentUser \<Rightarrow>
      let peer = lookup ''peer'' (rq_query r) in
      if peer = [] then (http_Error ''missing peer'' 400, w)
      else
      let limit = page_limit r in
      case on_db (us_GetByUsername (sv_users sv) peer) w of
        (Inl _, w1) \<Rightarrow> (http_Error ''peer not found'' 404, w1)
      | (Inr peerUser, w1) \<Rightarrow>
      let beforeStr = lookup ''beforeId'' (rq_query r);
          sinceStr = lookup ''sinceId'' (rq_query r);
          answer = (\<lambda>res. case res of
              (Inl _, w2) \<Rightarrow> (writeJSONError 500 ''failed to fetch messages'', w2)
            | (Inr p, w2) \<Rightarrow> (json_body 200 (list_response p), w2))
      in
      if beforeStr \<noteq> [] then
        (case parse_int64 beforeStr of
           Inl _ \<Rightarrow> (http_Error ''beforeId must be a positive integer'' 400, w1)
         | Inr beforeID \<Rightarrow>
             if beforeID \<le> 0 then (http_Error ''beforeId must be a positive integer'' 400, w1)
             else answer (on_db (ms_ListConversationBefore (sv_msgs sv) (au_ID currentUser) (UserID peerUser) beforeID limit) w1))
      else if sinceStr \<noteq> [] then
        (case parse_int64 sinceStr of
           Inl _ \<Rightarrow> (http_Error ''sinceId must be a non-negative integer'' 400, w1)
         | Inr sinceID \<Rightarrow>
             if sinceID < 0 then (http_Error ''sinceId must be a non-negative integer'' 400, w1)
             else answer (on_db (ms_ListConversationSince (sv_msgs sv) (au_ID currentUser) (UserID peerUser) sinceID limit) w1))
      else answer (on_db (ms_ListConversationSince (sv_msgs sv) (au_ID currentUser) (UserID peerUser) 0 limit) w1))"

definition string_field :: "string \<Rightarrow> request \<Rightarrow> string option" where
  "string_field f r = (case body_members r of None \<Rightarrow> None | Some ms \<Rightarrow> get_string f ms)"

definition MarkReadHandler :: "('d, 's, 'l) server \<Rightarrow> ('d, 's, 'l) world handler" where
  "MarkReadHandler sv r w =
     (case CurrentUser r of
        None \<Rightarrow> (http_Error ''unauthorized'' 401, w)
      | Some currentUser \<Rightarrow>
     (case string_field ''peerUsername'' r of
        None \<Rightarrow> (http_Error ''peerUsername required'' 400, w)
      | Some peerUsername \<Rightarrow>
      if peerUsername = [] then (http_Error ''peerUsername required'' 400, w)
      else case on_db (us_GetByUsername (sv_users sv) peerUsername) w of
        (Inl _, w1) \<Rightarrow> (http_Error ''peer not found'' 404, w1)
      | (Inr peer, w1) \<Rightarrow>
     (case on_db (ms_MarkRead (sv_msgs sv) (au_ID currentUser) (UserID peer)) w1 of
        (Inl _, w2) \<Rightarrow> (writeJSONError 500 ''failed to mark read'', w2)
      | (Inr ids, w2) \<Rightarrow>
          (json_body 200 (JObj [(''markedCount'', JInt (int (length ids)))]),
           if ids \<noteq> [] then on_hub (SendReadReceiptToUser (UserID peer) (au_ID currentUser) ids) w2 else w2))))"

definition DeleteMessageHandler :: "('d, 's, 'l) server \<Rightarrow> ('d, 's, 'l) world handler" where
  "DeleteMessageHandler sv r w =
     (case CurrentUser r of
        None \<Rightarrow> (http_Error ''unauthorized'' 401, w)
      | Some currentUser \<Rightarrow>
     (case parse_int64 (lookup ''id'' (rq_vars r)) of
        Inl _ \<Rightarrow> (http_Error ''invalid message id'' 400, w)
      | Inr messageID \<Rightarrow>
      if messageID \<le> 0 then (http_Error ''invalid message id'' 400, w)
      else case on_db (ms_SoftDelete (sv_msgs sv) messageID (au_ID currentUser)) w of
        (Inl err, w1) \<Rightarrow>
          (if errors_Is err ErrMessageNotFound then (http_Error ''not found'' 404, w1)
           else (writeJSONError 500 ''failed to delete message'', w1))
      | (Inr deleted, w1) \<Rightarrow>
          (no_content 204,
           go_routine (JobPublishDeleted
             \<lparr>md_MessageID = ID deleted, md_SenderID = SenderID deleted,
              md_RecipientID = RecipientID deleted\<rparr>) w1)))"

section \<open>Publishing and subscribing\<close>

definition createdChannel :: string where "createdChannel = ''message.created''"
definition deletedChannel :: string where "deletedChannel = ''message.deleted''"

definition PublishMessageCreated ::
  "'s redis \<Rightarrow> MessageCreatedEvent \<Rightarrow> 's \<Rightarrow> (redis_error + unit) \<times> 's" where
  "PublishMessageCreated R ev = rd_Publish R createdChannel (created_json ev)"

definition PublishMessageDeleted ::
  "'s redis \<Rightarrow> MessageDeletedEvent \<Rightarrow> 's \<Rightarrow> (redis_error + unit) \<times> 's" where
  "PublishMessageDeleted R ev = rd_Publish R deletedChannel (deleted_json ev)"

text \<open>What a started goroutine does when it runs; \<open>key_handlers.go\<close> starts the third kind.\<close>

fun run_job :: "('d, 's, 'l) server \<Rightarrow> job \<Rightarrow> ('d, 's, 'l) world \<Rightarrow> ('d, 's, 'l) world" where
  "run_job sv (JobPublishCreated ev) w =
     (case on_rd (PublishMessageCreated (sv_redis sv) ev) w of
        (Inl _, w1) \<Rightarrow> count_metric (Inc MessagePublishFailures []) w1
      | (Inr _, w1) \<Rightarrow> w1)"
| "run_job sv (JobPublishDeleted ev) w = snd (on_rd (PublishMessageDeleted (sv_redis sv) ev) w)"
| "run_job sv (JobKeyChanged userID username) w =
     (case on_db (us_GetContactFollowerIDs (sv_users sv) userID) w of
        (Inl _, w1) \<Rightarrow> w1
      | (Inr followerIDs, w1) \<Rightarrow>
          on_hub (fold (\<lambda>fid. SendKeyChangedToUser fid username) followerIDs) w1)"

text \<open>Decoding into \<open>map[string]string\<close>: \<open>null\<close> empties it, objects add their members.\<close>

fun add_strings :: "(string \<times> jv) list \<Rightarrow> (string \<times> string) list \<Rightarrow> (string \<times> string) list option" where
  "add_strings [] acc = Some acc"
| "add_strings ((k, JStr s) # ms) acc = add_strings ms (AList.update k s acc)"
| "add_strings ((k, JNull) # ms) acc = add_strings ms (AList.update k [] acc)"
| "add_strings ((k, JTime t) # ms) acc = None"
| "add_strings ((k, JBool b) # ms) acc = None"
| "add_strings ((k, JInt i) # ms) acc = None"
| "add_strings ((k, JNum s) # ms) acc = None"
| "add_strings ((k, JArr xs) # ms) acc = None"
| "add_strings ((k, JObj os) # ms) acc = None"

fun strmap_member :: "string \<Rightarrow> (string \<times> jv) list \<Rightarrow> (string \<times> string) list \<Rightarrow> (string \<times> string) list option" where
  "strmap_member f [] acc = Some acc"
| "strmap_member f ((k, v) # ms) acc =
     (if member_is k f
      then (case v of JNull \<Rightarrow> strmap_member f ms []
                    | JObj os \<Rightarrow> (case add_strings os acc of None \<Rightarrow> None | Some acc' \<Rightarrow> strmap_member f ms acc')
                    | JTime t \<Rightarrow> None | JStr s \<Rightarrow> None | JBool b \<Rightarrow> None | JInt i \<Rightarrow> None | JNum s \<Rightarrow> None
                    | JArr xs \<Rightarrow> None)
      else strmap_member f ms acc)"

definition decode_created :: "jv \<Rightarrow> MessageCreatedEvent option" where
  "decode_created v =
     (case members v of None \<Rightarrow> None | Some ms \<Rightarrow>
        (case (get_int ''messageId'' ms, get_int ''senderId'' ms, get_int ''recipientId'' ms,
               get_string ''clientMessageId'' ms, strmap_member ''traceContext'' ms []) of
           (Some i, Some s, Some p, Some c, Some t) \<Rightarrow>
             Some \<lparr>mc_MessageID = i, mc_SenderID = s, mc_RecipientID = p, mc_ClientMessageID = c, mc_TraceContext = t\<rparr>
         | _ \<Rightarrow> None))"

definition decode_deleted :: "jv \<Rightarrow> MessageDeletedEvent option" where
  "decode_deleted v =
     (case members v of None \<Rightarrow> None | Some ms \<Rightarrow>
        (case (get_int ''messageId'' ms, get_int ''senderId'' ms, get_int ''recipientId'' ms) of
           (Some i, Some s, Some p) \<Rightarrow> Some \<lparr>md_MessageID = i, md_SenderID = s, md_RecipientID = p\<rparr>
         | _ \<Rightarrow> None))"

text \<open>\<open>StartMessageSubscriber\<close>: one turn of its loop, for one message received.\<close>

definition message_subscriber_step ::
  "('d, 's, 'l) server \<Rightarrow> string \<times> jv \<Rightarrow> ('d, 's, 'l) world \<Rightarrow> ('d, 's, 'l) world" where
  "message_subscriber_step sv msg w =
     (if fst msg = createdChannel then
        (case decode_created (snd msg) of
           None \<Rightarrow> w
         | Some ev \<Rightarrow>
             (case on_db (ms_GetByID (sv_msgs sv) (mc_MessageID ev)) w of
                (Inl _, w1) \<Rightarrow> w1
              | (Inr fullMsg, w1) \<Rightarrow>
                  on_hub (SendMessageToUser (RecipientID fullMsg) fullMsg)
                    (on_hub (SendMessageToUser (SenderID fullMsg) fullMsg) w1)))
      else if fst msg = deletedChannel then
        (case decode_deleted (snd msg) of
           None \<Rightarrow> w
         | Some ev \<Rightarrow>
             on_hub (SendMessageDeletedToUsers (md_SenderID ev) (md_RecipientID ev) (md_MessageID ev)) w)
      else w)"

text \<open>The loop over a sequence of received messages; it stops when the context is done.\<close>

definition StartMessageSubscriber ::
  "('d, 's, 'l) server \<Rightarrow> (string \<times> jv) list \<Rightarrow> ('d, 's, 'l) world \<Rightarrow> ('d, 's, 'l) world" where
  "StartMessageSubscriber sv = fold (message_subscriber_step sv)"

section \<open>Validation\<close>

text \<open>
  C31: What a send must look like. \<open>Validate\<close> accepts a request exactly when recipient, body and
  client id are present and within 32, 8192 and 128 bytes, and, for an encrypted message, the
  nonce is sixteen symbols of the standard base64 alphabet once line breaks are dropped, that is
  the encoding of exactly twelve bytes. (Go's decoder drops carriage returns and newlines, so the
  field itself may be longer than sixteen bytes.)
\<close>

theorem Validate_exact:
  "Validate q = [] \<longleftrightarrow>
     length (sm_RecipientUsername q) \<in> {1..32} \<and> length (sm_Body q) \<in> {1..8192} \<and>
     length (sm_ClientMessageID q) \<in> {1..128} \<and>
     (sm_Encrypted q \<longrightarrow>
       (let t = filter (\<lambda>c. \<not> is_newline c) (sm_IV q) in length t = 16 \<and> set t \<subseteq> set std_alphabet))"
proof -
  have ne: "xs = [] \<longleftrightarrow> \<not> 1 \<le> length xs" for xs :: string by (cases xs) auto
  have iv: "(case StdEncoding_DecodeString s of
               Some b \<Rightarrow> if length b \<noteq> 12 then ''iv must be a base64-encoded 96-bit (12-byte) AES-GCM nonce'' else []
             | None \<Rightarrow> ''iv must be a base64-encoded 96-bit (12-byte) AES-GCM nonce'') = [] \<longleftrightarrow>
      (\<exists>b. StdEncoding_DecodeString s = Some b \<and> length b = 12)" for s
    by (auto split: option.split)
  have empty: "s = [] \<Longrightarrow> \<not> (\<exists>b. StdEncoding_DecodeString s = Some b \<and> length b = 12)" for s
    unfolding StdEncoding_12_iff by simp
  show ?thesis
    unfolding Validate_def maxUsernameLen_def maxMessageLen_def Let_def StdEncoding_12_iff [symmetric]
    using ne [of "sm_RecipientUsername q"] ne [of "sm_Body q"] ne [of "sm_ClientMessageID q"]
      iv [of "sm_IV q"] empty [of "sm_IV q"] by auto
qed

theorem Validate_exact_witness:
  "Validate \<lparr>sm_RecipientUsername = ''bob'', sm_Body = ''cipher'', sm_IV = ''AAAABBBBCCCC'' @ [CHR 0x0A] @ ''DDDD'',
     sm_Encrypted = True, sm_ClientMessageID = ''c1''\<rparr> = []"
  unfolding Validate_exact by (simp add: Let_def is_newline_def std_alphabet_def)

section \<open>Events survive the transport\<close>

lemma member_is_event_names [simp]:
  "member_is ''messageId'' ''messageId''" "\<not> member_is ''messageId'' ''senderId''"
  "\<not> member_is ''messageId'' ''recipientId''" "\<not> member_is ''messageId'' ''clientMessageId''"
  "\<not> member_is ''messageId'' ''traceContext''"
  "\<not> member_is ''senderId'' ''messageId''" "member_is ''senderId'' ''senderId''"
  "\<not> member_is ''senderId'' ''recipientId''" "\<not> member_is ''senderId'' ''clientMessageId''"
  "\<not> member_is ''senderId'' ''traceContext''"
  "\<not> member_is ''recipientId'' ''messageId''" "\<not> member_is ''recipientId'' ''senderId''"
  "member_is ''recipientId'' ''recipientId''" "\<not> member_is ''recipientId'' ''clientMessageId''"
  "\<not> member_is ''recipientId'' ''traceContext''"
  "\<not> member_is ''clientMessageId'' ''messageId''" "\<not> member_is ''clientMessageId'' ''senderId''"
  "\<not> member_is ''clientMessageId'' ''recipientId''" "member_is ''clientMessageId'' ''clientMessageId''"
  "\<not> member_is ''clientMessageId'' ''traceContext''"
  "\<not> member_is ''traceContext'' ''messageId''" "\<not> member_is ''traceContext'' ''senderId''"
  "\<not> member_is ''traceContext'' ''recipientId''" "\<not> member_is ''traceContext'' ''clientMessageId''"
  "member_is ''traceContext'' ''traceContext''"
  by code_simp+

lemma update_fresh: "k \<notin> fst ` set al \<Longrightarrow> AList.update k v al = al @ [(k, v)]"
  by (induction al) auto

lemma add_strings_fresh:
  assumes "distinct (map fst acc @ map fst ts)"
  shows "add_strings (map (\<lambda>(k, v). (k, JStr v)) ts) acc = Some (acc @ ts)"
  using assms
proof (induction ts arbitrary: acc)
  case (Cons kv ts)
  obtain k v where kv: "kv = (k, v)" by fastforce
  have "AList.update k v acc = acc @ [(k, v)]"
    using Cons.prems by (intro update_fresh) (auto simp: kv)
  with Cons show ?case by (simp add: kv)
qed simp

lemma add_strings_total: "\<exists>acc'. add_strings (map (\<lambda>(k, v). (k, JStr v)) ts) acc = Some acc'"
  by (induction ts arbitrary: acc) auto

definition event_ids_ok :: "MessageCreatedEvent \<Rightarrow> bool" where
  "event_ids_ok ev \<longleftrightarrow> in_int64 (mc_MessageID ev) \<and> in_int64 (mc_SenderID ev) \<and> in_int64 (mc_RecipientID ev)"

text \<open>
  An event survives the transport. Decoding the JSON that the publisher makes of an event
  gives the event back, whatever its client message id and trace context are, as long as the ids
  fit in 64 bits and the trace context, a Go map, has each key once.
\<close>

theorem event_roundtrip:
  assumes "event_ids_ok ev" "distinct (map fst (mc_TraceContext ev))"
  shows "decode_created (created_json ev) = Some ev"
  using assms add_strings_fresh [of "[]" "mc_TraceContext ev"]
  by (cases "mc_TraceContext ev")
    (simp_all add: decode_created_def created_json_def get_int_def get_string_def event_ids_ok_def in_int64_def)

theorem event_roundtrip_witness:
  "decode_created (created_json \<lparr>mc_MessageID = 7, mc_SenderID = 1, mc_RecipientID = 2,
     mc_ClientMessageID = ''c'', mc_TraceContext = [(''traceparent'', ''00-ab'')]\<rparr>) =
   Some \<lparr>mc_MessageID = 7, mc_SenderID = 1, mc_RecipientID = 2, mc_ClientMessageID = ''c'',
     mc_TraceContext = [(''traceparent'', ''00-ab'')]\<rparr>"
  by (rule event_roundtrip) (simp_all add: event_ids_ok_def in_int64_def)

section \<open>What a send does\<close>

lemma SendMessageHandler_ok:
  assumes "SendMessageHandler sv r w = (resp, w')" "rs_status resp \<in> {200, 201}"
  obtains u req rcpt w1 saved ins w3 w2 where "CurrentUser r = Some u" "rq_method r = ''POST''"
    "decode_send r = Some req" "Validate req = []"
    "on_db (us_GetByUsername (sv_users sv) (sm_RecipientUsername req)) w = (Inr rcpt, w1)"
    "on_db (ms_CreateOrGetExisting (sv_msgs sv) (au_ID u) (UserID rcpt)
       (sm_Body req) (sm_IV req) (sm_Encrypted req) (sm_ClientMessageID req)) w1 = (Inr (saved, ins), w3)"
    "w2 = count_metric (Inc (if ins then MessagesSent else MessageDeduplicated) []) w3"
    "resp = json_body (if ins then 201 else 200) (message_json saved)"
    "w' = (if \<not> sv_writes sv r then w2
           else go_routine (JobPublishCreated
                  \<lparr>mc_MessageID = ID saved, mc_SenderID = SenderID saved,
                   mc_RecipientID = RecipientID saved, mc_ClientMessageID = sm_ClientMessageID req,
                   mc_TraceContext = sv_trace sv r\<rparr>) w2)"
  using assms unfolding SendMessageHandler_def Let_def
  by (auto split: if_split_asm option.split_asm prod.split_asm sum.split_asm)

lemma pg_by_name:
  assumes "sv_users sv = pg_user_store ilike collate" "db_ok (w_db w)"
    "on_db (us_GetByUsername (sv_users sv) n) w = (res, w1)"
  shows "\<exists>d. w1 = w\<lparr>w_db := d\<rparr> \<and> db_ok d \<and> agree (w_db w) d \<and>
    (case res of Inr u \<Rightarrow> live_account (w_db w) (UserID u) = Some u \<and> Username u = n
     | Inl e \<Rightarrow> e = ErrUserNotFound \<and> (\<forall>i u. live_account (w_db w) i = Some u \<longrightarrow> Username u \<noteq> n) \<or> (\<exists>s. e = DBError s))"
proof -
  from assms(3) obtain d where d: "us_GetUserByUsername (sv_users sv) n (w_db w) = (res, d)" "w1 = w\<lparr>w_db := d\<rparr>"
    unfolding assms(1) pg.same_lookup by (rule on_db_cases)
  have "agree (w_db w) d"
    using user_reads_agree(1) [of "w_db w" n] d(1) by (simp add: assms(1) pg_user_store_def)
  with pg.by_name [OF assms(2) d(1) [unfolded assms(1)]] d(2) show ?thesis by blast
qed

lemma pg_send:
  assumes "sv_msgs sv = pg_message_store" "db_ok (w_db w)"
    "on_db (ms_CreateOrGetExisting (sv_msgs sv) s p b iv e c) w = (Inr (m, True), w')"
  shows "\<exists>d. w' = w\<lparr>w_db := d\<rparr> \<and> db_ok d \<and> mailbox d = mailbox (w_db w) @ [m] \<and>
    SenderID m = s \<and> RecipientID m = p \<and> Body m = b \<and> IV m = iv \<and> Encrypted m = e \<and> ClientMessageID m = c \<and>
    ID m = msg_seq (w_db w)"
proof -
  from assms(3) obtain d where d: "CreateOrGetExisting s p b iv e c (w_db w) = (Inr (m, True), d)" "w' = w\<lparr>w_db := d\<rparr>"
    by (auto simp: assms(1) pg_message_store_def elim: on_db_cases)
  from d(1) have "ID m = msg_seq (w_db w)"
    by (cases rule: CreateOrGetExisting_cases) (simp_all add: new_message_row_def)
  with pg_box.send [OF assms(2), of s p b iv e c "Inr (m, True)" d] d show ?thesis
    by (intro exI [of _ d]) (simp add: pg_message_store_def)
qed

text \<open>An event reaches the sender's and the recipient's connections of the instance that gets it.\<close>

lemma created_step:
  assumes "sv_msgs sv = pg_message_store" "db_ok (w_db v)" "faults (w_db v) = []"
    "m \<in> set (mailbox (w_db v))" "event_ids_ok ev" "mc_MessageID ev = ID m"
  shows "message_subscriber_step sv (createdChannel, created_json ev) v =
    on_hub (SendMessageToUser (RecipientID m) m) (on_hub (SendMessageToUser (SenderID m) m) v)"
proof -
  obtain acc where acc: "add_strings (map (\<lambda>(k, v). (k, JStr v)) (mc_TraceContext ev)) [] = Some acc"
    using add_strings_total by blast
  have dec: "\<exists>ev'. decode_created (created_json ev) = Some ev' \<and> mc_MessageID ev' = ID m"
    using assms(5,6) acc
    by (simp add: decode_created_def created_json_def get_int_def get_string_def event_ids_ok_def in_int64_def)
  obtain res d where g: "GetByID (ID m) (w_db v) = (res, d)" by fastforce
  then have "res = Inr m \<and> d = w_db v"
  proof (cases rule: GetByID_cases)
    case (found x)
    have "d = w_db v" using g assms(3) by (auto simp: GetByID_def split: option.splits)
    with found pg_box.box_unique [OF assms(2) found(3) assms(4)] show ?thesis by simp
  qed (use g assms(3,4) in \<open>auto simp: GetByID_def split: option.splits\<close>)
  then have "on_db (ms_GetByID (sv_msgs sv) (ID m)) v = (Inr m, v)"
    using g by (simp add: on_db_def assms(1) pg_message_store_def)
  with dec show ?thesis by (auto simp: message_subscriber_step_def)
qed

lemma send_event:
  assumes "sv_users sv = pg_user_store ilike collate" "sv_msgs sv = pg_message_store"
    "db_ok (w_db w)" "msg_seq (w_db w) \<le> max_int64" "sv_writes sv r"
    "user_seq (w_db w) \<le> max_int64"
    "SendMessageHandler sv r w = (resp, w')" "rs_status resp = 201"
  shows "\<exists>u req rcpt m ev. CurrentUser r = Some u \<and> decode_send r = Some req \<and> Validate req = [] \<and>
    live_account (w_db w) (UserID rcpt) = Some rcpt \<and> Username rcpt = sm_RecipientUsername req \<and>
    SenderID m = au_ID u \<and> RecipientID m = UserID rcpt \<and> Body m = sm_Body req \<and> IV m = sm_IV req \<and>
    ClientMessageID m = sm_ClientMessageID req \<and>
    mailbox (w_db w') = mailbox (w_db w) @ [m] \<and> rs_payload resp = Json (message_json m) \<and>
    w_jobs w' = w_jobs w @ [JobPublishCreated ev] \<and> w_metrics w' = w_metrics w @ [Inc MessagesSent []] \<and>
    event_ids_ok ev \<and> ev = \<lparr>mc_MessageID = ID m, mc_SenderID = SenderID m, mc_RecipientID = RecipientID m,
          mc_ClientMessageID = sm_ClientMessageID req, mc_TraceContext = sv_trace sv r\<rparr>"
proof -
  have st: "rs_status resp \<in> {200, 201}" using assms(8) by simp
  show ?thesis
  proof (rule SendMessageHandler_ok [OF assms(7) st])
    fix u req rcpt w1 saved ins w3 w2
    assume u: "CurrentUser r = Some u" and req: "decode_send r = Some req" "Validate req = []"
      and look: "on_db (us_GetByUsername (sv_users sv) (sm_RecipientUsername req)) w = (Inr rcpt, w1)"
      and save: "on_db (ms_CreateOrGetExisting (sv_msgs sv) (au_ID u) (UserID rcpt)
       (sm_Body req) (sm_IV req) (sm_Encrypted req) (sm_ClientMessageID req)) w1 = (Inr (saved, ins), w3)"
      and counted: "w2 = count_metric (Inc (if ins then MessagesSent else MessageDeduplicated) []) w3"
      and resp: "resp = json_body (if ins then 201 else 200) (message_json saved)"
      and w': "w' = (if \<not> sv_writes sv r then w2
           else go_routine (JobPublishCreated
                  \<lparr>mc_MessageID = ID saved, mc_SenderID = SenderID saved,
                   mc_RecipientID = RecipientID saved, mc_ClientMessageID = sm_ClientMessageID req,
                   mc_TraceContext = sv_trace sv r\<rparr>) w2)"
    let ?ev = "\<lparr>mc_MessageID = ID saved, mc_SenderID = SenderID saved, mc_RecipientID = RecipientID saved,
                mc_ClientMessageID = sm_ClientMessageID req, mc_TraceContext = sv_trace sv r\<rparr>"
    have ins: "ins" using resp assms(8) by (simp split: if_splits)
    from pg_by_name [OF assms(1,3) look] obtain d1 where
      d1: "w1 = w\<lparr>w_db := d1\<rparr>" "db_ok d1" "agree (w_db w) d1"
      and rcpt: "live_account (w_db w) (UserID rcpt) = Some rcpt" "Username rcpt = sm_RecipientUsername req"
      by auto
    have save': "on_db (ms_CreateOrGetExisting (sv_msgs sv) (au_ID u) (UserID rcpt)
       (sm_Body req) (sm_IV req) (sm_Encrypted req) (sm_ClientMessageID req)) w1 = (Inr (saved, True), w3)"
      using save ins by simp
    have ok1: "db_ok (w_db w1)" using d1 by simp
    from pg_send [OF assms(2) ok1 save'] d1 obtain d2 where d2: "w3 = w1\<lparr>w_db := d2\<rparr>" "db_ok d2"
      "mailbox d2 = mailbox (w_db w) @ [saved]" "ID saved = msg_seq (w_db w)"
      and fields: "SenderID saved = au_ID u" "RecipientID saved = UserID rcpt" "Body saved = sm_Body req"
        "IV saved = sm_IV req" "ClientMessageID saved = sm_ClientMessageID req"
      using agree_mailbox(1) [OF d1(3)] agreeD(3) [OF d1(3)] by auto
    have members: "au_ID u \<in> known_ids (w_db w)" "UserID rcpt \<in> known_ids (w_db w)"
    proof -
      from save' obtain d where "CreateOrGetExisting (au_ID u) (UserID rcpt) (sm_Body req) (sm_IV req)
          (sm_Encrypted req) (sm_ClientMessageID req) (w_db w1) = (Inr (saved, True), d)"
        by (auto simp: assms(2) pg_message_store_def elim: on_db_cases)
      then have "au_ID u \<in> known_ids d1" "UserID rcpt \<in> known_ids d1"
        by (cases rule: CreateOrGetExisting_cases; simp add: d1(1) known_ids_def)+
      then show "au_ID u \<in> known_ids (w_db w)" "UserID rcpt \<in> known_ids (w_db w)"
        using agree_accounts(2) [OF d1(3)] by simp_all
    qed
    have known: "in_int64 i" if "i \<in> known_ids (w_db w)" for i
      using that assms(3,6) by (force simp: ok_defs known_ids_def in_int64_def)
    have "0 < msg_seq (w_db w)" using assms(3) by (simp add: ok_defs)
    then have ids: "event_ids_ok ?ev"
      using assms(4) known [OF members(1)] known [OF members(2)] d2(4) fields(1,2)
      by (simp add: event_ids_ok_def in_int64_def)
    have "w_jobs w' = w_jobs w @ [JobPublishCreated ?ev]" "w_db w' = d2" "w_metrics w' = w_metrics w @ [Inc MessagesSent []]"
      using w' assms(5) d1(1) d2(1) ins counted by (simp_all add: go_routine_def)
    then show ?thesis
      using u req rcpt fields d2(3) resp ids by (intro exI [of _ u] exI [of _ req] exI [of _ rcpt] exI [of _ saved] exI [of _ ?ev]) auto
  qed
qed


text \<open>
  C9: a message that was accepted reaches both parties. When the endpoint answers 201, the
  recipient named is a live account, exactly one message from the caller to it, carrying what was
  sent, has been appended to the mailbox, it is the body of the answer, it is counted as sent, and
  one event is on its way; and whichever instance gets that event while the message is stored, every open connection
  of the sender and of the recipient on that instance is offered the very message.
\<close>

theorem send_reaches_both:
  assumes "sv_users sv = pg_user_store ilike collate" "sv_msgs sv = pg_message_store"
    "db_ok (w_db w)" "msg_seq (w_db w) \<le> max_int64" "sv_writes sv r"
    "user_seq (w_db w) \<le> max_int64"
    "SendMessageHandler sv r w = (resp, w')" "rs_status resp = 201"
  shows "\<exists>u req rcpt m ev. CurrentUser r = Some u \<and> decode_send r = Some req \<and> Validate req = [] \<and>
    live_account (w_db w) (UserID rcpt) = Some rcpt \<and> Username rcpt = sm_RecipientUsername req \<and>
    SenderID m = au_ID u \<and> RecipientID m = UserID rcpt \<and> Body m = sm_Body req \<and> IV m = sm_IV req \<and>
    ClientMessageID m = sm_ClientMessageID req \<and>
    mailbox (w_db w') = mailbox (w_db w) @ [m] \<and> rs_payload resp = Json (message_json m) \<and>
    w_jobs w' = w_jobs w @ [JobPublishCreated ev] \<and> w_metrics w' = w_metrics w @ [Inc MessagesSent []] \<and>
    (\<forall>v. db_ok (w_db v) \<and> faults (w_db v) = [] \<and> m \<in> set (mailbox (w_db v)) \<longrightarrow>
       message_subscriber_step sv (createdChannel, created_json ev) v =
       on_hub (SendMessageToUser (UserID rcpt) m) (on_hub (SendMessageToUser (au_ID u) m) v))"
  using send_event [OF assms] created_step [OF assms(2)]
  by (elim exE conjE) (intro exI conjI; fastforce)

text \<open>Alice sends bob a message.\<close>

definition alice :: AuthUser where "alice = \<lparr>au_ID = 1, au_Username = ''alice''\<rparr>"

definition demo_send_request :: request where
  "demo_send_request =
     (demo_request ''POST'' [] (Some (JObj [(''recipientUsername'', JStr ''bob''), (''body'', JStr ''x''),
        (''iv'', JStr ''n''), (''clientMessageId'', JStr ''a9'')])))\<lparr>rq_user := Some alice\<rparr>"

lemma demo_decode_send:
  "decode_send demo_send_request = Some \<lparr>sm_RecipientUsername = ''bob'', sm_Body = ''x'', sm_IV = ''n'',
     sm_Encrypted = False, sm_ClientMessageID = ''a9''\<rparr>"
  by code_simp

lemma demo_bob: "us_GetByUsername (pg_user_store (=) length) ''bob'' demo_db =
    (Inr (scan_user (demo_user 2 ''bob'')), demo_db)"
  by (simp add: pg_user_store_def GetByUsername_def GetUserByUsername_def select_one_def live_def demo_defs)

lemma demo_send_runs:
  "\<exists>w'. SendMessageHandler demo_server demo_send_request demo_world =
    (json_body 201 (message_json (scanMsg (new_message_row 1 2 ''x'' ''n'' False ''a9'' demo_db))), w')"
proof -
  have send: "CreateOrGetExisting 1 2 ''x'' ''n'' False ''a9'' demo_db =
     (Inr (scanMsg (new_message_row 1 2 ''x'' ''n'' False ''a9'' demo_db), True),
      demo_db\<lparr>msg_seq := msg_seq demo_db + 1, tb := (tb demo_db)\<lparr>messages :=
        messages (tb demo_db) @ [new_message_row 1 2 ''x'' ''n'' False ''a9'' demo_db]\<rparr>\<rparr>)"
    by (rule CreateOrGetExisting_fresh) (simp_all add: int4_ok_def same_client_id_def demo_defs)
  have "rq_method demo_send_request = ''POST''" "CurrentUser demo_send_request = Some alice"
    by (simp_all add: demo_send_request_def CurrentUser_def)
  moreover have "UserID (scan_user (demo_user 2 ''bob'')) = 2" by (simp add: demo_user_def)
  ultimately show ?thesis
    by (simp add: SendMessageHandler_def demo_decode_send Validate_def maxUsernameLen_def maxMessageLen_def
        on_db_def demo_bob alice_def pg_message_store_def send)
qed

theorem send_reaches_both_witness:
  "\<exists>w' m. SendMessageHandler demo_server demo_send_request demo_world = (json_body 201 (message_json m), w') \<and>
     mailbox (w_db w') = mailbox demo_db @ [m] \<and> length (w_jobs w') = 1"
proof -
  obtain w' where r: "SendMessageHandler demo_server demo_send_request demo_world =
    (json_body 201 (message_json (scanMsg (new_message_row 1 2 ''x'' ''n'' False ''a9'' demo_db))), w')"
    using demo_send_runs by blast
  have seqs: "msg_seq (w_db demo_world) \<le> max_int64" "user_seq (w_db demo_world) \<le> max_int64"
    "db_ok (w_db demo_world)" "rs_status (json_body 201 v) = 201" for v
    by (simp_all, simp_all add: demo_db_def)
  from send_reaches_both [OF demo_server_simps(1,2) seqs(3,1) demo_server_simps(12) seqs(2) r seqs(4)]
  obtain m ev where m: "mailbox (w_db w') = mailbox demo_db @ [m]" "w_jobs w' = [JobPublishCreated ev]"
    "message_json (scanMsg (new_message_row 1 2 ''x'' ''n'' False ''a9'' demo_db)) = message_json m"
    by auto
  then show ?thesis using r by auto
qed

section \<open>What a listing answers\<close>

lemma page_limit_bounds: "1 \<le> page_limit r \<and> page_limit r \<le> 100"
  by (simp add: page_limit_def defaultPageSize_def maxPageSize_def Let_def split: sum.split)

text \<open>The page of a conversation that a cursor, a direction and a limit describe.\<close>

definition page_of :: "bool \<Rightarrow> int64 \<Rightarrow> nat \<Rightarrow> message list \<Rightarrow> message list \<times> bool" where
  "page_of back n l conv =
     (if back then let r = filter (\<lambda>m. ID m < n) conv in (drop (length r - l) r, l < length r)
      else let r = filter (\<lambda>m. n < ID m) conv in (take l r, l < length r))"

lemma pg_list:
  assumes "sv_msgs sv = pg_message_store" "db_ok (w_db w)" "0 < l"
  shows "on_db (ms_ListConversationBefore (sv_msgs sv) u p n l) w = (res, w') \<Longrightarrow>
      mailbox (w_db w') = mailbox (w_db w) \<and> (\<forall>x. res = Inr x \<longrightarrow>
        x = page_of True n (nat l) (filter (in_conversation u p) (mailbox (w_db w))))"
    "on_db (ms_ListConversationSince (sv_msgs sv) u p n l) w = (res, w') \<Longrightarrow>
      mailbox (w_db w') = mailbox (w_db w) \<and> (\<forall>x. res = Inr x \<longrightarrow>
        x = page_of False n (nat l) (filter (in_conversation u p) (mailbox (w_db w))))"
proof -
  assume "on_db (ms_ListConversationBefore (sv_msgs sv) u p n l) w = (res, w')"
  then obtain d where d: "ms_ListConversationBefore (sv_msgs sv) u p n l (w_db w) = (res, d)" "w' = w\<lparr>w_db := d\<rparr>"
    by (rule on_db_cases)
  from pg_box.before [OF assms(2,3) d(1) [unfolded assms(1)]] d(2)
  show "mailbox (w_db w') = mailbox (w_db w) \<and> (\<forall>x. res = Inr x \<longrightarrow>
        x = page_of True n (nat l) (filter (in_conversation u p) (mailbox (w_db w))))"
    by (auto simp: page_of_def conj_commute Let_def)
next
  assume "on_db (ms_ListConversationSince (sv_msgs sv) u p n l) w = (res, w')"
  then obtain d where d: "ms_ListConversationSince (sv_msgs sv) u p n l (w_db w) = (res, d)" "w' = w\<lparr>w_db := d\<rparr>"
    by (rule on_db_cases)
  from pg_box.since [OF assms(2,3) d(1) [unfolded assms(1)]] d(2)
  show "mailbox (w_db w') = mailbox (w_db w) \<and> (\<forall>x. res = Inr x \<longrightarrow>
        x = page_of False n (nat l) (filter (in_conversation u p) (mailbox (w_db w))))"
    by (auto simp: page_of_def conj_commute Let_def)
qed

lemma ListMessagesHandler_ok:
  assumes "ListMessagesHandler sv r w = (resp, w')" "rs_status resp = 200"
  obtains u peer w1 n res where "CurrentUser r = Some u" "lookup ''peer'' (rq_query r) \<noteq> []"
    "on_db (us_GetByUsername (sv_users sv) (lookup ''peer'' (rq_query r))) w = (Inr peer, w1)"
    "resp = json_body 200 (list_response res)"
    "if lookup ''beforeId'' (rq_query r) \<noteq> []
     then parse_int64 (lookup ''beforeId'' (rq_query r)) = Inr n \<and> 0 < n \<and>
       on_db (ms_ListConversationBefore (sv_msgs sv) (au_ID u) (UserID peer) n (page_limit r)) w1 = (Inr res, w')
     else (if lookup ''sinceId'' (rq_query r) = [] then n = 0
           else parse_int64 (lookup ''sinceId'' (rq_query r)) = Inr n \<and> 0 \<le> n) \<and>
       on_db (ms_ListConversationSince (sv_msgs sv) (au_ID u) (UserID peer) n (page_limit r)) w1 = (Inr res, w')"
  using assms unfolding ListMessagesHandler_def Let_def
  by (auto split: if_split_asm option.split_asm prod.split_asm sum.split_asm)

text \<open>
  A listing answers one page of the caller's own conversation. A 200 answer carries exactly
  the page of the conversation between the caller and the live account named \<open>peer\<close> that the
  cursor (a positive \<open>beforeId\<close>, else a non-negative \<open>sinceId\<close>, else the beginning) and the limit
  describe; the limit in force is between 1 and 100 whatever the request asks, the messages of
  deleted rows are blank, and no message changes.
\<close>

theorem list_is_page:
  assumes "sv_users sv = pg_user_store ilike collate" "sv_msgs sv = pg_message_store"
    "db_ok (w_db w)" "ListMessagesHandler sv r w = (resp, w')" "rs_status resp = 200"
  shows "\<exists>u peer n l. CurrentUser r = Some u \<and> live_account (w_db w) (UserID peer) = Some peer \<and>
    Username peer = lookup ''peer'' (rq_query r) \<and> 1 \<le> l \<and> l \<le> 100 \<and> 0 \<le> n \<and>
    rs_payload resp = Json (list_response (page_of (lookup ''beforeId'' (rq_query r) \<noteq> []) n l
      (filter (in_conversation (au_ID u) (UserID peer)) (mailbox (w_db w))))) \<and>
    length (fst (page_of (lookup ''beforeId'' (rq_query r) \<noteq> []) n l
      (filter (in_conversation (au_ID u) (UserID peer)) (mailbox (w_db w))))) \<le> l \<and>
    mailbox (w_db w') = mailbox (w_db w)"
  using assms(4,5)
proof (rule ListMessagesHandler_ok)
  fix u peer w1 n res
  let ?b = "lookup ''beforeId'' (rq_query r) \<noteq> []"
  assume u: "CurrentUser r = Some u"
    and look: "on_db (us_GetByUsername (sv_users sv) (lookup ''peer'' (rq_query r))) w = (Inr peer, w1)"
    and resp: "resp = json_body 200 (list_response res)"
    and run: "if ?b
     then parse_int64 (lookup ''beforeId'' (rq_query r)) = Inr n \<and> 0 < n \<and>
       on_db (ms_ListConversationBefore (sv_msgs sv) (au_ID u) (UserID peer) n (page_limit r)) w1 = (Inr res, w')
     else (if lookup ''sinceId'' (rq_query r) = [] then n = 0
           else parse_int64 (lookup ''sinceId'' (rq_query r)) = Inr n \<and> 0 \<le> n) \<and>
       on_db (ms_ListConversationSince (sv_msgs sv) (au_ID u) (UserID peer) n (page_limit r)) w1 = (Inr res, w')"
  from pg_by_name [OF assms(1,3) look] obtain d1 where
    d1: "w1 = w\<lparr>w_db := d1\<rparr>" "db_ok d1" "mailbox d1 = mailbox (w_db w)"
    and peer: "live_account (w_db w) (UserID peer) = Some peer" "Username peer = lookup ''peer'' (rq_query r)"
    using agree_mailbox(1) by fastforce
  have lim: "0 < page_limit r" "1 \<le> nat (page_limit r)" "nat (page_limit r) \<le> 100"
    using page_limit_bounds [of r] by linarith+
  note lists = pg_list [OF assms(2) _ lim(1), of w1 "au_ID u" "UserID peer" n "Inr res" w']
  have ok1: "db_ok (w_db w1)" using d1 by simp
  have "res = page_of ?b n (nat (page_limit r)) (filter (in_conversation (au_ID u) (UserID peer)) (mailbox (w_db w)))
      \<and> mailbox (w_db w') = mailbox (w_db w)"
  proof (cases ?b)
    case True
    with run lists(1) [OF ok1] d1 show ?thesis by simp
  next
    case False
    with run lists(2) [OF ok1] d1 show ?thesis by simp
  qed
  moreover have "0 \<le> n" using run by (auto split: if_splits)
  moreover have "length (fst (page_of b n l c)) \<le> l" for b n l c
  proof -
    have "k - (k - l) \<le> l" for k by linarith
    then show ?thesis by (simp add: page_of_def Let_def)
  qed
  ultimately show ?thesis
    using u peer lim(2,3) resp
    by (intro exI [of _ u] exI [of _ peer] exI [of _ n] exI [of _ "nat (page_limit r)"]) simp
qed

theorem list_is_page_witness:
  "\<exists>p w'. ListMessagesHandler demo_server
      ((demo_request ''GET'' [] None)\<lparr>rq_user := Some alice, rq_query := [(''peer'', ''bob'')]\<rparr>) demo_world =
        (json_body 200 (list_response p), w') \<and> mailbox (w_db w') = mailbox demo_db"
proof -
  let ?r = "(demo_request ''GET'' [] None)\<lparr>rq_user := Some alice, rq_query := [(''peer'', ''bob'')]\<rparr>"
  have b: "ur_id (demo_user 2 ''bob'') = 2" by (simp add: demo_user_def)
  have dl: "faults demo_db = []" by simp
  obtain p where "fst (ListConversationSince 1 2 0 50 demo_db) = Inr p"
    using listings_no_faults(1) [OF dl] by blast
  then obtain d where l: "ListConversationSince 1 2 0 50 demo_db = (Inr p, d)" by (metis prod.collapse)
  have run: "ListMessagesHandler demo_server ?r demo_world = (json_body 200 (list_response p), demo_world\<lparr>w_db := d\<rparr>)"
    using l by (simp add: ListMessagesHandler_def CurrentUser_def lookup_def on_db_def demo_bob b alice_def
        page_limit_def defaultPageSize_def maxPageSize_def pg_message_store_def)
  have "db_ok (w_db demo_world)" "rs_status (json_body 200 (list_response p)) = 200" by simp_all
  from list_is_page [OF demo_server_simps(1,2) this(1) run this(2)]
  have "mailbox (w_db (demo_world\<lparr>w_db := d\<rparr>)) = mailbox (w_db demo_world)" by blast
  then have "mailbox (w_db (demo_world\<lparr>w_db := d\<rparr>)) = mailbox demo_db" by (simp only: demo_world_simps)
  with run show ?thesis by blast
qed

section \<open>What a deletion does\<close>

lemma pg_delete:
  assumes "sv_msgs sv = pg_message_store" "db_ok (w_db w)"
    "on_db (ms_SoftDelete (sv_msgs sv) i s) w = (res, w')"
  shows "\<exists>d. w' = w\<lparr>w_db := d\<rparr> \<and> (case res of
         Inl err \<Rightarrow> tb d = tb (w_db w) \<and>
           (err = ErrMessageNotFound \<and> \<not> (\<exists>x \<in> set (messages (tb (w_db w))). deletable i s x) \<or> (\<exists>t. err = DBError t))
       | Inr m \<Rightarrow> (\<exists>x \<in> set (messages (tb (w_db w))). deletable i s x \<and> ID m = i \<and> SenderID m = s \<and> RecipientID m = mr_recipient_id x) \<and>
           tb d = (tb (w_db w))\<lparr>messages := map (\<lambda>y. if mr_id y = i then y\<lparr>mr_deleted_at := Some (clock (w_db w))\<rparr> else y)
             (messages (tb (w_db w)))\<rparr> \<and>
           (\<exists>now. mailbox d = map (\<lambda>y. if ID y = i then blank now y else y) (mailbox (w_db w))))"
proof -
  from assms(3) obtain d where d: "SoftDelete i s (w_db w) = (res, d)" "w' = w\<lparr>w_db := d\<rparr>"
    by (auto simp: assms(1) pg_message_store_def elim: on_db_cases)
  have box: "ms_SoftDelete pg_message_store i s (w_db w) = (res, d)" using d(1) by (simp add: pg_message_store_def)
  note t = SoftDelete_tables [OF assms(2) d(1)] and b = pg_box.delete [OF assms(2) box]
  have none: "\<not> deletable i s x" if "res = Inl ErrMessageNotFound" "x \<in> set (messages (tb (w_db w)))" for x
  proof
    assume "deletable i s x"
    with that(2) have "display x \<in> set (mailbox (w_db w))" "ID (display x) = i" "SenderID (display x) = s" "DeletedAt (display x) = None"
      by (auto simp: set_mailbox deletable_def)
    with b that(1) show False by auto
  qed
  show ?thesis
  proof (cases res)
    case (Inl err)
    then show ?thesis using t b none d(2) by auto
  next
    case (Inr m)
    from d(1) Inr obtain x where "x \<in> set (messages (tb (w_db w)))" "deletable i s x"
      "m = scanMsg (x\<lparr>mr_deleted_at := Some (clock (w_db w))\<rparr>)" by (cases rule: SoftDelete_cases) auto
    with Inr t b d(2) show ?thesis by (auto simp: scanMsg_def deletable_def)
  qed
qed

lemma deleted_step:
  assumes "in_int64 (md_MessageID ev)" "in_int64 (md_SenderID ev)" "in_int64 (md_RecipientID ev)"
  shows "message_subscriber_step sv (deletedChannel, deleted_json ev) v =
    on_hub (SendMessageDeletedToUsers (md_SenderID ev) (md_RecipientID ev) (md_MessageID ev)) v"
  using assms
  by (simp add: message_subscriber_step_def createdChannel_def deletedChannel_def decode_deleted_def
      deleted_json_def get_int_def in_int64_def)

lemma mailbox_in_int64:
  assumes "db_ok d" "msg_seq d \<le> max_int64" "user_seq d \<le> max_int64" "x \<in> set (mailbox d)"
  shows "in_int64 (ID x)" "in_int64 (SenderID x)" "in_int64 (RecipientID x)"
proof -
  from assms(4) obtain r where r: "r \<in> set (messages (tb d))" "x = display r" by (auto simp: set_mailbox)
  have m: "0 < mr_id r" "mr_id r < msg_seq d"
    and u: "mr_sender_id r \<in> ur_id ` set (users (tb d))" "mr_recipient_id r \<in> ur_id ` set (users (tb d))"
    and b: "\<forall>y \<in> set (users (tb d)). 0 < ur_id y \<and> ur_id y < user_seq d"
    using assms(1) r(1) by (auto simp: ok_defs)
  have k: "in_int64 i" if "i \<in> ur_id ` set (users (tb d))" for i
    using that b assms(3) by (force simp: in_int64_def)
  show "in_int64 (ID x)" using m assms(2) r(2) by (simp add: in_int64_def)
  show "in_int64 (SenderID x)" "in_int64 (RecipientID x)" using k [OF u(1)] k [OF u(2)] r(2) by simp_all
qed



end
