(* ===== verification/Auth_Handlers.thy ===== *)
theory Auth_Handlers
  imports Message_Handlers
begin

text \<open>
  \<open>auth_handlers.go\<close>: registration, login, rotation and revocation of refresh tokens, the list of
  users, and \<open>HealthHandler\<close>. Random bytes are drawn from the world; a password hash draws its
  salt, a refresh token its 32 bytes.
\<close>

section \<open>Requests and answers\<close>

definition HealthHandler :: "'w handler" where
  "HealthHandler r w = (json_body 200 (JObj [(''status'', JStr ''ok'')]), w)"

record RegisterRequest =
  rr_Username :: string
  rr_Password :: string
  rr_InviteCode :: string

definition decode_register :: "request \<Rightarrow> RegisterRequest option" where
  "decode_register r =
     (case body_members r of None \<Rightarrow> None | Some ms \<Rightarrow>
        (case (get_string ''username'' ms, get_string ''password'' ms, get_string ''invite_code'' ms) of
           (Some u, Some p, Some c) \<Rightarrow> Some \<lparr>rr_Username = u, rr_Password = p, rr_InviteCode = c\<rparr>
         | _ \<Rightarrow> None))"

record LoginRequest =
  lr_Username :: string
  lr_Password :: string

definition decode_login :: "request \<Rightarrow> LoginRequest option" where
  "decode_login r =
     (case body_members r of None \<Rightarrow> None | Some ms \<Rightarrow>
        (case (get_string ''username'' ms, get_string ''password'' ms) of
           (Some u, Some p) \<Rightarrow> Some \<lparr>lr_Username = u, lr_Password = p\<rparr>
         | _ \<Rightarrow> None))"

definition session_json :: "user \<Rightarrow> string \<Rightarrow> string \<Rightarrow> jv" where
  "session_json u token rt =
     JObj [(''id'', JInt (UserID u)), (''username'', JStr (Username u)), (''token'', JStr token),
           (''refresh_token'', JStr rt)]"

definition refresh_json :: "string \<Rightarrow> string \<Rightarrow> jv" where
  "refresh_json token rt = JObj [(''token'', JStr token), (''refresh_token'', JStr rt)]"

section \<open>Handlers\<close>

text \<open>The common end of registration and login: an access token, then a stored refresh token.\<close>

definition generate :: "('d, 's, 'l) server \<Rightarrow> user \<Rightarrow> ('d, 's, 'l) world \<Rightarrow> string option" where
  "generate sv u w = jwt_Generate (sv_jwt sv) (sv_mgr sv) (w_now w) (UserID u) (Username u)"

definition start_session ::
  "('d, 's, 'l) server \<Rightarrow> user \<Rightarrow> ('d, 's, 'l) world \<Rightarrow> response \<times> ('d, 's, 'l) world" where
  "start_session sv u w =
     (case generate sv u w of
        None \<Rightarrow> (writeJSONError 500 ''failed to generate token'', w)
      | Some token \<Rightarrow>
     (case draw w of (entropy, w1) \<Rightarrow>
     (case newRefreshToken entropy of
        None \<Rightarrow> (writeJSONError 500 ''failed to generate token'', w1)
      | Some rt \<Rightarrow>
     (case on_rd (storeRefreshToken (sv_redis sv) rt (UserID u)) w1 of
        (Inl _, w2) \<Rightarrow> (writeJSONError 500 ''failed to generate token'', w2)
      | (Inr _, w2) \<Rightarrow> (writeJSON 200 (session_json u token rt), w2)))))"

definition RegisterHandler :: "('d, 's, 'l) server \<Rightarrow> ('d, 's, 'l) world handler" where
  "RegisterHandler sv r w =
     (case decode_register r of
        None \<Rightarrow> (writeJSONError 400 ''invalid JSON'', w)
      | Some req \<Rightarrow>
      let username = TrimSpace (rr_Username req) in
      if username = [] \<or> rr_Password req = [] then (writeJSONError 400 ''username and password required'', w)
      else if rr_InviteCode req = [] then (writeJSONError 403 ''invite code required'', w)
      else case draw w of (salt, w1) \<Rightarrow>
     (case GenerateFromPassword (sv_bcrypt sv) salt (rr_Password req) of
        None \<Rightarrow> (writeJSONError 500 ''could not hash password'', w1)
      | Some hash \<Rightarrow>
     (case on_db (us_RegisterWithInvite (sv_users sv) (rr_InviteCode req) username hash) w1 of
        (Inl err, w2) \<Rightarrow>
          (if errors_Is err ErrInvalidInviteCode
           then writeJSONError 403 ''invalid or already used invite code''
           else if errors_Is err ErrUsernameTaken then writeJSONError 409 ''username already taken''
           else writeJSONError 500 ''failed to create user'', w2)
      | (Inr user, w2) \<Rightarrow> start_session sv user w2)))"

definition idLimited :: "('d, 's, 'l) server \<Rightarrow> string \<Rightarrow> ('d, 's, 'l) world \<Rightarrow> bool \<times> ('d, 's, 'l) world" where
  "idLimited sv key = limited (sv_limits sv) w_now w_idLimiter (\<lambda>l w. w\<lparr>w_idLimiter := l\<rparr>) key"

definition LoginHandler :: "('d, 's, 'l) server \<Rightarrow> ('d, 's, 'l) world handler" where
  "LoginHandler sv r w =
     (case decode_login r of
        None \<Rightarrow> (writeJSONError 400 ''invalid JSON'', w)
      | Some req \<Rightarrow>
      let username = TrimSpace (lr_Username req) in
      if username = [] \<or> lr_Password req = [] then (writeJSONError 400 ''username and password required'', w)
      else case idLimited sv (uc_ToLower (sv_unicode sv) username) w of
        (False, w1) \<Rightarrow> (writeJSONError 429 ''too many requests'', w1)
      | (True, w1) \<Rightarrow>
     (case on_db (us_GetUserByUsername (sv_users sv) username) w1 of
        (Inl err, w2) \<Rightarrow>
          (if err = ErrUserNotFound then writeJSONError 401 ''invalid credentials''
           else writeJSONError 500 ''internal server error'', w2)
      | (Inr user, w2) \<Rightarrow>
          if \<not> CompareHashAndPassword (sv_bcrypt sv) (PasswordHash user) (lr_Password req)
          then (writeJSONError 401 ''invalid credentials'', w2)
          else start_session sv user w2))"

text \<open>
  \<open>RefreshHandler\<close> in its two halves: looking the token and its account up, and rotating. Another
  request can run between them.
\<close>

definition refresh_lookup ::
  "('d, 's, 'l) server \<Rightarrow> request \<Rightarrow> ('d, 's, 'l) world \<Rightarrow> (response + string \<times> user) \<times> ('d, 's, 'l) world" where
  "refresh_lookup sv r w =
     (case string_field ''refresh_token'' r of
        None \<Rightarrow> (Inl (writeJSONError 400 ''invalid JSON''), w)
      | Some rt \<Rightarrow>
      if rt = [] then (Inl (writeJSONError 401 ''refresh_token required''), w)
      else case on_rd (lookupRefreshToken (sv_redis sv) rt) w of
        (Inl _, w1) \<Rightarrow> (Inl (writeJSONError 401 ''invalid or expired refresh token''), w1)
      | (Inr userID, w1) \<Rightarrow>
     (case on_db (us_GetUserByID (sv_users sv) userID) w1 of
        (Inl _, w2) \<Rightarrow> (Inl (writeJSONError 401 ''account not found''), w2)
      | (Inr user, w2) \<Rightarrow> (Inr (rt, user), w2)))"

definition refresh_rotate ::
  "('d, 's, 'l) server \<Rightarrow> string \<Rightarrow> user \<Rightarrow> ('d, 's, 'l) world \<Rightarrow> response \<times> ('d, 's, 'l) world" where
  "refresh_rotate sv rt user w =
     (case on_rd (deleteRefreshToken (sv_redis sv) rt) w of (_, w1) \<Rightarrow>
     (case draw w1 of (entropy, w2) \<Rightarrow>
     (case newRefreshToken entropy of
        None \<Rightarrow> (writeJSONError 500 ''failed to generate token'', w2)
      | Some newRT \<Rightarrow>
     (case on_rd (storeRefreshToken (sv_redis sv) newRT (UserID user)) w2 of
        (Inl _, w3) \<Rightarrow> (writeJSONError 500 ''failed to generate token'', w3)
      | (Inr _, w3) \<Rightarrow>
     (case generate sv user w3 of
        None \<Rightarrow> (writeJSONError 500 ''failed to generate token'', w3)
      | Some token \<Rightarrow> (writeJSON 200 (refresh_json token newRT), w3))))))"

definition RefreshHandler :: "('d, 's, 'l) server \<Rightarrow> ('d, 's, 'l) world handler" where
  "RefreshHandler sv r w =
     (case refresh_lookup sv r w of
        (Inl resp, w1) \<Rightarrow> (resp, w1)
      | (Inr (rt, user), w1) \<Rightarrow> refresh_rotate sv rt user w1)"

definition LogoutHandler :: "('d, 's, 'l) server \<Rightarrow> ('d, 's, 'l) world handler" where
  "LogoutHandler sv r w =
     (case string_field ''refresh_token'' r of
        None \<Rightarrow> (writeJSONError 400 ''invalid JSON'', w)
      | Some rt \<Rightarrow>
          (writeJSON 200 (JObj [(''status'', JStr ''ok'')]),
           if rt \<noteq> [] then snd (on_rd (deleteRefreshToken (sv_redis sv) rt) w) else w))"

definition user_json :: "user \<Rightarrow> jv" where
  "user_json u = JObj [(''id'', JInt (UserID u)), (''username'', JStr (Username u))]"

definition ListUsersHandler :: "('d, 's, 'l) server \<Rightarrow> ('d, 's, 'l) world handler" where
  "ListUsersHandler sv r w =
     (let q = TrimSpace (lookup ''search'' (rq_query r)) in
      case (if q \<noteq> [] then on_db (us_SearchUsers (sv_users sv) q) w else on_db (us_ListUsers (sv_users sv)) w) of
        (Inl _, w1) \<Rightarrow> (writeJSONError 500 ''failed to list users'', w1)
      | (Inr us, w1) \<Rightarrow> (writeJSON 200 (JArr (map user_json us)), w1))"

section \<open>Sessions\<close>

text \<open>What a key of Redis holds for a refresh token.\<close>

definition token_owner :: "string \<Rightarrow> redis_view \<Rightarrow> string option" where
  "token_owner rt v = rv_str v (refreshTokenPrefix @ rt)"

lemma on_rd_world:
  assumes "on_rd f w = (x, w')"
  shows "f (w_rd w) = (x, w_rd w') \<and> w_db w' = w_db w \<and> w_now w' = w_now w \<and> w_hub w' = w_hub w \<and> w_entropy w' = w_entropy w"
  using assms by (auto elim: on_rd_cases)

lemma draw_world:
  assumes "draw w = (e, w')"
  shows "w_rd w' = w_rd w \<and> w_db w' = w_db w \<and> w_now w' = w_now w \<and> w_hub w' = w_hub w"
  using assms by (auto elim: draw_cases)

lemma store_token:
  assumes "redis_laws (sv_redis sv) view" "on_rd (storeRefreshToken (sv_redis sv) rt i) w = (Inr x, w')"
  shows "token_owner rt (view (w_rd w')) = Some (FormatInt i) \<and>
    (\<forall>t. t \<noteq> rt \<longrightarrow> token_owner t (view (w_rd w')) = token_owner t (view (w_rd w)))"
proof -
  have "rd_Set (sv_redis sv) (refreshTokenPrefix @ rt) (FormatInt i) refreshTokenTTL (w_rd w) = (Inr x, w_rd w')"
    using on_rd_world [OF assms(2)] by (simp add: storeRefreshToken_def)
  with redis_lawsD(3) [OF assms(1), of "refreshTokenPrefix @ rt" "FormatInt i" refreshTokenTTL "w_rd w"]
  have "view (w_rd w') = e_set (refreshTokenPrefix @ rt) (FormatInt i) refreshTokenTTL (view (w_rd w))"
    by (simp add: applies_def)
  then show ?thesis by (simp add: token_owner_def e_set_def)
qed

lemma start_session_200:
  assumes "start_session sv u w = (resp, w')" "rs_status resp = 200" "redis_laws (sv_redis sv) view"
  shows "\<exists>token rt. resp = writeJSON 200 (session_json u token rt) \<and>
    jwt_Generate (sv_jwt sv) (sv_mgr sv) (w_now w) (UserID u) (Username u) = Some token \<and>
    token_owner rt (view (w_rd w')) = Some (FormatInt (UserID u)) \<and> w_db w' = w_db w"
proof -
  obtain token where t: "generate sv u w = Some token"
    using assms(1,2) by (cases "generate sv u w") (auto simp: start_session_def)
  obtain e w1 where d: "draw w = (e, w1)" by fastforce
  obtain rt where rt: "newRefreshToken e = Some rt"
    using assms(1,2) t d by (cases "newRefreshToken e") (auto simp: start_session_def)
  obtain res w2 where s: "on_rd (storeRefreshToken (sv_redis sv) rt (UserID u)) w1 = (res, w2)" by fastforce
  obtain x where x: "res = Inr x" using assms(1,2) t d rt s by (cases res) (auto simp: start_session_def)
  have "resp = writeJSON 200 (session_json u token rt)" "w' = w2"
    using assms(1) t d rt s x by (auto simp: start_session_def)
  moreover have "token_owner rt (view (w_rd w2)) = Some (FormatInt (UserID u))"
    using store_token [OF assms(3) s [unfolded x]] by blast
  moreover have "w_db w2 = w_db w" using on_rd_world [OF s] draw_world [OF d] by simp
  ultimately show ?thesis using t unfolding generate_def by blast
qed

section \<open>Login\<close>

lemma idLimited_world:
  assumes "idLimited sv key w = (ok, w')"
  shows "w_db w' = w_db w \<and> w_rd w' = w_rd w \<and> w_now w' = w_now w \<and> w_hub w' = w_hub w \<and> w_entropy w' = w_entropy w"
  using assms by (auto simp: idLimited_def limited_def split: prod.splits)

lemma pg_login_name:
  assumes "sv_users sv = pg_user_store ilike collate" "db_ok (w_db w)"
    "on_db (us_GetUserByUsername (sv_users sv) n) w = (res, w1)"
  shows "\<exists>d. w1 = w\<lparr>w_db := d\<rparr> \<and> db_ok d \<and> agree (w_db w) d \<and>
    (case res of Inr u \<Rightarrow> live_account (w_db w) (UserID u) = Some u \<and> Username u = n
     | Inl e \<Rightarrow> e = ErrUserNotFound \<and> (\<forall>i u. live_account (w_db w) i = Some u \<longrightarrow> Username u \<noteq> n) \<or> (\<exists>s. e = DBError s))"
  using pg_by_name [OF assms(1,2), of n res w1] assms(3) by (simp add: assms(1) pg.same_lookup)

lemma pg_name_no_faults:
  assumes "sv_users sv = pg_user_store ilike collate" "db_ok (w_db w)" "faults (w_db w) = []"
    "live_account (w_db w) i = Some u"
  shows "on_db (us_GetUserByUsername (sv_users sv) (Username u)) w = (Inr u, w)"
proof -
  from assms(4) obtain r where r: "r \<in> set (users (tb (w_db w)))" "live r" "u = scan_user r"
    by (rule live_account_row)
  have "select_one (\<lambda>x. ur_username x = ur_username r \<and> live x) (users (tb (w_db w))) = Some r"
    by (rule select_one_unique [OF r(1)])
      (use r(2) users_distinct [OF assms(2)] distinct_map_eq r(1) in auto)
  then show ?thesis
    using assms(3) r(3) by (simp add: on_db_def assms(1) pg_user_store_def GetUserByUsername_def)
qed

text \<open>
  C18: what a login answers. A 200 is given only if the name is that of a live account whose stored
  hash matches the password, and then carries that account, an access token made for it at this
  instant and a refresh token that Redis now maps to its id; no table changes in any case. And a
  login admitted by the limiter on a working database is refused in the same way, with the same
  status and body, whether the name is unknown, its account is deleted or the password is wrong.
\<close>

theorem login_outcome:
  assumes "sv_users sv = pg_user_store ilike collate" "db_ok (w_db w)" "redis_laws (sv_redis sv) view"
    "decode_login r = Some req" "LoginHandler sv r w = (resp, w')"
  shows "tb (w_db w') = tb (w_db w) \<and>
    (rs_status resp = 200 \<longrightarrow> (\<exists>u token rt. live_account (w_db w) (UserID u) = Some u \<and>
       Username u = TrimSpace (lr_Username req) \<and>
       CompareHashAndPassword (sv_bcrypt sv) (PasswordHash u) (lr_Password req) \<and>
       jwt_Generate (sv_jwt sv) (sv_mgr sv) (w_now w) (UserID u) (Username u) = Some token \<and>
       token_owner rt (view (w_rd w')) = Some (FormatInt (UserID u)) \<and>
       resp = writeJSON 200 (session_json u token rt))) \<and>
    (faults (w_db w) = [] \<and> TrimSpace (lr_Username req) \<noteq> [] \<and> lr_Password req \<noteq> [] \<and>
       fst (idLimited sv (uc_ToLower (sv_unicode sv) (TrimSpace (lr_Username req))) w) \<and>
       \<not> (\<exists>i u. live_account (w_db w) i = Some u \<and> Username u = TrimSpace (lr_Username req) \<and>
            CompareHashAndPassword (sv_bcrypt sv) (PasswordHash u) (lr_Password req)) \<longrightarrow>
       resp = writeJSONError 401 ''invalid credentials'')"
proof -
  let ?n = "TrimSpace (lr_Username req)" and ?p = "lr_Password req"
  obtain ok w1 where lim: "idLimited sv (uc_ToLower (sv_unicode sv) ?n) w = (ok, w1)" by fastforce
  note l = idLimited_world [OF lim]
  obtain res w2 where look: "on_db (us_GetUserByUsername (sv_users sv) ?n) w1 = (res, w2)" by fastforce
  have run: "LoginHandler sv r w =
     (if ?n = [] \<or> ?p = [] then (writeJSONError 400 ''username and password required'', w)
      else if \<not> ok then (writeJSONError 429 ''too many requests'', w1)
      else case res of
        Inl err \<Rightarrow> (if err = ErrUserNotFound then writeJSONError 401 ''invalid credentials''
                   else writeJSONError 500 ''internal server error'', w2)
      | Inr user \<Rightarrow> if \<not> CompareHashAndPassword (sv_bcrypt sv) (PasswordHash user) ?p
          then (writeJSONError 401 ''invalid credentials'', w2) else start_session sv user w2)"
    using assms(4) lim look by (simp add: LoginHandler_def Let_def split: sum.split)
  have ok1: "db_ok (w_db w1)" using l assms(2) by simp
  have wdb: "w_db w1 = w_db w" using l by simp
  from pg_login_name [OF assms(1) ok1 look, unfolded wdb] obtain d where d: "w2 = w1\<lparr>w_db := d\<rparr>" "agree (w_db w) d"
    and found: "case res of Inr u \<Rightarrow> live_account (w_db w) (UserID u) = Some u \<and> Username u = ?n
     | Inl e \<Rightarrow> e = ErrUserNotFound \<and> (\<forall>i u. live_account (w_db w) i = Some u \<longrightarrow> Username u \<noteq> ?n) \<or> (\<exists>s. e = DBError s)"
    by blast
  have nofault: "\<not> (\<exists>s. res = Inl (DBError s))" if "faults (w_db w) = []"
    using look that l by (auto simp: on_db_def assms(1) pg_user_store_def GetUserByUsername_def split: option.splits)
  have tb2: "tb (w_db w2) = tb (w_db w)" using d by (simp add: agreeD)
  show ?thesis
  proof (cases "?n = [] \<or> ?p = [] \<or> \<not> ok")
    case True
    then have "tb (w_db w') = tb (w_db w) \<and> rs_status resp \<noteq> 200" using run assms(5) l by (auto split: if_splits)
    with True lim show ?thesis by auto
  next
    case open_door: False
    show ?thesis
    proof (cases res)
      case (Inl e)
      then have r: "resp = (if e = ErrUserNotFound then writeJSONError 401 ''invalid credentials''
                   else writeJSONError 500 ''internal server error'')" "w' = w2"
        using run assms(5) open_door by auto
      moreover have "faults (w_db w) = [] \<longrightarrow> e = ErrUserNotFound" using found nofault Inl by auto
      ultimately show ?thesis using tb2 by auto
    next
      case (Inr u)
      show ?thesis
      proof (cases "CompareHashAndPassword (sv_bcrypt sv) (PasswordHash u) ?p")
        case False
        then have "resp = writeJSONError 401 ''invalid credentials''" "w' = w2"
          using run assms(5) open_door Inr by auto
        then show ?thesis using tb2 by simp
      next
        case True
        then have s: "start_session sv u w2 = (resp, w')" using run assms(5) open_door Inr by auto
        have db: "w_db w' = w_db w2"
          using s unfolding start_session_def
          by (auto split: option.splits prod.splits sum.splits dest!: on_rd_world draw_world)
        have now: "w_now w2 = w_now w" using d l by simp
        have "live_account (w_db w) (UserID u) = Some u" "Username u = ?n" using found Inr by simp_all
        then have "rs_status resp = 200 \<longrightarrow> (\<exists>u token rt. live_account (w_db w) (UserID u) = Some u \<and> Username u = ?n \<and>
             CompareHashAndPassword (sv_bcrypt sv) (PasswordHash u) ?p \<and>
             jwt_Generate (sv_jwt sv) (sv_mgr sv) (w_now w) (UserID u) (Username u) = Some token \<and>
             token_owner rt (view (w_rd w')) = Some (FormatInt (UserID u)) \<and>
             resp = writeJSON 200 (session_json u token rt))"
          using start_session_200 [OF s _ assms(3)] True unfolding now by metis
        moreover have "tb (w_db w') = tb (w_db w)" using db tb2 by simp
        moreover have "\<exists>i u. live_account (w_db w) i = Some u \<and> Username u = ?n \<and>
             CompareHashAndPassword (sv_bcrypt sv) (PasswordHash u) ?p"
          using True found Inr by auto
        ultimately show ?thesis by blast
      qed
    qed
  qed
qed

section \<open>Registration, then login\<close>

text \<open>\<open>CompareHashAndPassword\<close> accepts a hash made of the same password.\<close>

definition bcrypt_law :: "bcrypt \<Rightarrow> bool" where
  "bcrypt_law b \<longleftrightarrow>
     (\<forall>salt p h. GenerateFromPassword b salt p = Some h \<longrightarrow> CompareHashAndPassword b h p)"

lemma RegisterHandler_200:
  assumes "sv_users sv = pg_user_store ilike collate" "db_ok (w_db w)"
    "decode_register r = Some req" "RegisterHandler sv r w = (resp, w')" "rs_status resp = 200"
  shows "\<exists>u salt. Username u = TrimSpace (rr_Username req) \<and> TrimSpace (rr_Username req) \<noteq> [] \<and>
    rr_Password req \<noteq> [] \<and>
    GenerateFromPassword (sv_bcrypt sv) salt (rr_Password req) = Some (PasswordHash u) \<and>
    UserID u \<notin> known_ids (w_db w) \<and> db_ok (w_db w') \<and>
    live_account (w_db w') = (live_account (w_db w))(UserID u \<mapsto> u)"
proof -
  let ?n = "TrimSpace (rr_Username req)"
  obtain salt w1 where d: "draw w = (salt, w1)" by fastforce
  obtain h where h: "GenerateFromPassword (sv_bcrypt sv) salt (rr_Password req) = Some h"
    and g: "?n \<noteq> []" "rr_Password req \<noteq> []" "rr_InviteCode req \<noteq> []"
    using assms(3-5) d unfolding RegisterHandler_def Let_def
    by (cases "GenerateFromPassword (sv_bcrypt sv) salt (rr_Password req)") (auto split: if_splits)
  obtain res w2 where reg: "on_db (us_RegisterWithInvite (sv_users sv) (rr_InviteCode req) ?n h) w1 = (res, w2)"
    by fastforce
  obtain u where u: "res = Inr u"
    using assms(3-5) d h g reg unfolding RegisterHandler_def Let_def by (cases res) (auto split: if_splits)
  then have s: "start_session sv u w2 = (resp, w')"
    using assms(3-5) d h g reg by (simp add: RegisterHandler_def Let_def)
  have db: "w_db w' = w_db w2"
    using s unfolding start_session_def
    by (auto split: option.splits prod.splits sum.splits dest!: on_rd_world draw_world)
  from reg u obtain d2 where d2: "us_RegisterWithInvite (sv_users sv) (rr_InviteCode req) ?n h (w_db w) = (Inr u, d2)"
    "w2 = w1\<lparr>w_db := d2\<rparr>" using draw_world [OF d] by (auto elim!: on_db_cases)
  from pg.register [OF assms(2) d2(1) [unfolded assms(1)]]
  have "u = \<lparr>UserID = UserID u, Username = ?n, PasswordHash = h, PublicKey = []\<rparr>"
    "UserID u \<notin> known_ids (w_db w)" "live_account d2 = (live_account (w_db w))(UserID u \<mapsto> u)" "db_ok d2"
    by simp_all
  moreover from this(1) have "Username u = ?n" "PasswordHash u = h" by (metis user.select_convs(2), metis user.select_convs(3))
  ultimately show ?thesis using db d2(2) h g(1,2) by (intro exI [of _ u] exI [of _ salt]) simp
qed

text \<open>
  C19: Who registered can log in. After a registration that answered 200, a login with the same name
  (up to surrounding space) and password, if the limiter admits it and the database works, passes
  every check and starts a session for the account just created, whose id was never in use.
\<close>

theorem register_then_login:
  assumes "sv_users sv = pg_user_store ilike collate" "db_ok (w_db w)" "bcrypt_law (sv_bcrypt sv)"
    "decode_register r = Some req" "RegisterHandler sv r w = (resp, w')" "rs_status resp = 200"
    "decode_login r2 = Some lreq" "TrimSpace (lr_Username lreq) = TrimSpace (rr_Username req)"
    "lr_Password lreq = rr_Password req"
    "w_db w2 = w_db w'" "faults (w_db w') = []"
    "idLimited sv (uc_ToLower (sv_unicode sv) (TrimSpace (lr_Username lreq))) w2 = (True, w3)"
  shows "\<exists>u. LoginHandler sv r2 w2 = start_session sv u w3 \<and> UserID u \<notin> known_ids (w_db w) \<and>
    Username u = TrimSpace (rr_Username req) \<and> live_account (w_db w') (UserID u) = Some u"
proof -
  from RegisterHandler_200 [OF assms(1,2,4,5,6)] obtain u salt where
    u: "Username u = TrimSpace (rr_Username req)" "TrimSpace (rr_Username req) \<noteq> []" "rr_Password req \<noteq> []"
      "GenerateFromPassword (sv_bcrypt sv) salt (rr_Password req) = Some (PasswordHash u)"
      "UserID u \<notin> known_ids (w_db w)" "db_ok (w_db w')"
      "live_account (w_db w') = (live_account (w_db w))(UserID u \<mapsto> u)" by blast
  have w3: "w_db w3 = w_db w'" using idLimited_world [OF assms(12)] assms(10) by simp
  have l: "live_account (w_db w3) (UserID u) = Some u" using u(7) w3 by simp
  have "on_db (us_GetUserByUsername (sv_users sv) (Username u)) w3 = (Inr u, w3)"
    by (rule pg_name_no_faults [OF assms(1) _ _ l]) (simp_all add: w3 u(6) assms(11))
  moreover have "CompareHashAndPassword (sv_bcrypt sv) (PasswordHash u) (lr_Password lreq)"
    using assms(3,9) u(4) by (simp add: bcrypt_law_def)
  ultimately have "LoginHandler sv r2 w2 = start_session sv u w3"
    using assms(7,8,9,12) u(1-3) by (simp add: LoginHandler_def Let_def)
  then show ?thesis using u(1,5) l w3 by auto
qed

section \<open>Rotation of refresh tokens\<close>

lemma dead_token_refused:
  assumes "redis_laws (sv_redis sv) view" "string_field ''refresh_token'' r = Some rt" "rt \<noteq> []"
    "token_owner rt (view (w_rd w)) = None"
  shows "rs_status (fst (RefreshHandler sv r w)) = 401 \<and> w_db (snd (RefreshHandler sv r w)) = w_db w"
proof -
  obtain res w1 where l: "on_rd (lookupRefreshToken (sv_redis sv) rt) w = (res, w1)" by fastforce
  have "\<exists>e. res = Inl e"
  proof (cases "rd_Get (sv_redis sv) (refreshTokenPrefix @ rt) (w_rd w)")
    case (Pair g s)
    have "reads view id (refreshTokenPrefix @ rt) (w_rd w) (g, s)"
      using redis_lawsD(1) [OF assms(1), of "refreshTokenPrefix @ rt" "w_rd w"] Pair by simp
    then have "\<nexists>v. g = Inr v" using assms(4) by (auto simp: reads_def token_owner_def)
    then show ?thesis
      using on_rd_world [OF l] Pair
      by (cases g) (auto simp: lookupRefreshToken_def split: redis_error.splits)
  qed
  then obtain e where e: "res = Inl e" by blast
  show ?thesis
    using assms(2,3) l e on_rd_world [OF l] by (simp add: RefreshHandler_def refresh_lookup_def)
qed

lemma refresh_lookup_ok:
  assumes "sv_users sv = pg_user_store ilike collate" "db_ok (w_db w)" "redis_laws (sv_redis sv) view"
    "refresh_lookup sv r w = (Inr (rt, u), w1)"
  shows "string_field ''refresh_token'' r = Some rt \<and> rt \<noteq> [] \<and>
    (\<exists>s. token_owner rt (view (w_rd w)) = Some s \<and> parse_int64 s = Inr (UserID u)) \<and>
    live_account (w_db w) (UserID u) = Some u \<and> view (w_rd w1) = view (w_rd w) \<and> w_now w1 = w_now w \<and>
    w_entropy w1 = w_entropy w \<and> db_ok (w_db w1) \<and> w_rd w1 = snd (lookupRefreshToken (sv_redis sv) rt (w_rd w))"
proof -
  from assms(4) have f: "string_field ''refresh_token'' r = Some rt" "rt \<noteq> []"
    by (auto simp: refresh_lookup_def split: option.splits if_splits prod.splits sum.splits)
  obtain res wa where l: "on_rd (lookupRefreshToken (sv_redis sv) rt) w = (res, wa)" by fastforce
  with assms(4) f obtain i where i: "res = Inr i" by (cases res) (auto simp: refresh_lookup_def)
  have g: "on_db (us_GetUserByID (sv_users sv) i) wa = (Inr u, w1)"
    using assms(4) f l i by (auto simp: refresh_lookup_def split: prod.splits sum.splits)
  have lw: "lookupRefreshToken (sv_redis sv) rt (w_rd w) = (Inr i, w_rd wa)"
    and wa: "w_db wa = w_db w" "w_now wa = w_now w" "w_entropy wa = w_entropy w"
    using on_rd_world [OF l] i by simp_all
  obtain gr s where gr: "rd_Get (sv_redis sv) (refreshTokenPrefix @ rt) (w_rd w) = (gr, s)" by fastforce
  with lw obtain v where v: "gr = Inr v" "parse_int64 v = Inr i" "w_rd wa = s"
    by (cases gr) (auto simp: lookupRefreshToken_def split: redis_error.splits sum.splits)
  have "reads view id (refreshTokenPrefix @ rt) (w_rd w) (gr, s)"
    using redis_lawsD(1) [OF assms(3), of "refreshTokenPrefix @ rt" "w_rd w"] gr by simp
  then have own: "token_owner rt (view (w_rd w)) = Some v" "view (w_rd wa) = view (w_rd w)"
    using v by (simp_all add: reads_def token_owner_def)
  have ok: "db_ok (w_db wa)" using wa assms(2) by simp
  from pg_by_id [OF assms(1) ok g] have live: "live_account (w_db w) i = Some u" "same_but_db wa w1" "db_ok (w_db w1)"
    using wa by simp_all
  have "UserID u = i" using pg.acct_id [OF assms(2) live(1)] by simp
  then show ?thesis using f own v lw live same_but_db_fields [OF live(2)] wa by auto
qed

lemma refresh_rotate_ok:
  assumes "redis_laws (sv_redis sv) view" "refresh_rotate sv rt u w = (resp, w')" "rs_status resp = 200"
  shows "\<exists>token newRT. resp = writeJSON 200 (refresh_json token newRT) \<and>
    jwt_Generate (sv_jwt sv) (sv_mgr sv) (w_now w) (UserID u) (Username u) = Some token \<and>
    (\<exists>entropy. newRefreshToken entropy = Some newRT) \<and>
    token_owner newRT (view (w_rd w')) = Some (FormatInt (UserID u)) \<and>
    (newRT \<noteq> rt \<longrightarrow> token_owner rt (view (w_rd w')) = None \<or>
       (\<exists>e. fst (deleteRefreshToken (sv_redis sv) rt (w_rd w)) = Inl e) \<and>
       token_owner rt (view (w_rd w')) = token_owner rt (view (w_rd w))) \<and>
    (\<forall>t. t \<noteq> rt \<longrightarrow> t \<noteq> newRT \<longrightarrow> token_owner t (view (w_rd w')) = token_owner t (view (w_rd w)))"
proof -
  obtain x w1 where del: "on_rd (deleteRefreshToken (sv_redis sv) rt) w = (x, w1)" by fastforce
  obtain e w2 where d: "draw w1 = (e, w2)" by fastforce
  obtain newRT where n: "newRefreshToken e = Some newRT"
    using assms(2,3) del d by (cases "newRefreshToken e") (auto simp: refresh_rotate_def)
  obtain res w3 where st: "on_rd (storeRefreshToken (sv_redis sv) newRT (UserID u)) w2 = (res, w3)" by fastforce
  obtain y where y: "res = Inr y" using assms(2,3) del d n st by (cases res) (auto simp: refresh_rotate_def)
  obtain token where t: "generate sv u w3 = Some token"
    using assms(2,3) del d n st y by (cases "generate sv u w3") (auto simp: refresh_rotate_def)
  have out: "resp = writeJSON 200 (refresh_json token newRT)" "w' = w3"
    using assms(2) del d n st y t by (auto simp: refresh_rotate_def)
  have run: "rd_Del (sv_redis sv) (refreshTokenPrefix @ rt) (w_rd w) = (x, w_rd w2)"
    using on_rd_world [OF del] draw_world [OF d] by (simp add: deleteRefreshToken_def)
  note law = appliesD [OF redis_lawsD(4) [OF assms(1), of "refreshTokenPrefix @ rt" "w_rd w", unfolded run]]
  have "token_owner rt (view (w_rd w2)) = None \<or>
      (\<exists>e. fst (deleteRefreshToken (sv_redis sv) rt (w_rd w)) = Inl e) \<and> token_owner rt (view (w_rd w2)) = token_owner rt (view (w_rd w))"
    using law(2,4) by (cases x) (auto simp: deleteRefreshToken_def run token_owner_def e_del_def)
  moreover have "t \<noteq> rt \<Longrightarrow> token_owner t (view (w_rd w2)) = token_owner t (view (w_rd w))" for t
    using law(4) by (auto simp: token_owner_def e_del_def)
  moreover note store_token [OF assms(1) st [unfolded y]]
  ultimately have "token_owner newRT (view (w_rd w')) = Some (FormatInt (UserID u))"
    "newRT \<noteq> rt \<longrightarrow> token_owner rt (view (w_rd w')) = None \<or>
       (\<exists>e. fst (deleteRefreshToken (sv_redis sv) rt (w_rd w)) = Inl e) \<and>
       token_owner rt (view (w_rd w')) = token_owner rt (view (w_rd w))"
    "\<forall>t. t \<noteq> rt \<longrightarrow> t \<noteq> newRT \<longrightarrow> token_owner t (view (w_rd w')) = token_owner t (view (w_rd w))"
    unfolding out by auto
  moreover have "w_now w3 = w_now w" using on_rd_world [OF del] draw_world [OF d] on_rd_world [OF st] by simp
  ultimately show ?thesis using out t n unfolding generate_def by (intro exI [of _ token] exI [of _ newRT]) auto
qed

text \<open>
  C20: refresh tokens are rotated. A refresh that answers 200 presented a token that Redis mapped to
  a live account; it answers with an access token for that account as it is now, and with a new
  refresh token that Redis now maps to the same account; no third token is affected. If Redis
  answered the deletion of the old token, and the new one differs from it, the old one is gone:
  presenting it again is refused with 401 without touching the database. The handler does not look
  at that answer: after an error the old token may still be mapped to the account.
\<close>

theorem refresh_rotates:
  assumes "sv_users sv = pg_user_store ilike collate" "db_ok (w_db w)" "redis_laws (sv_redis sv) view"
    "RefreshHandler sv r w = (resp, w')" "rs_status resp = 200"
  shows "\<exists>rt s u token newRT. string_field ''refresh_token'' r = Some rt \<and>
    token_owner rt (view (w_rd w)) = Some s \<and> parse_int64 s = Inr (UserID u) \<and>
    live_account (w_db w) (UserID u) = Some u \<and> resp = writeJSON 200 (refresh_json token newRT) \<and>
    jwt_Generate (sv_jwt sv) (sv_mgr sv) (w_now w) (UserID u) (Username u) = Some token \<and>
    token_owner newRT (view (w_rd w')) = Some (FormatInt (UserID u)) \<and>
    (\<forall>t. t \<noteq> rt \<longrightarrow> t \<noteq> newRT \<longrightarrow> token_owner t (view (w_rd w')) = token_owner t (view (w_rd w))) \<and>
    (newRT \<noteq> rt \<longrightarrow>
       (case fst (deleteRefreshToken (sv_redis sv) rt (snd (lookupRefreshToken (sv_redis sv) rt (w_rd w)))) of
          Inr _ \<Rightarrow> rs_status (fst (RefreshHandler sv r w')) = 401 \<and> w_db (snd (RefreshHandler sv r w')) = w_db w'
        | Inl _ \<Rightarrow> token_owner rt (view (w_rd w')) \<in> {None, Some s}))"
proof -
  obtain x w1 where l: "refresh_lookup sv r w = (x, w1)" by fastforce
  have "\<nexists>e. x = Inl e"
  proof
    assume "\<exists>e. x = Inl e"
    then obtain e where "x = Inl e" by blast
    moreover from this l have "rs_status e \<noteq> 200"
      by (auto simp: refresh_lookup_def split: option.splits if_splits prod.splits sum.splits)
    ultimately show False using l assms(4,5) by (simp add: RefreshHandler_def)
  qed
  then obtain rt u where x: "x = Inr (rt, u)" by (metis sumE surj_pair)
  then have rot: "refresh_rotate sv rt u w1 = (resp, w')" using l assms(4) by (simp add: RefreshHandler_def)
  from refresh_lookup_ok [OF assms(1-3) l [unfolded x]] obtain s where
    s: "string_field ''refresh_token'' r = Some rt" "rt \<noteq> []" "token_owner rt (view (w_rd w)) = Some s"
      "parse_int64 s = Inr (UserID u)" "live_account (w_db w) (UserID u) = Some u" "w_now w1 = w_now w"
      "view (w_rd w1) = view (w_rd w)" "w_rd w1 = snd (lookupRefreshToken (sv_redis sv) rt (w_rd w))" by blast
  from refresh_rotate_ok [OF assms(3) rot assms(5)] obtain token newRT where
    t: "resp = writeJSON 200 (refresh_json token newRT)"
      "jwt_Generate (sv_jwt sv) (sv_mgr sv) (w_now w) (UserID u) (Username u) = Some token"
      "token_owner newRT (view (w_rd w')) = Some (FormatInt (UserID u))"
      "newRT \<noteq> rt \<longrightarrow> token_owner rt (view (w_rd w')) = None \<or>
         (\<exists>e. fst (deleteRefreshToken (sv_redis sv) rt (w_rd w1)) = Inl e) \<and> token_owner rt (view (w_rd w')) = Some s"
      "\<forall>t. t \<noteq> rt \<longrightarrow> t \<noteq> newRT \<longrightarrow> token_owner t (view (w_rd w')) = token_owner t (view (w_rd w))"
    unfolding s(3,6,7) by blast
  have "newRT \<noteq> rt \<longrightarrow> (case fst (deleteRefreshToken (sv_redis sv) rt (w_rd w1)) of
          Inr _ \<Rightarrow> rs_status (fst (RefreshHandler sv r w')) = 401 \<and> w_db (snd (RefreshHandler sv r w')) = w_db w'
        | Inl _ \<Rightarrow> token_owner rt (view (w_rd w')) \<in> {None, Some s})"
    using t(4) dead_token_refused [OF assms(3) s(1,2), of w'] by (auto split: sum.split)
  with s(1-5) t(1-3,5) show ?thesis unfolding s(8) by blast
qed

section \<open>Concrete sessions\<close>

definition demo_post :: "(string \<times> string) list \<Rightarrow> request" where
  "demo_post ms = demo_request ''POST'' [] (Some (JObj (map (\<lambda>(k, v). (k, JStr v)) ms)))"

lemma demo_names: "live_account demo_db i = Some u \<Longrightarrow> Username u \<in> {''alice'', ''bob'', ''carol''}"
  by (erule live_account_row) (auto simp: demo_defs scan_user_def)

theorem login_outcome_witness:
  "fst (LoginHandler demo_server (demo_post [(''username'', ''zed''), (''password'', ''p'')]) demo_world) =
     writeJSONError 401 ''invalid credentials''"
proof -
  let ?r = "demo_post [(''username'', ''zed''), (''password'', ''p'')]"
  have dec: "decode_login ?r = Some \<lparr>lr_Username = ''zed'', lr_Password = ''p''\<rparr>" by code_simp
  have n: "TrimSpace ''zed'' = ''zed''" by code_simp
  obtain resp w' where run: "LoginHandler demo_server ?r demo_world = (resp, w')" by fastforce
  have "fst (idLimited demo_server k demo_world)" for k
    by (simp add: idLimited_def limited_def kl_Allow_def demo_world_def NewKeyedLimiter_def counting_lib_def)
  moreover have "\<not> (\<exists>i u. live_account demo_db i = Some u \<and> Username u = ''zed'' \<and> X i u)" for X
    using demo_names by fastforce
  ultimately have "resp = writeJSONError 401 ''invalid credentials''"
    using login_outcome [OF demo_server_simps(1) _ _ dec run, of mem_observe] mem_redis_laws n by auto
  with run show ?thesis by simp
qed

lemma demo_bcrypt_law: "bcrypt_law demo_bcrypt"
  by (auto simp: bcrypt_law_def demo_bcrypt_def)

definition dave_world :: "(db, mem_server, nat) world" where
  "dave_world = snd (RegisterHandler demo_server
     (demo_post [(''username'', ''dave''), (''password'', ''pw''), (''invite_code'', ''welcome'')]) demo_world)"

theorem register_then_login_witness:
  "\<exists>u w3. LoginHandler demo_server (demo_post [(''username'', '' dave''), (''password'', ''pw'')]) dave_world =
     start_session demo_server u w3 \<and> Username u = ''dave''"
proof -
  let ?r = "demo_post [(''username'', ''dave''), (''password'', ''pw''), (''invite_code'', ''welcome'')]"
  let ?l = "demo_post [(''username'', '' dave''), (''password'', ''pw'')]"
  have dec: "decode_register ?r = Some \<lparr>rr_Username = ''dave'', rr_Password = ''pw'', rr_InviteCode = ''welcome''\<rparr>"
    "decode_login ?l = Some \<lparr>lr_Username = '' dave'', lr_Password = ''pw''\<rparr>"
    "TrimSpace '' dave'' = ''dave''" "TrimSpace ''dave'' = ''dave''" by code_simp+
  have reg: "RegisterWithInvite ''welcome'' ''dave'' ''hash-pw'' demo_db =
     (Inr \<lparr>UserID = 4, Username = ''dave'', PasswordHash = ''hash-pw'', PublicKey = []\<rparr>,
      demo_db\<lparr>user_seq := 5, tb := registered ''welcome'' ''dave'' ''hash-pw'' demo_db\<rparr>)"
    by (simp add: RegisterWithInvite_def in_tx_def register_body_def consume_update_def Let_def
        insert_user_def registered_def new_user_row_def count_where_def consumable_def demo_defs)
  obtain tok where "jwt_Generate demo_jwt \<lparr>jm_secret = ''k'', jm_ttl = 15 * minute\<rparr> 100 4 ''dave'' = Some tok"
    by (simp add: jwt_Generate_def demo_jwt_def in_int64_def)
  then have t: "generate demo_server \<lparr>UserID = 4, Username = ''dave'', PasswordHash = ''hash-pw'', PublicKey = []\<rparr> w = Some tok"
    if "w_now w = 100" for w using that by (simp add: generate_def)
  obtain resp w' where run: "RegisterHandler demo_server ?r demo_world = (resp, w')" by fastforce
  have ok: "rs_status resp = 200 \<and> faults (w_db w') = [] \<and> w_idLimiter w' = w_idLimiter demo_world"
    using run dec(1,4)
    by (simp add: RegisterHandler_def draw_def demo_bcrypt_def on_db_def pg_user_store_def start_session_def t reg
        newRefreshToken_def on_rd_def storeRefreshToken_def mem_redis_def mem_op_def mem_empty_def Let_def) auto
  have w': "w' = dave_world" using run by (simp add: dave_world_def)
  obtain b w3 where lim: "idLimited demo_server (map ascii_lower ''dave'') w' = (b, w3)" by fastforce
  then have "b" using ok
    by (simp add: idLimited_def limited_def kl_Allow_def demo_world_def NewKeyedLimiter_def counting_lib_def)
  with register_then_login [OF demo_server_simps(1) _ _ dec(1) run _ dec(2) _ _ refl, of w3] lim ok dec demo_bcrypt_law
  show ?thesis by (auto simp: w')
qed

text \<open>The token \<open>T\<close> of alice, in a Redis that answers.\<close>

definition calm_server :: "(db, mem_server, nat) server" where
  "calm_server = demo_server\<lparr>sv_redis := calm_redis\<rparr>"

definition token_world :: "(db, mem_server, nat) world" where
  "token_world = demo_world\<lparr>w_rd := snd (storeRefreshToken calm_redis ''T'' 1 mem_empty)\<rparr>"

lemma calm_ops:
  "rd_Get calm_redis k s = (ask_str k (mem_view s), calm s)"
  "rd_Set calm_redis k v ttl s = (Inr (), on_view (e_set k v ttl) (calm s))"
  "rd_Del calm_redis k s = (Inr (), on_view (e_del k) (calm s))"
  by (simp_all add: calm_redis_def mem_redis_def mem_op_def calm_def ask_str_def split: option.split)

lemma calm_redis_of [simp]: "sv_redis calm_server = calm_redis" "sv_users calm_server = pg_user_store (=) length"
  by (simp_all add: calm_server_def)

lemma token_world_runs:
  "\<exists>w'. RefreshHandler calm_server (demo_post [(''refresh_token'', ''T'')]) token_world =
     (writeJSON 200 (refresh_json demo_token (RawURLEncoding_EncodeToString ''r1'')), w')"
proof -
  let ?r = "demo_post [(''refresh_token'', ''T'')]"
  define u :: user where "u = \<lparr>UserID = 1, Username = ''alice'', PasswordHash = ''hash-alice'', PublicKey = ''key-alice''\<rparr>"
  have f: "string_field ''refresh_token'' ?r = Some ''T''"
    "FormatInt 1 = ''1''" by code_simp+
  have p: "parse_int64 ''1'' = Inr 1" using parse_int64_FormatInt [of 1] f(2) by simp
  have g: "us_GetUserByID (pg_user_store (=) length) 1 demo_db = (Inr u, demo_db)"
    by (simp add: u_def pg_user_store_def GetUserByID_def select_one_def demo_defs live_def scan_user_def)
  have rv: "rv_str (mem_view (w_rd token_world)) (refreshTokenPrefix @ ''T'') = Some ''1''"
    by (simp add: token_world_def storeRefreshToken_def calm_ops f(2) on_view_def e_set_def)
  have l: "lookupRefreshToken calm_redis ''T'' (w_rd token_world) = (Inr 1, calm (w_rd token_world))"
    by (simp add: lookupRefreshToken_def calm_ops ask_str_def rv p)
  have "refresh_lookup calm_server ?r token_world = (Inr (''T'', u), token_world\<lparr>w_rd := calm (w_rd token_world)\<rparr>)"
    by (simp add: refresh_lookup_def f(1) on_rd_def on_db_def calm_server_def l) (simp add: token_world_def g)
  moreover have gen: "generate calm_server u w = Some demo_token" if "w_now w = 100" for w
    using demo_token that by (simp add: generate_def calm_server_def u_def)
  moreover have "\<exists>w'. refresh_rotate calm_server ''T'' u (token_world\<lparr>w_rd := s\<rparr>) =
      (writeJSON 200 (refresh_json demo_token (RawURLEncoding_EncodeToString ''r1'')), w')" for s
    by (simp add: refresh_rotate_def gen on_rd_def deleteRefreshToken_def calm_ops draw_def token_world_def
        newRefreshToken_def storeRefreshToken_def)
  ultimately show ?thesis by (simp add: RefreshHandler_def)
qed

theorem refresh_rotates_witness:
  "\<exists>w'. RefreshHandler calm_server (demo_post [(''refresh_token'', ''T'')]) token_world =
      (writeJSON 200 (refresh_json demo_token (RawURLEncoding_EncodeToString ''r1'')), w') \<and>
    rs_status (fst (RefreshHandler calm_server (demo_post [(''refresh_token'', ''T'')]) w')) = 401"
proof -
  let ?r = "demo_post [(''refresh_token'', ''T'')]"
  obtain w where run: "RefreshHandler calm_server ?r token_world = (writeJSON 200 (refresh_json demo_token (RawURLEncoding_EncodeToString ''r1'')), w)"
    using token_world_runs by blast
  have s: "sv_users calm_server = pg_user_store (=) length" "db_ok (w_db token_world)" "sv_redis calm_server = calm_redis"
    by (simp_all add: calm_server_def token_world_def)
  have f: "string_field ''refresh_token'' ?r = Some ''T''" by code_simp
  have c: "rs_status (writeJSON 200 v) = 200" for v by simp
  obtain rt newRT token where "''T'' = rt"
    "writeJSON 200 (refresh_json demo_token (RawURLEncoding_EncodeToString ''r1'')) = writeJSON 200 (refresh_json token newRT)"
    "newRT \<noteq> rt \<longrightarrow> rs_status (fst (RefreshHandler calm_server ?r w)) = 401"
    using refresh_rotates [OF s(1,2) calm_redis_laws [folded s(3)] run c]
      f by (auto simp: deleteRefreshToken_def calm_ops)
  moreover from this(2) have "newRT = RawURLEncoding_EncodeToString ''r1''"
    by (simp add: writeJSON_def json_body_def refresh_json_def)
  moreover have "RawURLEncoding_EncodeToString ''r1'' \<noteq> ''T''" by (simp add: RawURLEncoding_EncodeToString_def)
  ultimately show ?thesis using run by auto
qed

end
