(* ===== verification/Store_History.thy ===== *)
theory Store_History
  imports Account_Contract Mailbox_Contract
begin

text \<open>
  Everything that can happen to the database between two looks at it: any sequence of calls of
  the two stores by any handlers and instances, failing statements and the passing of time
  included, as a step relation on the database. What survives such a history: the constraints,
  the ids that were given out, the names of accounts while they live, and erasure.
\<close>

section \<open>Histories\<close>

inductive store_step :: "db \<Rightarrow> db \<Rightarrow> bool" where
  read: "agree d d' \<Longrightarrow> store_step d d'"
| tick: "0 \<le> dt \<Longrightarrow> store_step d (d\<lparr>clock := clock d + dt\<rparr>)"
| register: "RegisterWithInvite c n h d = (ures, d') \<Longrightarrow> store_step d d'"
| create: "CreateUser n h d = (ures, d') \<Longrightarrow> store_step d d'"
| public_key: "SetPublicKey u k d = (res, d') \<Longrightarrow> store_step d d'"
| push_token: "SetPushToken u k d = (res, d') \<Longrightarrow> store_step d d'"
| password: "UpdatePassword u h d = (res, d') \<Longrightarrow> store_step d d'"
| erase: "DeleteAccountGDPR u now d = (gres, d') \<Longrightarrow> store_step d d'"
| consume_invite: "ConsumeInviteCode c n d = (res, d') \<Longrightarrow> store_step d d'"
| create_invite: "AdminCreateInvite c n ex d = (ires, d') \<Longrightarrow> store_step d d'"
| reset_invite: "AdminResetInvite c d = (res, d') \<Longrightarrow> store_step d d'"
| add_contact: "AddContact u n d = (res, d') \<Longrightarrow> store_step d d'"
| remove_contact: "RemoveContact u n d = (res, d') \<Longrightarrow> store_step d d'"
| send: "CreateOrGetExisting s p b iv e c d = (cres, d') \<Longrightarrow> store_step d d'"
| mark: "MarkRead u s d = (lres, d') \<Longrightarrow> store_step d d'"
| delete: "SoftDelete i s d = (mres, d') \<Longrightarrow> store_step d d'"

abbreviation store_history :: "db \<Rightarrow> db \<Rightarrow> bool" where
  "store_history \<equiv> store_step\<^sup>*\<^sup>*"

text \<open>Rows of accounts are never removed or renamed while live, and never come back to life.\<close>

definition accounts_evolve :: "db \<Rightarrow> db \<Rightarrow> bool" where
  "accounts_evolve d d' \<longleftrightarrow>
     user_seq d \<le> user_seq d' \<and> known_ids d \<subseteq> known_ids d' \<and>
     (\<forall>r' \<in> set (users (tb d')). user_seq d \<le> ur_id r' \<or>
        (\<exists>r \<in> set (users (tb d)). ur_id r = ur_id r' \<and> (live r' \<longrightarrow> live r \<and> ur_username r = ur_username r')))"

lemma evolve_same_users:
  assumes "users (tb d') = users (tb d)" "user_seq d \<le> user_seq d'"
  shows "accounts_evolve d d'"
  using assms unfolding accounts_evolve_def known_ids_def by auto

lemma evolve_unchanged: "unchanged d d' \<Longrightarrow> accounts_evolve d d'"
  by (rule evolve_same_users) (simp_all add: unchanged_def later_def)

lemma evolve_agree: "agree d d' \<Longrightarrow> accounts_evolve d d'"
  by (rule evolve_unchanged [OF agree_unchanged])

lemma evolve_trans:
  assumes "accounts_evolve d d1" "accounts_evolve d1 d2"
  shows "accounts_evolve d d2"
proof -
  have "user_seq d \<le> ur_id r \<or>
      (\<exists>q \<in> set (users (tb d)). ur_id q = ur_id r \<and> (live r \<longrightarrow> live q \<and> ur_username q = ur_username r))"
    if r: "r \<in> set (users (tb d2))" for r
  proof -
    from assms(2) r consider (new) "user_seq d1 \<le> ur_id r"
      | (old) x where "x \<in> set (users (tb d1))" "ur_id x = ur_id r" "live r \<longrightarrow> live x \<and> ur_username x = ur_username r"
      unfolding accounts_evolve_def by blast
    then show ?thesis
    proof cases
      case new
      then show ?thesis using assms(1) unfolding accounts_evolve_def by linarith
    next
      case old
      with assms(1) show ?thesis unfolding accounts_evolve_def by metis
    qed
  qed
  with assms show ?thesis unfolding accounts_evolve_def by (meson order_trans)
qed

lemma evolve_map_users:
  assumes "users (tb d') = update_where P f (users (tb d))" "user_seq d \<le> user_seq d'"
    and "\<And>r. ur_id (f r) = ur_id r" "\<And>r. live (f r) \<Longrightarrow> live r \<and> ur_username (f r) = ur_username r"
  shows "accounts_evolve d d'"
proof -
  let ?g = "\<lambda>r. if P r then f r else r"
  have u: "users (tb d') = map ?g (users (tb d))" unfolding assms(1) update_where_def ..
  have "ur_id (?g r) = ur_id r" for r by (simp add: assms(3))
  then have "known_ids d' = known_ids d" unfolding known_ids_def u set_map image_image by simp
  moreover have "\<exists>r \<in> set (users (tb d)). ur_id r = ur_id r' \<and> (live r' \<longrightarrow> live r \<and> ur_username r = ur_username r')"
    if "r' \<in> set (users (tb d'))" for r'
  proof -
    from that obtain r where r: "r \<in> set (users (tb d))" "r' = ?g r" unfolding u by auto
    then show ?thesis using assms(3,4) [of r] by (intro bexI [of _ r]) auto
  qed
  ultimately show ?thesis using assms(2) unfolding accounts_evolve_def by blast
qed

lemma evolve_add_user:
  assumes "users (tb d') = users (tb d) @ [new_user_row n h d]" "user_seq d' = user_seq d + 1"
  shows "accounts_evolve d d'"
  unfolding accounts_evolve_def known_ids_def assms by (auto simp: new_user_row_def)

lemma update_users_evolve:
  assumes "update_users P f d = (res, d')"
    and "\<And>r. ur_id (f r) = ur_id r" "\<And>r. live (f r) \<Longrightarrow> live r \<and> ur_username (f r) = ur_username r"
  shows "accounts_evolve d d'"
  using assms(1) unfolding update_users_def
proof (cases rule: stmt_cases)
  case (fault e)
  then show ?thesis by (simp add: evolve_agree)
next
  case (ok d0)
  then have "users (tb d') = update_where P f (users (tb d))" "user_seq d' = user_seq d" by (auto simp: agreeD)
  then show ?thesis by (intro evolve_map_users [OF _ _ assms(2,3)]) simp_all
qed

lemma CreateUser_evolve:
  assumes "CreateUser n h d = (res, d')"
  shows "accounts_evolve d d'"
  using assms [unfolded CreateUser_def]
proof (cases rule: and_then_cases)
  case (error e)
  from error(1) have "unchanged d d'"
  proof (cases rule: stmt_cases)
    case (ok d1)
    from ok(2) have "unchanged d1 d'" by (cases rule: insert_user_cases) (simp_all add: unchanged_def later_def)
    with ok(1) show ?thesis by (blast intro: agree_unchanged unchanged_trans)
  qed (rule agree_unchanged)
  then show ?thesis by (rule evolve_unchanged)
next
  case (ok x d1)
  from ok(1) obtain d0 where d0: "agree d d0" "insert_user n h d0 = (Inr x, d1)"
    by (cases rule: stmt_cases) auto
  from d0(2) have "users (tb d1) = users (tb d0) @ [new_user_row n h d0]" "user_seq d1 = user_seq d0 + 1"
    by (cases rule: insert_user_cases; simp)+
  then have "accounts_evolve d0 d1" by (rule evolve_add_user)
  with evolve_agree [OF d0(1)] ok(2) show ?thesis by (auto intro: evolve_trans)
qed

lemma store_step_evolve: "store_step d d' \<Longrightarrow> accounts_evolve d d'"
proof (induction rule: store_step.induct)
  case (read d d')
  then show ?case by (rule evolve_agree)
next
  case (tick dt d)
  show ?case by (rule evolve_same_users) simp_all
next
  case (register c n h d res d')
  then show ?case
  proof (cases rule: RegisterWithInvite_cases)
    case ok
    then show ?thesis by (intro evolve_add_user [of d' d n h]) (simp_all add: registered_def)
  qed (rule evolve_unchanged)
next
  case (create n h d res d')
  then show ?case by (rule CreateUser_evolve)
next
  case (public_key u k d res d')
  then show ?case unfolding SetPublicKey_def by (rule update_users_evolve) (simp_all add: live_def)
next
  case (push_token u k d res d')
  then show ?case unfolding SetPushToken_def by (rule update_users_evolve) (simp_all add: live_def)
next
  case (password u h d res d')
  then show ?case unfolding UpdatePassword_def by (rule update_users_evolve) (simp_all add: live_def)
next
  case (erase u now d res d')
  then show ?case
  proof (cases rule: DeleteAccountGDPR_cases)
    case (ok x)
    have "users (tb d') = update_where (\<lambda>r. ur_id r = u \<and> live r) (anonymized now) (users (tb d))"
      unfolding ok(5) erased_def using ok(3) by simp
    then show ?thesis
      using ok(6) by (intro evolve_map_users [where f = "anonymized now"]) (auto simp: later_def live_def)
  qed (rule evolve_unchanged)
next
  case (consume_invite c n d res d')
  then show ?case
    by (cases rule: ConsumeInviteCode_cases)
      (simp_all add: evolve_unchanged, simp_all add: evolve_same_users unchanged_def later_def)
next
  case (create_invite c n ex d res d')
  then show ?case
    by (cases rule: AdminCreateInvite_cases) (simp_all add: evolve_unchanged evolve_same_users agreeD)
next
  case (reset_invite c d res d')
  then show ?case
    by (cases rule: AdminResetInvite_cases)
      (simp_all add: evolve_unchanged, simp_all add: evolve_same_users unchanged_def later_def)
next
  case (add_contact u n d res d')
  then show ?case
    by (cases rule: AddContact_cases) (simp_all add: evolve_agree evolve_same_users later_def)
next
  case (remove_contact u n d res d')
  then show ?case
    by (cases rule: RemoveContact_cases) (simp_all add: evolve_unchanged evolve_same_users later_def)
next
  case (send s p b iv e c d res d')
  then show ?case by (cases rule: CreateOrGetExisting_cases) (simp_all add: evolve_same_users)
next
  case (mark u s d res d')
  then show ?case
    by (cases rule: MarkRead_cases) (simp_all add: evolve_agree, simp_all add: evolve_same_users agreeD)
next
  case (delete i s d res d')
  then show ?case
    by (cases rule: SoftDelete_cases) (simp_all add: evolve_agree, simp_all add: evolve_same_users agreeD)
qed

lemma store_step_db_ok: "store_step d d' \<Longrightarrow> db_ok d \<Longrightarrow> db_ok d'"
proof (induction rule: store_step.induct)
  case (tick dt d)
  then show ?case by (simp add: db_ok_def seqs_ok_def)
next
  case (public_key u k d res d')
  then show ?case by (auto intro: update_users_db_ok [OF public_key(2) public_key(1) [unfolded SetPublicKey_def]])
next
  case (push_token u k d res d')
  then show ?case by (auto intro: update_users_db_ok [OF push_token(2) push_token(1) [unfolded SetPushToken_def]])
next
  case (password u h d res d')
  then show ?case by (auto intro: update_users_db_ok [OF password(2) password(1) [unfolded UpdatePassword_def]])
qed (auto simp: db_ok_agree intro: RegisterWithInvite_db_ok CreateUser_db_ok DeleteAccountGDPR_db_ok
      ConsumeInviteCode_db_ok AdminCreateInvite_db_ok AdminResetInvite_db_ok AddContact_db_ok
      RemoveContact_db_ok CreateOrGetExisting_db_ok MarkRead_db_ok SoftDelete_db_ok)

section \<open>What a history preserves\<close>

lemma history_ok:
  assumes "store_history d d'" "db_ok d"
  shows "db_ok d' \<and> accounts_evolve d d'"
  using assms
proof (induction rule: rtranclp_induct)
  case base
  then show ?case by (simp add: evolve_same_users)
next
  case (step d1 d2)
  then show ?case using store_step_db_ok store_step_evolve evolve_trans by blast
qed

lemma evolve_live:
  assumes "db_ok d" "accounts_evolve d d'" "live_account d' i = Some u'" "i \<in> known_ids d"
  shows "\<exists>u. live_account d i = Some u \<and> Username u = Username u'"
proof -
  from assms(3) obtain r' where r': "r' \<in> set (users (tb d'))" "ur_id r' = i" "live r'" "u' = scan_user r'"
    by (rule live_account_row)
  have "i < user_seq d" using assms(1,4) by (auto simp: db_ok_def seqs_ok_def known_ids_def)
  with assms(2) r' obtain r where r: "r \<in> set (users (tb d))" "ur_id r = i" "live r" "ur_username r = ur_username r'"
    unfolding accounts_evolve_def by fastforce
  then have "live_account d i = Some (scan_user r)" using live_account_Some [OF assms(1) r(1,3)] by simp
  with r r' show ?thesis by simp
qed

text \<open>
  Whatever the server does to its database, in any number of calls of any store operation
  with any arguments, whichever statements fail: the schema's constraints hold, ids are never
  given out twice, an account that was erased stays erased, and an account keeps its name for as
  long as it lives.
\<close>

theorem history_keeps_accounts:
  assumes "db_ok d" "store_history d d'"
  shows "db_ok d' \<and> known_ids d \<subseteq> known_ids d' \<and>
    (\<forall>i \<in> known_ids d. live_account d i = None \<longrightarrow> live_account d' i = None) \<and>
    (\<forall>i u u'. live_account d i = Some u \<longrightarrow> live_account d' i = Some u' \<longrightarrow> Username u' = Username u)"
proof -
  note h = history_ok [OF assms(2,1)]
  then have ev: "accounts_evolve d d'" and ok: "db_ok d'" and ids: "known_ids d \<subseteq> known_ids d'"
    by (auto simp: accounts_evolve_def)
  have "live_account d' i = None" if "i \<in> known_ids d" "live_account d i = None" for i
    using evolve_live [OF assms(1) ev _ that(1)] that(2) by (cases "live_account d' i") auto
  moreover have "Username u' = Username u" if "live_account d i = Some u" "live_account d' i = Some u'" for i u u'
  proof -
    have "i \<in> known_ids d" using that(1) pg.acct_id [OF assms(1)] by blast
    from evolve_live [OF assms(1) ev that(2) this] that(1) show ?thesis by auto
  qed
  ultimately show ?thesis using ids ok by blast
qed

theorem history_keeps_accounts_witness:
  "\<exists>rec d1. DeleteAccountGDPR 1 500 demo_db = (Inr rec, d1) \<and> db_ok d1 \<and>
     live_account (snd (UpdatePassword 1 ''h'' (d1\<lparr>clock := clock d1 + 7\<rparr>))) 1 = None"
proof -
  let ?d2 = "\<lambda>d1. snd (UpdatePassword 1 ''h'' (d1\<lparr>clock := clock d1 + 7\<rparr>))"
  obtain rec d1 where e: "DeleteAccountGDPR 1 500 demo_db = (Inr rec, d1)" using demo_gdpr by blast
  from history_keeps_accounts [OF db_ok_demo r_into_rtranclp, OF store_step.erase [OF e]]
  have ok: "db_ok d1" by blast
  have "store_step d1 (d1\<lparr>clock := clock d1 + 7\<rparr>)" by (rule store_step.tick) simp
  moreover have "store_step (d1\<lparr>clock := clock d1 + 7\<rparr>) (?d2 d1)"
    by (rule store_step.password) (rule surjective_pairing)
  ultimately have "store_history d1 (?d2 d1)" by (rule converse_rtranclp_into_rtranclp [OF _ r_into_rtranclp])
  moreover have "1 \<in> known_ids d1 \<and> live_account d1 1 = None"
    using pg.erased_gone [OF db_ok_demo, of "(=)" length 1 500] e by (simp add: pg_user_store_def)
  ultimately have "live_account (?d2 d1) 1 = None" using history_keeps_accounts [OF ok] by blast
  with e ok show ?thesis by blast
qed

end
