(* ===== verification/Account_Handlers.thy ===== *)
theory Account_Handlers
  imports Auth_Handlers Store_History
begin

text \<open>
  The handlers that change an account: \<open>account_contact_handlers.go\<close> (erasure and contacts),
  \<open>password_handlers.go\<close>, \<open>key_handlers.go\<close> and the push tokens of \<open>internal_handlers.go\<close>. After
  the definitions: what an erased account can no longer do, whichever requests follow; that a
  changed password opens the next login; who may read a key and who hears of a new one.
\<close>

section \<open>Account and contacts\<close>

definition DeleteAccountHandler :: "('d, 's, 'l) server \<Rightarrow> ('d, 's, 'l) world handler" where
  "DeleteAccountHandler sv r w =
     (case CurrentUser r of
        None \<Rightarrow> (http_Error ''unauthorized'' 401, w)
      | Some cu \<Rightarrow>
     (case string_field ''password'' r of
        None \<Rightarrow> (http_Error ''password confirmation required'' 400, w)
      | Some password \<Rightarrow>
      if TrimSpace password = [] then (http_Error ''password confirmation required'' 400, w)
      else case on_db (us_GetUserByUsername (sv_users sv) (au_Username cu)) w of
        (Inl _, w1) \<Rightarrow> (http_Error ''user not found'' 404, w1)
      | (Inr user, w1) \<Rightarrow>
      if \<not> CompareHashAndPassword (sv_bcrypt sv) (PasswordHash user) password
      then (http_Error ''invalid password'' 401, w1)
      else case on_db (us_DeleteAccountGDPR (sv_users sv) (au_ID cu) (w_now w1)) w1 of
        (Inl err, w2) \<Rightarrow>
          (if errors_Is err ErrAlreadyDeleted then http_Error ''account already deleted'' 410
           else writeJSONError 500 ''failed to delete account'', w2)
      | (Inr _, w2) \<Rightarrow> (no_content 204, on_hub (DisconnectUser (au_ID cu)) w2)))"

definition contact_json :: "contact \<Rightarrow> jv" where
  "contact_json c =
     JObj [(''id'', JInt (contact_ID c)), (''username'', JStr (contact_Username c)), (''online'', JBool False)]"

definition ListContactsHandler :: "('d, 's, 'l) server \<Rightarrow> ('d, 's, 'l) world handler" where
  "ListContactsHandler sv r w =
     (case CurrentUser r of
        None \<Rightarrow> (http_Error ''unauthorized'' 401, w)
      | Some cu \<Rightarrow>
     (case on_db (us_ListContacts (sv_users sv) (au_ID cu)) w of
        (Inl _, w1) \<Rightarrow> (writeJSONError 500 ''failed to list contacts'', w1)
      | (Inr cs, w1) \<Rightarrow> (json_body 200 (JArr (map contact_json cs)), w1)))"

definition AddContactHandler :: "('d, 's, 'l) server \<Rightarrow> ('d, 's, 'l) world handler" where
  "AddContactHandler sv r w =
     (case CurrentUser r of
        None \<Rightarrow> (http_Error ''unauthorized'' 401, w)
      | Some cu \<Rightarrow>
     (case string_field ''username'' r of
        None \<Rightarrow> (http_Error ''invalid JSON'' 400, w)
      | Some u \<Rightarrow>
      let username = TrimSpace u in
      if username = [] then (http_Error ''username is required'' 400, w)
      else if uc_EqualFold (sv_unicode sv) username (au_Username cu)
      then (http_Error ''cannot add yourself'' 400, w)
      else case on_db (us_AddContact (sv_users sv) (au_ID cu) username) w of
        (Inl err, w1) \<Rightarrow>
          (if errors_Is err ErrUserNotFound then http_Error ''user not found'' 404
           else if errors_Is err ErrContactExists then http_Error ''already in contacts'' 409
           else writeJSONError 500 ''failed to add contact'', w1)
      | (Inr _, w1) \<Rightarrow> (no_content 201, w1)))"

definition RemoveContactHandler :: "('d, 's, 'l) server \<Rightarrow> ('d, 's, 'l) world handler" where
  "RemoveContactHandler sv r w =
     (case CurrentUser r of
        None \<Rightarrow> (http_Error ''unauthorized'' 401, w)
      | Some cu \<Rightarrow>
      let targetUsername = lookup ''username'' (rq_vars r) in
      if targetUsername = [] then (http_Error ''username is required'' 400, w)
      else case on_db (us_RemoveContact (sv_users sv) (au_ID cu) targetUsername) w of
        (Inl err, w1) \<Rightarrow>
          (if errors_Is err ErrContactNotFound then http_Error ''contact not found'' 404
           else writeJSONError 500 ''failed to remove contact'', w1)
      | (Inr _, w1) \<Rightarrow> (no_content 204, w1))"

section \<open>Password and keys\<close>

record ChangePasswordRequest =
  cp_CurrentPassword :: string
  cp_NewPassword :: string

definition decode_change :: "request \<Rightarrow> ChangePasswordRequest option" where
  "decode_change r =
     (case body_members r of None \<Rightarrow> None | Some ms \<Rightarrow>
        (case (get_string ''current_password'' ms, get_string ''new_password'' ms) of
           (Some c, Some n) \<Rightarrow> Some \<lparr>cp_CurrentPassword = c, cp_NewPassword = n\<rparr>
         | _ \<Rightarrow> None))"

definition ChangePasswordHandler :: "('d, 's, 'l) server \<Rightarrow> ('d, 's, 'l) world handler" where
  "ChangePasswordHandler sv r w =
     (case CurrentUser r of
        None \<Rightarrow> (http_Error ''unauthorized'' 401, w)
      | Some user \<Rightarrow>
     (case decode_change r of
        None \<Rightarrow> (http_Error ''invalid JSON'' 400, w)
      | Some req \<Rightarrow>
      if cp_CurrentPassword req = [] \<or> cp_NewPassword req = []
      then (http_Error ''current_password and new_password required'' 400, w)
      else if length (cp_NewPassword req) < 8
      then (http_Error ''new password must be at least 8 characters'' 400, w)
      else case on_db (us_GetUserByUsername (sv_users sv) (au_Username user)) w of
        (Inl _, w1) \<Rightarrow> (http_Error ''user not found'' 404, w1)
      | (Inr existing, w1) \<Rightarrow>
      if \<not> CompareHashAndPassword (sv_bcrypt sv) (PasswordHash existing) (cp_CurrentPassword req)
      then (http_Error ''current password is incorrect'' 401, w1)
      else case draw w1 of (salt, w2) \<Rightarrow>
     (case GenerateFromPassword (sv_bcrypt sv) salt (cp_NewPassword req) of
        None \<Rightarrow> (http_Error ''failed to hash password'' 500, w2)
      | Some newHash \<Rightarrow>
     (case on_db (us_UpdatePassword (sv_users sv) (au_ID user) newHash) w2 of
        (Inl _, w3) \<Rightarrow> (http_Error ''failed to update password'' 500, w3)
      | (Inr _, w3) \<Rightarrow> (no_content 204, w3)))))"

definition UploadKeyHandler :: "('d, 's, 'l) server \<Rightarrow> ('d, 's, 'l) world handler" where
  "UploadKeyHandler sv r w =
     (case CurrentUser r of
        None \<Rightarrow> (http_Error ''unauthorized'' 401, w)
      | Some user \<Rightarrow>
     (case string_field ''publicKey'' r of
        None \<Rightarrow> (http_Error ''invalid json'' 400, w)
      | Some key \<Rightarrow>
      if key = [] then (http_Error ''publicKey required'' 400, w)
      else if length key < 80 \<or> length key > 256 then (http_Error ''publicKey length invalid'' 400, w)
      else if StdEncoding_DecodeString key = None \<and> RawStdEncoding_DecodeString key = None
      then (http_Error ''publicKey must be base64-encoded'' 400, w)
      else case on_db (us_SetPublicKey (sv_users sv) (au_ID user) key) w of
        (Inl _, w1) \<Rightarrow> (http_Error ''failed to save key'' 500, w1)
      | (Inr _, w1) \<Rightarrow> (no_content 204, go_routine (JobKeyChanged (au_ID user) (au_Username user)) w1)))"

definition key_json :: "string \<Rightarrow> string \<Rightarrow> jv" where
  "key_json username key = JObj [(''username'', JStr username), (''publicKey'', JStr key)]"

definition GetKeyHandler :: "('d, 's, 'l) server \<Rightarrow> ('d, 's, 'l) world handler" where
  "GetKeyHandler sv r w =
     (case CurrentUser r of
        None \<Rightarrow> (http_Error ''unauthorized'' 401, w)
      | Some currentUser \<Rightarrow>
      let username = lookup ''username'' (rq_vars r) in
      if username = [] then (http_Error ''username required'' 400, w)
      else case on_db (us_GetByUsername (sv_users sv) username) w of
        (Inl _, w1) \<Rightarrow> (http_Error ''key not found'' 404, w1)
      | (Inr target, w1) \<Rightarrow>
     (case on_db (us_IsContact (sv_users sv) (au_ID currentUser) (UserID target)) w1 of
        (Inl _, w2) \<Rightarrow> (http_Error ''internal error'' 500, w2)
      | (Inr ok, w2) \<Rightarrow>
          if \<not> ok then (http_Error ''key not found'' 404, w2)
          else if PublicKey target = [] then (http_Error ''key not found'' 404, w2)
          else (json_body 200 (key_json username (PublicKey target)), w2)))"

section \<open>Push tokens\<close>

definition InternalGetPushTokenHandler :: "('d, 's, 'l) server \<Rightarrow> ('d, 's, 'l) world handler" where
  "InternalGetPushTokenHandler sv r w =
     (case parse_int64 (lookup ''id'' (rq_vars r)) of
        Inl _ \<Rightarrow> (http_Error ''invalid user id'' 400, w)
      | Inr userID \<Rightarrow>
      if userID \<le> 0 then (http_Error ''invalid user id'' 400, w)
      else case on_db (us_GetPushToken (sv_users sv) userID) w of
        (Inl _, w1) \<Rightarrow> (http_Error ''not found'' 404, w1)
      | (Inr token, w1) \<Rightarrow> (json_body 200 (JObj [(''pushToken'', JStr token)]), w1))"

definition RegisterPushTokenHandler :: "('d, 's, 'l) server \<Rightarrow> ('d, 's, 'l) world handler" where
  "RegisterPushTokenHandler sv r w =
     (case CurrentUser r of
        None \<Rightarrow> (http_Error ''unauthorized'' 401, w)
      | Some currentUser \<Rightarrow>
     (case string_field ''token'' r of
        None \<Rightarrow> (http_Error ''token required'' 400, w)
      | Some token \<Rightarrow>
      if token = [] then (http_Error ''token required'' 400, w)
      else if length token > 512 then (http_Error ''token too long'' 400, w)
      else case on_db (us_SetPushToken (sv_users sv) (au_ID currentUser) token) w of
        (Inl _, w1) \<Rightarrow> (http_Error ''failed to save token'' 500, w1)
      | (Inr _, w1) \<Rightarrow> (no_content 204, w1)))"

text \<open>
  The check against adding oneself compares up to case, while names are told apart by every byte:
  whoever differs from the caller in case only can not be added, whatever accounts there are.
\<close>

lemma case_twin_refused:
  assumes "CurrentUser r = Some cu" "string_field ''username'' r = Some u" "TrimSpace u \<noteq> []"
    "uc_EqualFold (sv_unicode sv) (TrimSpace u) (au_Username cu)"
  shows "AddContactHandler sv r w = (http_Error ''cannot add yourself'' 400, w)"
  using assms by (simp add: AddContactHandler_def Let_def)

lemma case_twin_refused_witness:
  "\<exists>r. CurrentUser r = Some \<lparr>au_ID = 1, au_Username = ''alice''\<rparr> \<and>
     AddContactHandler demo_server r demo_world = (http_Error ''cannot add yourself'' 400, demo_world)"
proof -
  let ?r = "(demo_request ''POST'' [] (Some (JObj [(''username'', JStr ''ALICE'')])))\<lparr>rq_user := Some alice\<rparr>"
  have u: "string_field ''username'' ?r = Some ''ALICE''" "TrimSpace ''ALICE'' = ''ALICE''" "ascii_equal_fold ''ALICE'' ''alice''"
    by code_simp+
  have "CurrentUser ?r = Some \<lparr>au_ID = 1, au_Username = ''alice''\<rparr>" by (simp add: CurrentUser_def alice_def)
  from this case_twin_refused [OF this u(1), of demo_server demo_world] u(2,3) show ?thesis by fastforce
qed

section \<open>An erased account is locked out\<close>

lemma DeleteAccountHandler_204:
  assumes "DeleteAccountHandler sv r w = (resp, w')" "rs_status resp = 204" "CurrentUser r = Some cu"
  obtains user pw w1 rec w2 where "string_field ''password'' r = Some pw"
    "on_db (us_GetUserByUsername (sv_users sv) (au_Username cu)) w = (Inr user, w1)"
    "CompareHashAndPassword (sv_bcrypt sv) (PasswordHash user) pw"
    "on_db (us_DeleteAccountGDPR (sv_users sv) (au_ID cu) (w_now w1)) w1 = (Inr rec, w2)"
    "w' = on_hub (DisconnectUser (au_ID cu)) w2"
  using assms unfolding DeleteAccountHandler_def
  by (auto split: if_split_asm option.split_asm prod.split_asm sum.split_asm)

lemma DisconnectUser_closes:
  assumes "hub_ok h" "i \<in> set (user_clients u h)"
  shows "\<exists>c. clients (DisconnectUser u h) i = Some c \<and> cl_closed c"
proof -
  from user_clients_in(2) [OF assms] obtain c where "clients h i = Some c" by blast
  then show ?thesis
    unfolding DisconnectUser_def fold_update_clients [OF user_clients_in(1) [OF assms(1)]]
    using assms(2) by (simp add: closeWith_ok)
qed

text \<open>What a request that names a dead account by a token, a ticket or a refresh token gets.\<close>

lemma dead_lookup:
  assumes "sv_users sv = pg_user_store ilike collate" "db_ok (w_db w)" "live_account (w_db w) i = None"
  shows "\<exists>e w1. on_db (us_GetUserByID (sv_users sv) i) w = (Inl e, w1)"
proof -
  obtain res w1 where g: "on_db (us_GetUserByID (sv_users sv) i) w = (res, w1)" by fastforce
  with pg_by_id [OF assms(1,2) g] assms(3) show ?thesis by (cases res) auto
qed

lemma dead_account_refused:
  assumes "sv_users sv = pg_user_store ilike collate" "db_ok (w_db w)" "live_account (w_db w) i = None"
  shows "\<lbrakk>rq_method r \<noteq> ''OPTIONS''; bearer_token (lookup ''Authorization'' (rq_header r)) = Some tok;
      jwt_Parse (sv_jwt sv) (sv_mgr sv) (w_now w) tok = Some claims; cm_UserID claims = i\<rbrakk> \<Longrightarrow>
      rs_status (fst (AuthMiddleware sv next r w)) = 401"
    and "\<lbrakk>fst (redeem_ticket (sv_redis sv) (lookup ''ticket'' (rq_query r)) (w_rd w)) = Some u; au_ID u = i\<rbrakk> \<Longrightarrow>
      rs_status (fst (WSAuthMiddleware sv next r w)) \<in> {401, 500}"
    and "\<lbrakk>string_field ''refresh_token'' r = Some rt; rt \<noteq> [];
      fst (lookupRefreshToken (sv_redis sv) rt (w_rd w)) = Inr i\<rbrakk> \<Longrightarrow>
      rs_status (fst (RefreshHandler sv r w)) = 401"
proof -
  from dead_lookup [OF assms] obtain e w1 where dead: "on_db (us_GetUserByID (sv_users sv) i) w = (Inl e, w1)" by blast
  show "rs_status (fst (AuthMiddleware sv next r w)) = 401"
    if "rq_method r \<noteq> ''OPTIONS''" "bearer_token (lookup ''Authorization'' (rq_header r)) = Some tok"
      "jwt_Parse (sv_jwt sv) (sv_mgr sv) (w_now w) tok = Some claims" "cm_UserID claims = i"
    using that dead by (simp add: AuthMiddleware_def Let_def)
  have dead': "\<exists>e w1. on_db (us_GetUserByID (sv_users sv) i) (w\<lparr>w_rd := s\<rparr>) = (Inl e, w1)" for s
    using dead_lookup [OF assms(1), of "w\<lparr>w_rd := s\<rparr>" i] assms(2,3) by simp
  show "rs_status (fst (WSAuthMiddleware sv next r w)) \<in> {401, 500}"
    if "fst (redeem_ticket (sv_redis sv) (lookup ''ticket'' (rq_query r)) (w_rd w)) = Some u" "au_ID u = i"
  proof -
    note prem = that
    obtain s where "redeem_ticket (sv_redis sv) (lookup ''ticket'' (rq_query r)) (w_rd w) = (Some u, s)"
      using prem(1) by (cases "redeem_ticket (sv_redis sv) (lookup ''ticket'' (rq_query r)) (w_rd w)") simp
    moreover obtain e w1 where "on_db (us_GetUserByID (sv_users sv) i) (w\<lparr>w_rd := s\<rparr>) = (Inl e, w1)"
      using dead' by blast
    ultimately show ?thesis using prem(2) by (simp add: WSAuthMiddleware_def on_rd_def)
  qed
  show "rs_status (fst (RefreshHandler sv r w)) = 401"
    if "string_field ''refresh_token'' r = Some rt" "rt \<noteq> []"
      "fst (lookupRefreshToken (sv_redis sv) rt (w_rd w)) = Inr i"
  proof -
    note prem = that
    obtain s where "lookupRefreshToken (sv_redis sv) rt (w_rd w) = (Inr i, s)"
      using prem(3) by (cases "lookupRefreshToken (sv_redis sv) rt (w_rd w)") simp
    moreover obtain e w1 where "on_db (us_GetUserByID (sv_users sv) i) (w\<lparr>w_rd := s\<rparr>) = (Inl e, w1)"
      using dead' by blast
    ultimately show ?thesis using prem(1,2) by (simp add: RefreshHandler_def refresh_lookup_def on_rd_def)
  qed
qed

text \<open>A login that answers 200 starts a session of the live account that has the name.\<close>

lemma LoginHandler_live:
  assumes "sv_users sv = pg_user_store ilike collate" "db_ok (w_db w)" "rs_status (fst (LoginHandler sv r w)) = 200"
  shows "\<exists>req u token rt. decode_login r = Some req \<and> live_account (w_db w) (UserID u) = Some u \<and>
    Username u = TrimSpace (lr_Username req) \<and> fst (LoginHandler sv r w) = writeJSON 200 (session_json u token rt)"
proof -
  obtain req where req: "decode_login r = Some req"
    using assms(3) by (cases "decode_login r") (auto simp: LoginHandler_def)
  let ?n = "TrimSpace (lr_Username req)"
  obtain ok w1 where lim: "idLimited sv (uc_ToLower (sv_unicode sv) ?n) w = (ok, w1)" by fastforce
  then have w1: "w_db w1 = w_db w" using idLimited_world by blast
  obtain res w2 where look: "on_db (us_GetUserByUsername (sv_users sv) ?n) w1 = (res, w2)" by fastforce
  have run: "\<exists>u. res = Inr u \<and> fst (LoginHandler sv r w) = fst (start_session sv u w2)"
    using assms(3) req lim look
    by (cases ok; cases res) (auto simp: LoginHandler_def Let_def split: if_split_asm)
  then obtain u where u: "res = Inr u" "fst (LoginHandler sv r w) = fst (start_session sv u w2)" by blast
  have "live_account (w_db w) (UserID u) = Some u \<and> Username u = ?n"
    using pg_login_name [OF assms(1) _ look] assms(2) w1 u(1) by auto
  moreover have "\<exists>token rt. fst (start_session sv u w2) = writeJSON 200 (session_json u token rt)"
    using assms(3) u(2) unfolding start_session_def
    by (auto split: option.split_asm prod.split_asm sum.split_asm)
  ultimately show ?thesis using req u(2) by auto
qed

text \<open>What is left of the person in the tables right after the erasure.\<close>

lemma erased_data:
  assumes "db_ok d" "DeleteAccountGDPR i now d = (Inr rec, d')"
  shows "(\<forall>x \<in> set (users (tb d')). ur_id x = i \<longrightarrow>
        ur_username x = tombstone_name i \<and> ur_password_hash x = [] \<and> ur_public_key x = None) \<and>
    (\<forall>m \<in> set (messages (tb d')). mr_sender_id m = i \<longrightarrow> mr_body m = [] \<and> mr_iv m = None) \<and>
    (\<forall>v. (i, v) \<notin> graph (tb d') \<and> (v, i) \<notin> graph (tb d'))"
proof -
  from gdpr_atomic [OF assms] obtain x where x: "x \<in> set (users (tb d))" "ur_id x = i" "live x" "tb d' = erased x now d" by auto
  have "ur_username y = tombstone_name i \<and> ur_password_hash y = [] \<and> ur_public_key y = None"
    if "y \<in> set (users (tb d'))" "ur_id y = i" for y
  proof -
    have "y = anonymized now x"
      using erased_account [OF db_okD(1) [OF assms(1)] x(1,3)] that x(2,4) by metis
    then show ?thesis using x(2) by simp
  qed
  moreover have "\<forall>m \<in> set (messages (tb d')). mr_sender_id m = i \<longrightarrow> mr_body m = [] \<and> mr_iv m = None"
  proof (intro ballI impI)
    fix m
    assume m: "m \<in> set (messages (tb d'))" "mr_sender_id m = i"
    from m(1) obtain r where "m = (if mr_sender_id r = i then purged r else r)"
      unfolding x(4) erased_def update_where_def tables.simps x(2) set_map by (rule imageE)
    with m(2) show "mr_body m = [] \<and> mr_iv m = None" by (auto simp: purged_def split: if_split_asm)
  qed
  moreover have "\<forall>v. (i, v) \<notin> graph (tb d') \<and> (v, i) \<notin> graph (tb d')"
    unfolding x(4) erased_def graph_def tables.simps using x(2) by auto
  ultimately show ?thesis by blast
qed

text \<open>
  C10: an erased account is locked out for good. When the erasure endpoint answers 204, the password
  was that of the live account of that name; every connection of the user on this instance is cut;
  the row carries the tombstone name and neither hash nor key, every message it sent is empty, no
  contact row mentions it, and a login under its name is refused. And from then on, whatever the
  server does to its database, every access token that names the account is refused by the
  middleware (an \<open>OPTIONS\<close> request, whose token is not looked at, apart), every WebSocket ticket
  issued to it is refused although Redis still honours it, every refresh token issued to it is
  refused, and a login, under whatever name, starts a session of another account if any.
\<close>

theorem erased_locked_out:
  assumes "sv_users sv = pg_user_store ilike collate" "db_ok (w_db w)" "hub_ok (w_hub w)"
    "CurrentUser r = Some cu" "DeleteAccountHandler sv r w = (resp, w')" "rs_status resp = 204"
    "store_history (w_db w') (w_db w2)" "i = au_ID cu"
  shows "(\<exists>u pw. live_account (w_db w) (UserID u) = Some u \<and> Username u = au_Username cu \<and>
        string_field ''password'' r = Some pw \<and> CompareHashAndPassword (sv_bcrypt sv) (PasswordHash u) pw) \<and>
    (\<forall>k \<in> set (user_clients i (w_hub w)). \<exists>c. clients (w_hub w') k = Some c \<and> cl_closed c) \<and>
    (\<forall>x \<in> set (users (tb (w_db w'))). ur_id x = i \<longrightarrow>
        ur_username x = tombstone_name i \<and> ur_password_hash x = [] \<and> ur_public_key x = None) \<and>
    (\<forall>m \<in> set (messages (tb (w_db w'))). mr_sender_id m = i \<longrightarrow> mr_body m = [] \<and> mr_iv m = None) \<and>
    (\<forall>v. (i, v) \<notin> graph (tb (w_db w')) \<and> (v, i) \<notin> graph (tb (w_db w'))) \<and>
    (\<exists>a. live_account (w_db w) i = Some a \<and> (\<forall>r2 req. decode_login r2 = Some req \<longrightarrow>
        TrimSpace (lr_Username req) = Username a \<longrightarrow> rs_status (fst (LoginHandler sv r2 w')) \<noteq> 200)) \<and>
    live_account (w_db w2) i = None \<and>
    (\<forall>next r2 tok claims. rq_method r2 \<noteq> ''OPTIONS'' \<longrightarrow>
        bearer_token (lookup ''Authorization'' (rq_header r2)) = Some tok \<longrightarrow>
        jwt_Parse (sv_jwt sv) (sv_mgr sv) (w_now w2) tok = Some claims \<longrightarrow> cm_UserID claims = i \<longrightarrow>
        rs_status (fst (AuthMiddleware sv next r2 w2)) = 401) \<and>
    (\<forall>next r2 u. fst (redeem_ticket (sv_redis sv) (lookup ''ticket'' (rq_query r2)) (w_rd w2)) = Some u \<longrightarrow>
        au_ID u = i \<longrightarrow> rs_status (fst (WSAuthMiddleware sv next r2 w2)) \<in> {401, 500}) \<and>
    (\<forall>r2 rt. string_field ''refresh_token'' r2 = Some rt \<longrightarrow> rt \<noteq> [] \<longrightarrow>
        fst (lookupRefreshToken (sv_redis sv) rt (w_rd w2)) = Inr i \<longrightarrow>
        rs_status (fst (RefreshHandler sv r2 w2)) = 401) \<and>
    (\<forall>r2. rs_status (fst (LoginHandler sv r2 w2)) = 200 \<longrightarrow>
        (\<exists>u token rt. fst (LoginHandler sv r2 w2) = writeJSON 200 (session_json u token rt) \<and> UserID u \<noteq> i))"
proof -
  from DeleteAccountHandler_204 [OF assms(5,6,4)] obtain user pw w1 rec wd where
    run: "string_field ''password'' r = Some pw"
      "on_db (us_GetUserByUsername (sv_users sv) (au_Username cu)) w = (Inr user, w1)"
      "CompareHashAndPassword (sv_bcrypt sv) (PasswordHash user) pw"
      "on_db (us_DeleteAccountGDPR (sv_users sv) (au_ID cu) (w_now w1)) w1 = (Inr rec, wd)"
      "w' = on_hub (DisconnectUser (au_ID cu)) wd" .
  from pg_login_name [OF assms(1,2) run(2)] obtain d where
    d: "w1 = w\<lparr>w_db := d\<rparr>" "db_ok d" "agree (w_db w) d"
    and user: "live_account (w_db w) (UserID user) = Some user" "Username user = au_Username cu" by auto
  from run(4) obtain d2 where d2: "us_DeleteAccountGDPR (sv_users sv) i (w_now w1) d = (Inr rec, d2)"
    "wd = w1\<lparr>w_db := d2\<rparr>" by (auto simp: d(1) assms(8) elim: on_db_cases)
  note er = pg.erase [OF d(2) d2(1) [unfolded assms(1)]] and acc = agree_accounts(1) [OF d(3)]
  then obtain a where a: "live_account (w_db w) i = Some a" by auto
  have ok: "db_ok d2" and live: "live_account d2 = (live_account (w_db w))(i := None)" using er acc by auto
  have gone: "i \<in> known_ids d2" "live_account d2 i = None"
    using pg.erased_gone [OF d(2) d2(1) [unfolded assms(1)]] by auto
  have w': "w_db w' = d2" "w_hub w' = DisconnectUser i (w_hub w)"
    using d(1) d2(2) run(5) by (simp_all add: on_hub_def assms(8))
  have data: "DeleteAccountGDPR i (w_now w1) d = (Inr rec, d2)" using d2(1) by (simp add: assms(1) pg_user_store_def)
  note h = history_ok [OF assms(7) [unfolded w'(1)] ok]
  then have ok2: "db_ok (w_db w2)" by blast
  have dead: "live_account (w_db w2) i = None"
    using evolve_live [OF ok _ _ gone(1)] h gone(2) by (cases "live_account (w_db w2) i") auto
  note refused = dead_account_refused [OF assms(1) ok2 dead]
  have cut: "\<exists>c. clients (w_hub w') k = Some c \<and> cl_closed c" if "k \<in> set (user_clients i (w_hub w))" for k
    unfolding w'(2) using assms(3) that by (rule DisconnectUser_closes)
  have name: "rs_status (fst (LoginHandler sv r2 w')) \<noteq> 200"
    if "decode_login r2 = Some req" "TrimSpace (lr_Username req) = Username a" for r2 req
  proof
    assume "rs_status (fst (LoginHandler sv r2 w')) = 200"
    from LoginHandler_live [OF assms(1) _ this] that obtain u where u: "live_account d2 (UserID u) = Some u" "Username u = Username a"
      using ok w'(1) by auto
    then have "live_account (w_db w) (UserID u) = Some u" "UserID u \<noteq> i" using live by (auto split: if_split_asm)
    with pg.acct_name [OF assms(2) this(1) a u(2)] show False by simp
  qed
  have other: "\<exists>u token rt. fst (LoginHandler sv r2 w2) = writeJSON 200 (session_json u token rt) \<and> UserID u \<noteq> i"
    if "rs_status (fst (LoginHandler sv r2 w2)) = 200" for r2
    using LoginHandler_live [OF assms(1) ok2 that] dead by fastforce
  show ?thesis
    using user run(1,3) cut erased_data [OF d(2) data, folded w'(1)] a name dead refused other by (intro conjI) blast+
qed

text \<open>Alice, with two connections open, confirms with her password.\<close>

definition erase_request :: request where
  "erase_request = (demo_post [(''password'', ''alice'')])\<lparr>rq_user := Some alice\<rparr>"

definition erase_world :: "(db, mem_server, nat) world" where
  "erase_world = demo_world\<lparr>w_hub := demo_hub\<rparr>"

theorem erased_locked_out_witness:
  "\<exists>w'. DeleteAccountHandler demo_server erase_request erase_world = (no_content 204, w') \<and>
     rs_status (fst (AuthMiddleware demo_server echo alice_request w')) = 401 \<and>
     (\<exists>c. clients (w_hub w') 20 = Some c \<and> cl_closed c)"
proof -
  obtain w' where run: "DeleteAccountHandler demo_server erase_request erase_world = (no_content 204, w')"
    "w_now w' = 100"
  proof -
    have f: "string_field ''password'' erase_request = Some ''alice''" "TrimSpace ''alice'' = ''alice''" by code_simp+
    obtain rec d where e: "DeleteAccountGDPR 1 100 demo_db = (Inr rec, d)"
      by (simp add: DeleteAccountGDPR_def in_tx_def gdpr_body_def lookup_username_def wrap_def
        anonymize_user_def purge_messages_def expire_invites_def delete_contacts_def write_gdpr_log_def
        int4_ok_def count_where_def select_one_def anonymized_def tombstone_name_def live_def Let_def demo_defs)
    have "GetUserByUsername ''alice'' demo_db =
        (Inr \<lparr>UserID = 1, Username = ''alice'', PasswordHash = ''hash-alice'', PublicKey = ''key-alice''\<rparr>, demo_db)"
      by (simp add: GetUserByUsername_def select_one_def live_def scan_user_def demo_defs)
    with f e that show thesis
      by (simp add: DeleteAccountHandler_def CurrentUser_def erase_request_def alice_def erase_world_def on_db_def
          pg_user_store_def demo_bcrypt_def on_hub_def)
  qed
  have pre: "db_ok (w_db erase_world)" "hub_ok (w_hub erase_world)" "CurrentUser erase_request = Some alice"
    "rs_status (no_content 204) = 204" "w_hub erase_world = demo_hub"
    by (simp_all add: erase_world_def hub_ok_demo erase_request_def CurrentUser_def)
  have m: "20 \<in> set (user_clients (au_ID alice) demo_hub)"
    by (simp add: demo_hub_def addClient_def NewHub_def user_clients_def Let_def alice_def demo_client_def)
  have p: "\<exists>c. jwt_Parse demo_jwt \<lparr>jm_secret = ''k'', jm_ttl = 15 * minute\<rparr> (w_now w') demo_token = Some c \<and> cm_UserID c = 1"
    unfolding jwt_Parse_Generate [OF demo_jwt_laws demo_token] run(2) by (simp add: demo_jwt_def)
  note out = erased_locked_out [OF demo_server_simps(1) pre(1-3) run(1) pre(4) rtranclp.rtrancl_refl refl]
  have "\<exists>c. clients (w_hub w') 20 = Some c \<and> cl_closed c" using out m unfolding pre(5) by blast
  moreover have "rs_status (fst (AuthMiddleware demo_server echo alice_request w')) = 401"
  proof -
    have q: "rq_method alice_request \<noteq> ''OPTIONS''"
      "bearer_token (lookup ''Authorization'' (rq_header alice_request)) = Some demo_token" "au_ID alice = 1"
      by (simp_all add: lookup_def alice_def)
    obtain c where c: "jwt_Parse (sv_jwt demo_server) (sv_mgr demo_server) (w_now w') demo_token = Some c" "cm_UserID c = au_ID alice"
      using p q(3) by auto
    from out have "\<forall>next r2 tok claims. rq_method r2 \<noteq> ''OPTIONS'' \<longrightarrow>
        bearer_token (lookup ''Authorization'' (rq_header r2)) = Some tok \<longrightarrow>
        jwt_Parse (sv_jwt demo_server) (sv_mgr demo_server) (w_now w') tok = Some claims \<longrightarrow> cm_UserID claims = au_ID alice \<longrightarrow>
        rs_status (fst (AuthMiddleware demo_server next r2 w')) = 401" by (elim conjE)
    with q(1,2) c show ?thesis by blast
  qed
  ultimately show ?thesis using run(1) by blast
qed

section \<open>Changing the password\<close>

lemma ChangePasswordHandler_204:
  assumes "ChangePasswordHandler sv r w = (resp, w')" "rs_status resp = 204" "CurrentUser r = Some cu"
    "decode_change r = Some req"
  obtains user w1 salt w2 h where "cp_NewPassword req \<noteq> []" "8 \<le> length (cp_NewPassword req)"
    "on_db (us_GetUserByUsername (sv_users sv) (au_Username cu)) w = (Inr user, w1)"
    "CompareHashAndPassword (sv_bcrypt sv) (PasswordHash user) (cp_CurrentPassword req)"
    "draw w1 = (salt, w2)" "GenerateFromPassword (sv_bcrypt sv) salt (cp_NewPassword req) = Some h"
    "on_db (us_UpdatePassword (sv_users sv) (au_ID cu) h) w2 = (Inr (), w')"
  using assms unfolding ChangePasswordHandler_def
  by (auto split: if_split_asm option.split_asm prod.split_asm sum.split_asm simp: not_less)

text \<open>
  C21: a changed password opens the next login. When the endpoint answers 204 to a user whose
  account is live under the name in the token, the current password given was right, the new one
  has at least eight bytes, nothing but the hash of that account changed, and a login with the
  name and the new password, admitted by the limiter on a working database, starts a session.
\<close>

theorem password_changed:
  assumes "sv_users sv = pg_user_store ilike collate" "db_ok (w_db w)" "bcrypt_law (sv_bcrypt sv)"
    "CurrentUser r = Some cu" "live_account (w_db w) (au_ID cu) = Some u" "Username u = au_Username cu"
    "decode_change r = Some req" "ChangePasswordHandler sv r w = (resp, w')" "rs_status resp = 204"
    "decode_login r2 = Some lreq" "TrimSpace (lr_Username lreq) = Username u" "Username u \<noteq> []"
    "lr_Password lreq = cp_NewPassword req" "w_db w2 = w_db w'" "faults (w_db w') = []"
    "idLimited sv (uc_ToLower (sv_unicode sv) (TrimSpace (lr_Username lreq))) w2 = (True, w3)"
  shows "\<exists>h. CompareHashAndPassword (sv_bcrypt sv) (PasswordHash u) (cp_CurrentPassword req) \<and>
    8 \<le> length (cp_NewPassword req) \<and>
    live_account (w_db w') = (live_account (w_db w))(au_ID cu \<mapsto> u\<lparr>PasswordHash := h\<rparr>) \<and>
    LoginHandler sv r2 w2 = start_session sv (u\<lparr>PasswordHash := h\<rparr>) w3"
proof -
  from ChangePasswordHandler_204 [OF assms(8,9,4,7)] obtain user w1 salt wd h where
    run: "cp_NewPassword req \<noteq> []" "8 \<le> length (cp_NewPassword req)"
      "on_db (us_GetUserByUsername (sv_users sv) (au_Username cu)) w = (Inr user, w1)"
      "CompareHashAndPassword (sv_bcrypt sv) (PasswordHash user) (cp_CurrentPassword req)"
      "draw w1 = (salt, wd)" "GenerateFromPassword (sv_bcrypt sv) salt (cp_NewPassword req) = Some h"
      "on_db (us_UpdatePassword (sv_users sv) (au_ID cu) h) wd = (Inr (), w')" .
  from pg_login_name [OF assms(1,2) run(3)] obtain d where
    d: "w1 = w\<lparr>w_db := d\<rparr>" "db_ok d" "agree (w_db w) d"
    and user: "live_account (w_db w) (UserID user) = Some user" "Username user = au_Username cu" by auto
  have same: "user = u" using pg.same_account [OF assms(2,5) user(1)] user(2) assms(6) by simp
  have wd: "w_db wd = d" using draw_world [OF run(5)] d(1) by simp
  from run(7) obtain d2 where d2: "us_UpdatePassword (sv_users sv) (au_ID cu) h d = (Inr (), d2)" "w_db w' = d2"
    unfolding wd [symmetric] by (auto elim: on_db_cases)
  let ?u = "u\<lparr>PasswordHash := h\<rparr>"
  from pg.set_password [OF d(2) d2(1) [unfolded assms(1)]]
  have acct: "live_account (w_db w') = (live_account (w_db w))(au_ID cu \<mapsto> ?u)" "db_ok (w_db w')"
    using agree_accounts(1) [OF d(3)] assms(5) d2(2) by simp_all
  have w3: "w_db w3 = w_db w'" using idLimited_world [OF assms(16)] assms(14) by simp
  have "live_account (w_db w3) (au_ID cu) = Some ?u" using acct(1) w3 by simp
  from pg_name_no_faults [OF assms(1) _ _ this] have "on_db (us_GetUserByUsername (sv_users sv) (Username u)) w3 = (Inr ?u, w3)"
    using w3 acct(2) assms(15) by simp
  moreover have "CompareHashAndPassword (sv_bcrypt sv) h (cp_NewPassword req)"
    using assms(3) run(6) by (simp add: bcrypt_law_def)
  ultimately have "LoginHandler sv r2 w2 = start_session sv ?u w3"
    using assms(10-13,16) run(1) by (simp add: LoginHandler_def Let_def)
  with run(2,4) acct(1) same show ?thesis by blast
qed

section \<open>Keys\<close>

lemma pg_is_contact:
  assumes "sv_users sv = pg_user_store ilike collate" "faults (w_db w) = []"
  shows "on_db (us_IsContact (sv_users sv) u v) w = (Inr ((u, v) \<in> graph (tb (w_db w))), w)"
  using assms by (simp add: on_db_def pg_user_store_def IsContact_def query_def list_ex_iff graph_iff)

lemma pg_name_missing:
  assumes "sv_users sv = pg_user_store ilike collate" "db_ok (w_db w)" "faults (w_db w) = []"
    "\<And>i u. live_account (w_db w) i = Some u \<Longrightarrow> Username u \<noteq> n"
  shows "on_db (us_GetUserByUsername (sv_users sv) n) w = (Inl ErrUserNotFound, w)"
proof -
  have "select_one (\<lambda>r. ur_username r = n \<and> live r) (users (tb (w_db w))) = None"
    using assms(4) live_account_Some [OF assms(2)] by (fastforce simp: select_one_None)
  then show ?thesis
    using assms(3) by (simp add: on_db_def assms(1) pg_user_store_def GetUserByUsername_def)
qed

text \<open>
  C26: who may read a public key. On a working database the endpoint gives the key of a live
  account of that name exactly when the caller has added it as a contact and a key is set; an
  unknown or deleted account, a stranger and a missing key get one and the same 404 answer, so a
  stranger cannot tell them apart. Nothing changes.
\<close>

theorem key_for_contacts:
  assumes "sv_users sv = pg_user_store ilike collate" "db_ok (w_db w)" "faults (w_db w) = []"
    "CurrentUser r = Some cu" "lookup ''username'' (rq_vars r) = n" "n \<noteq> []"
    "readable = {v. live_account (w_db w) (UserID v) = Some v \<and> Username v = n \<and> PublicKey v \<noteq> [] \<and>
       (au_ID cu, UserID v) \<in> graph (tb (w_db w))}"
  shows "(\<forall>v \<in> readable. GetKeyHandler sv r w = (json_body 200 (key_json n (PublicKey v)), w)) \<and>
    (readable = {} \<longrightarrow> GetKeyHandler sv r w = (http_Error ''key not found'' 404, w))"
proof (cases "\<exists>i u. live_account (w_db w) i = Some u \<and> Username u = n")
  case False
  then have "on_db (us_GetByUsername (sv_users sv) n) w = (Inl ErrUserNotFound, w)"
    using pg_name_missing [OF assms(1-3)] by (simp add: assms(1) pg.same_lookup)
  with False assms(4-7) show ?thesis by (auto simp: GetKeyHandler_def Let_def)
next
  case True
  then obtain i u where u: "live_account (w_db w) i = Some u" "Username u = n" by blast
  have look: "on_db (us_GetByUsername (sv_users sv) n) w = (Inr u, w)"
    using pg_name_no_faults [OF assms(1-3) u(1)] u(2) by (simp add: assms(1) pg.same_lookup)
  have i: "UserID u = i" using pg.acct_id [OF assms(2) u(1)] by simp
  have only: "v = u" if "v \<in> readable" for v
    using that pg.same_account [OF assms(2) u(1), of v] u(2) by (simp add: assms(7))
  have run: "GetKeyHandler sv r w =
      (if (au_ID cu, UserID u) \<in> graph (tb (w_db w)) \<and> PublicKey u \<noteq> []
       then (json_body 200 (key_json n (PublicKey u)), w) else (http_Error ''key not found'' 404, w))"
    using look assms(4-6) by (simp add: GetKeyHandler_def Let_def pg_is_contact [OF assms(1,3)])
  have mem: "u \<in> readable \<longleftrightarrow> (au_ID cu, UserID u) \<in> graph (tb (w_db w)) \<and> PublicKey u \<noteq> []"
    using u i by (auto simp: assms(7))
  show ?thesis
  proof (intro conjI ballI impI)
    show "GetKeyHandler sv r w = (json_body 200 (key_json n (PublicKey v)), w)" if "v \<in> readable" for v
      using that only [OF that] mem run by simp
    show "GetKeyHandler sv r w = (http_Error ''key not found'' 404, w)" if "readable = {}"
      using that mem run by (metis empty_iff)
  qed
qed

theorem key_for_contacts_witness:
  "GetKeyHandler demo_server ((demo_request ''GET'' [] None)\<lparr>rq_user := Some alice, rq_vars := [(''username'', ''bob'')]\<rparr>)
     demo_world = (json_body 200 (key_json ''bob'' ''key-bob''), demo_world)"
proof -
  let ?r = "(demo_request ''GET'' [] None)\<lparr>rq_user := Some alice, rq_vars := [(''username'', ''bob'')]\<rparr>"
  let ?bob = "\<lparr>UserID = 2, Username = ''bob'', PasswordHash = ''hash-bob'', PublicKey = ''key-bob''\<rparr>"
  let ?S = "{v. live_account (w_db demo_world) (UserID v) = Some v \<and> Username v = ''bob'' \<and> PublicKey v \<noteq> [] \<and>
       (au_ID alice, UserID v) \<in> graph (tb (w_db demo_world))}"
  have "live_account demo_db 2 = Some ?bob" "(1, 2) \<in> graph (tb demo_db)"
    by (simp_all add: live_account_def select_one_def demo_defs live_def scan_user_def graph_def)
  then have "?bob \<in> ?S" by (simp add: alice_def)
  moreover have "CurrentUser ?r = Some alice" "lookup ''username'' (rq_vars ?r) = ''bob''"
    by (simp_all add: CurrentUser_def lookup_def)
  moreover have "''bob'' \<noteq> []" "db_ok (w_db demo_world)" "faults (w_db demo_world) = []" by simp_all
  ultimately have "GetKeyHandler demo_server ?r demo_world = (json_body 200 (key_json ''bob'' (PublicKey ?bob)), demo_world)"
    using key_for_contacts [OF demo_server_simps(1) _ _ _ _ _ refl, of demo_world ?r alice "''bob''"] by blast
  then show ?thesis by simp
qed

lemma pg_followers:
  assumes "sv_users sv = pg_user_store ilike collate" "db_ok (w_db w)" "faults (w_db w) = []"
  shows "\<exists>ids. on_db (us_GetContactFollowerIDs (sv_users sv) u) w = (Inr ids, w) \<and> distinct ids \<and>
    set ids = {v. (v, u) \<in> graph (tb (w_db w)) \<and> live_account (w_db w) v \<noteq> None}"
proof -
  obtain ids where run: "GetContactFollowerIDs u (w_db w) = (Inr ids, w_db w)"
    using assms(3) by (simp add: GetContactFollowerIDs_def query_def)
  then have "fst (GetContactFollowerIDs u (w_db w)) = Inr ids" by simp
  note f = GetContactFollowerIDs_spec [OF db_okD(1) [OF assms(2)] this]
  have "(\<exists>x \<in> set (users (tb (w_db w))). ur_id x = v \<and> live x) \<longleftrightarrow> live_account (w_db w) v \<noteq> None" for v
    using live_account_Some [OF assms(2)] by (auto elim!: live_account_row)
  with f run show ?thesis by (auto simp: on_db_def assms(1) pg_user_store_def)
qed

text \<open>What a frame for all followers of \<open>u\<close> does to the connections of this instance.\<close>

abbreviation to_followers :: "int64 \<Rightarrow> frame \<Rightarrow> (db, 's, 'l) world \<Rightarrow> (db, 's, 'l) world" where
  "to_followers u f v \<equiv> v\<lparr>w_hub := (w_hub v)\<lparr>clients := (\<lambda>i.
     case clients (w_hub v) i of None \<Rightarrow> None
     | Some c \<Rightarrow> Some (if \<exists>x. (x, u) \<in> graph (tb (w_db v)) \<and> live_account (w_db v) x \<noteq> None \<and>
                          i \<in> set (user_clients x (w_hub v))
                     then offered f c else c))\<rparr>\<rparr>"

lemma pg_fanout:
  assumes "sv_users sv = pg_user_store ilike collate" "db_ok (w_db v)" "faults (w_db v) = []" "hub_ok (w_hub v)"
  obtains ids where "on_db (us_GetContactFollowerIDs (sv_users sv) u) v = (Inr ids, v)"
    "on_hub (fold (\<lambda>x. sendToUser x f) ids) v = to_followers u f v"
proof -
  from pg_followers [OF assms(1-3)] obtain ids where
    ids: "on_db (us_GetContactFollowerIDs (sv_users sv) u) v = (Inr ids, v)" "distinct ids"
    "set ids = {x. (x, u) \<in> graph (tb (w_db v)) \<and> live_account (w_db v) x \<noteq> None}" by blast
  have "(\<exists>x \<in> set ids. i \<in> set (user_clients x (w_hub v))) \<longleftrightarrow> (\<exists>x. (x, u) \<in> graph (tb (w_db v)) \<and>
      live_account (w_db v) x \<noteq> None \<and> i \<in> set (user_clients x (w_hub v)))" for i
    unfolding ids(3) by blast
  then have "on_hub (fold (\<lambda>x. sendToUser x f) ids) v = to_followers u f v"
    by (simp only: on_hub_def fold_sendToUser [OF assms(4) ids(2), THEN conjunct2])
  with ids(1) show thesis by (rule that)
qed

text \<open>
  Whoever relies on a key hears of a new one. When the upload endpoint answers 204, the key has
  80 to 256 bytes of base64, it is now the key of the caller's account and of no other, and one
  goroutine was started; when that runs on a working database, every open connection here of every
  live account that has the caller as a contact is offered one key-changed frame with the caller's
  name, and no other connection gets anything.
\<close>

theorem upload_key_notifies:
  assumes "sv_users sv = pg_user_store ilike collate" "db_ok (w_db w)"
    "CurrentUser r = Some cu" "string_field ''publicKey'' r = Some key"
    "UploadKeyHandler sv r w = (resp, w')" "rs_status resp = 204"
  shows "80 \<le> length key \<and> length key \<le> 256 \<and>
    (StdEncoding_DecodeString key \<noteq> None \<or> RawStdEncoding_DecodeString key \<noteq> None) \<and>
    live_account (w_db w') = (live_account (w_db w))
      (au_ID cu := map_option (\<lambda>u. u\<lparr>PublicKey := key\<rparr>) (live_account (w_db w) (au_ID cu))) \<and>
    w_jobs w' = w_jobs w @ [JobKeyChanged (au_ID cu) (au_Username cu)] \<and>
    (\<forall>v. db_ok (w_db v) \<longrightarrow> faults (w_db v) = [] \<longrightarrow> hub_ok (w_hub v) \<longrightarrow>
       run_job sv (JobKeyChanged (au_ID cu) (au_Username cu)) v =
         to_followers (au_ID cu) (KeyChangedFrame (au_Username cu)) v)"
proof -
  from assms(3-6) have k: "80 \<le> length key" "length key \<le> 256"
    "StdEncoding_DecodeString key \<noteq> None \<or> RawStdEncoding_DecodeString key \<noteq> None"
    by (auto simp: UploadKeyHandler_def split: if_split_asm)
  obtain w1 where set: "on_db (us_SetPublicKey (sv_users sv) (au_ID cu) key) w = (Inr (), w1)"
    and w': "w' = go_routine (JobKeyChanged (au_ID cu) (au_Username cu)) w1"
    using assms(3-6) by (auto simp: UploadKeyHandler_def split: if_split_asm prod.split_asm sum.split_asm)
  from set obtain d where d: "us_SetPublicKey (sv_users sv) (au_ID cu) key (w_db w) = (Inr (), d)" "w1 = w\<lparr>w_db := d\<rparr>"
    by (rule on_db_cases)
  have acct: "live_account (w_db w') = (live_account (w_db w))
      (au_ID cu := map_option (\<lambda>u. u\<lparr>PublicKey := key\<rparr>) (live_account (w_db w) (au_ID cu)))"
    using pg.set_key [OF assms(2) d(1) [unfolded assms(1)]] d(2) w' by (simp add: go_routine_def)
  have jobs: "w_jobs w' = w_jobs w @ [JobKeyChanged (au_ID cu) (au_Username cu)]"
    using d(2) w' by (simp add: go_routine_def)
  have "run_job sv (JobKeyChanged (au_ID cu) (au_Username cu)) v = to_followers (au_ID cu) (KeyChangedFrame (au_Username cu)) v"
    if v: "db_ok (w_db v)" "faults (w_db v) = []" "hub_ok (w_hub v)" for v
    by (rule pg_fanout [OF assms(1) v, where f = "KeyChangedFrame (au_Username cu)" and u = "au_ID cu"])
      (simp add: SendKeyChangedToUser_def [abs_def])
  with k acct jobs show ?thesis by blast
qed

text \<open>Alice uploads a key of eighty base64 symbols; bob has her as a contact and one connection open.\<close>

lemma plain_A: "StdEncoding_DecodeString (replicate 80 (CHR ''A'')) \<noteq> None"
proof -
  have d: "dec6 std_alphabet (CHR ''A'') = Some 0" by code_simp
  have "dec_quanta std_alphabet True (replicate (4 * n) (CHR ''A'')) \<noteq> None" for n
  proof (induction n)
    case (Suc n)
    have "4 * Suc n = Suc (Suc (Suc (Suc (4 * n))))" by simp
    with Suc show ?case by (simp only: replicate.simps dec_quanta.simps d) simp
  qed simp
  from this [of 20] show ?thesis
    by (simp add: StdEncoding_DecodeString_def b64_decode_def is_newline_def)
qed

definition upload_request :: request where
  "upload_request = (demo_post [(''publicKey'', replicate 80 (CHR ''A''))])\<lparr>rq_user := Some alice\<rparr>"

theorem upload_key_notifies_witness:
  "\<exists>w' v c. UploadKeyHandler demo_server upload_request erase_world = (no_content 204, w') \<and>
     run_job demo_server (JobKeyChanged 1 ''alice'') erase_world = v \<and>
     clients (w_hub v) 30 = Some c \<and> cl_send c = [KeyChangedFrame ''alice'']"
proof -
  have f: "string_field ''publicKey'' upload_request = Some (replicate 80 (CHR ''A''))" by code_simp
  have ne: "replicate 80 (CHR ''A'') \<noteq> []" by simp
  have cu: "CurrentUser upload_request = Some alice" by (simp add: upload_request_def CurrentUser_def)
  obtain w' where run: "UploadKeyHandler demo_server upload_request erase_world = (no_content 204, w')"
    using f cu plain_A
    by (simp add: UploadKeyHandler_def on_db_def pg_user_store_def SetPublicKey_def update_users_def erase_world_def)
  have pre: "db_ok (w_db erase_world)" "faults (w_db erase_world) = []" "hub_ok (w_hub erase_world)"
    "w_hub erase_world = demo_hub" "rs_status (no_content 204) = 204"
    by (simp_all add: erase_world_def hub_ok_demo)
  have bob: "30 \<in> set (user_clients 2 demo_hub)" "clients demo_hub 30 = Some (demo_client 2 ''bob'')"
    by (simp_all add: demo_hub_def addClient_def NewHub_def user_clients_def Let_def demo_client_def)
  have "(2, au_ID alice) \<in> graph (tb (w_db erase_world))" "live_account (w_db erase_world) 2 \<noteq> None"
    by (simp_all add: erase_world_def alice_def graph_def live_account_def select_one_def live_def demo_defs)
  with bob have "\<exists>f. (f, au_ID alice) \<in> graph (tb (w_db erase_world)) \<and> live_account (w_db erase_world) f \<noteq> None \<and>
      30 \<in> set (user_clients f demo_hub)" by blast
  with upload_key_notifies [OF demo_server_simps(1) pre(1) cu f run pre(5)] pre(1-4) bob(2)
  have "clients (w_hub (run_job demo_server (JobKeyChanged (au_ID alice) (au_Username alice)) erase_world)) 30 =
      Some (offered (KeyChangedFrame (au_Username alice)) (demo_client 2 ''bob''))"
    by simp
  then show ?thesis using run by (auto simp: offered_def demo_client_def sendQueueSize_def alice_def)
qed

text \<open>Alice changes her password.\<close>

definition change_request :: request where
  "change_request = (demo_post [(''current_password'', ''alice''), (''new_password'', ''longer-pw'')])\<lparr>rq_user := Some alice\<rparr>"

definition changed_world :: "(db, mem_server, nat) world" where
  "changed_world = snd (ChangePasswordHandler demo_server change_request demo_world)"

theorem password_changed_witness:
  "\<exists>h w3. LoginHandler demo_server (demo_post [(''username'', ''alice''), (''password'', ''longer-pw'')]) changed_world =
     start_session demo_server \<lparr>UserID = 1, Username = ''alice'', PasswordHash = h, PublicKey = ''key-alice''\<rparr> w3"
proof -
  let ?l = "demo_post [(''username'', ''alice''), (''password'', ''longer-pw'')]"
  let ?u = "\<lparr>UserID = 1, Username = ''alice'', PasswordHash = ''hash-alice'', PublicKey = ''key-alice''\<rparr>"
  have dec: "decode_change change_request = Some \<lparr>cp_CurrentPassword = ''alice'', cp_NewPassword = ''longer-pw''\<rparr>"
    "decode_login ?l = Some \<lparr>lr_Username = ''alice'', lr_Password = ''longer-pw''\<rparr>"
    "TrimSpace ''alice'' = ''alice''" by code_simp+
  have g: "GetUserByUsername ''alice'' demo_db = (Inr ?u, demo_db)"
    by (simp add: GetUserByUsername_def select_one_def live_def scan_user_def demo_defs)
  have cu: "CurrentUser change_request = Some alice" by (simp add: change_request_def CurrentUser_def)
  have run: "ChangePasswordHandler demo_server change_request demo_world = (no_content 204, changed_world) \<and>
      faults (w_db changed_world) = [] \<and> w_idLimiter changed_world = w_idLimiter demo_world"
    using dec(1) g cu
    by (simp add: changed_world_def ChangePasswordHandler_def on_db_def pg_user_store_def alice_def demo_bcrypt_def
        draw_def UpdatePassword_def update_users_def)
  obtain b w3 where lim: "idLimited demo_server (map ascii_lower ''alice'') changed_world = (b, w3)" by fastforce
  then have b using run
    by (simp add: idLimited_def limited_def kl_Allow_def demo_world_def NewKeyedLimiter_def counting_lib_def)
  then have lim': "idLimited demo_server (uc_ToLower (sv_unicode demo_server)
      (TrimSpace (lr_Username \<lparr>lr_Username = ''alice'', lr_Password = ''longer-pw''\<rparr>))) changed_world = (True, w3)"
    using lim dec(3) by simp
  have "live_account (w_db demo_world) (au_ID alice) = Some ?u" "Username ?u = au_Username alice"
    "db_ok (w_db demo_world)" "bcrypt_law (sv_bcrypt demo_server)" "rs_status (no_content 204) = 204"
    by (simp_all add: demo_live alice_def demo_bcrypt_law)
  from password_changed [OF demo_server_simps(1) this(3,4) cu this(1,2) dec(1) _ this(5) dec(2) _ _ _ refl _ lim']
  show ?thesis using run dec(3) by auto
qed

end
