(* ===== verification/Observability.thy ===== *)
theory Observability
  imports Server "HOL-Library.AList"
begin

text \<open>
  \<open>observability_middleware.go\<close> and \<open>sentry.go\<close>: the request id, the access log with its
  metrics and its recovery of panics, and which log entries go to Sentry. What the middleware
  writes down about a request is an \<open>observation\<close>, and \<open>access_metrics\<close> are the calls on the
  collectors that follow from it; the loggers and the Sentry client are not modelled.
\<close>

section \<open>Requests as the log sees them\<close>

text \<open>
  A handler that panicked before it wrote anything. \<open>0\<close> is no status code, so no answer is
  mistaken for it.
\<close>

definition handler_panic :: response where
  "handler_panic = \<lparr>rs_status = 0, rs_headers = [], rs_payload = Empty\<rparr>"

text \<open>The answer of a request whose connection was taken over by the WebSocket library.\<close>

definition hijacked :: response where
  "hijacked = \<lparr>rs_status = 101, rs_headers = [], rs_payload = Empty\<rparr>"

text \<open>
  \<open>RequestID\<close>; the id it puts into the context is the extra argument of the next handler.
  \<open>uuid\<close> renders 16 random bytes; \<open>uuid.NewString\<close> panics when there are none.
\<close>

definition RequestID ::
  "(string \<Rightarrow> string) \<Rightarrow> (string \<Rightarrow> ('d, 's, 'l) world handler) \<Rightarrow> ('d, 's, 'l) world handler" where
  "RequestID uuid next r w =
     (let given = lookup ''X-Request-Id'' (rq_header r) in
      case (if given \<noteq> [] then (Some given, w)
            else case draw w of (bs, w1) \<Rightarrow> (map_option uuid bs, w1)) of
        (None, w1) \<Rightarrow> (handler_panic, w1)
      | (Some rid, w1) \<Rightarrow>
          (case next rid r w1 of (resp, w2) \<Rightarrow> (set_before [(''X-Request-Id'', rid)] resp, w2)))"

definition clientIP :: "request \<Rightarrow> string" where
  "clientIP r =
     (let xff = lookup ''X-Forwarded-For'' (rq_header r);
          xrip = lookup ''X-Real-Ip'' (rq_header r)
      in if xff \<noteq> [] then TrimSpace (hd (split_on CHR '','' xff))
         else if xrip \<noteq> [] then TrimSpace xrip
         else case SplitHostPort (rq_remote r) of Some host \<Rightarrow> host | None \<Rightarrow> rq_remote r)"

definition isHealthCheckRoute :: "string \<Rightarrow> bool" where
  "isHealthCheckRoute route \<longleftrightarrow> route \<in> {''/health'', ''/healthz'', ''/health/live'', ''/health/ready''}"

text \<open>The flag is \<open>r.TLS != nil\<close>.\<close>

definition requestScheme :: "bool \<Rightarrow> request \<Rightarrow> string" where
  "requestScheme tls r =
     (let xfp = lookup ''X-Forwarded-Proto'' (rq_header r)
      in if xfp \<noteq> [] then xfp else if tls then ''https'' else ''http'')"

text \<open>\<open>routeTemplate\<close>: the template of the route that mux matched, if it has one.\<close>

definition routeTemplate :: "string option \<Rightarrow> string" where
  "routeTemplate tpl = (case tpl of Some t \<Rightarrow> if t \<noteq> [] then t else ''unknown'' | None \<Rightarrow> ''unknown'')"

section \<open>Levels and Sentry\<close>

datatype level = InfoLevel | WarnLevel | ErrorLevel | FatalLevel

fun severity :: "level \<Rightarrow> nat" where
  "severity InfoLevel = 0"
| "severity WarnLevel = 1"
| "severity ErrorLevel = 2"
| "severity FatalLevel = 5"

instantiation level :: linorder
begin

definition less_eq_level :: "level \<Rightarrow> level \<Rightarrow> bool" where
  "less_eq_level a b \<longleftrightarrow> severity a \<le> severity b"

definition less_level :: "level \<Rightarrow> level \<Rightarrow> bool" where
  "less_level a b \<longleftrightarrow> severity a < severity b"

instance
proof
  fix a b c :: level
  show "(a < b) = (a \<le> b \<and> \<not> b \<le> a)" by (auto simp: less_eq_level_def less_level_def)
  show "a \<le> a" by (simp add: less_eq_level_def)
  show "a \<le> b \<Longrightarrow> b \<le> c \<Longrightarrow> a \<le> c" by (simp add: less_eq_level_def)
  show "a \<le> b \<Longrightarrow> b \<le> a \<Longrightarrow> a = b" by (cases a; cases b; simp add: less_eq_level_def)
  show "a \<le> b \<or> b \<le> a" by (auto simp: less_eq_level_def)
qed

end

text \<open>A field of a log entry, as far as \<open>sentryCore.Write\<close> tells them apart.\<close>

datatype field = BoolField string bool | ErrorField string string | OtherField string string

fun field_key :: "field \<Rightarrow> string" where
  "field_key (BoolField k b) = k"
| "field_key (ErrorField k e) = k"
| "field_key (OtherField k v) = k"

definition skipSentryKey :: string where "skipSentryKey = ''skip_sentry''"

definition SkipSentry :: field where "SkipSentry = BoolField skipSentryKey True"

text \<open>
  What a handler panicked with: an error, as every panic of the Go runtime is, or another value.
  \<open>zap.Any\<close> makes an error field of an error and a field of the value's own kind of the others.
\<close>

datatype panic_value = PanicError string | PanicOther string

fun panic_field :: "panic_value \<Rightarrow> field" where
  "panic_field (PanicError e) = ErrorField ''panic'' e"
| "panic_field (PanicOther v) = OtherField ''panic'' v"

text \<open>
  What Sentry is told: the level, the context \<open>log_fields\<close>, and an exception, a message or a
  recovered panic. The value of a field is what zap's encoder \<open>fv\<close> makes of it.
\<close>

datatype sentry_event = CaptureException string | CaptureMessage string | Recovered panic_value

record sentry_report =
  sr_level :: level
  sr_context :: "(string \<times> string) list"
  sr_event :: sentry_event

text \<open>
  The loop of \<open>Write\<close> over the fields: \<open>None\<close> as soon as one tells it to skip, otherwise the
  error captured (the last one) and the context (the last value of each key).
\<close>

fun write_loop ::
  "(field \<Rightarrow> string) \<Rightarrow> field list \<Rightarrow> string option \<Rightarrow> (string \<times> string) list \<Rightarrow> (string option \<times> (string \<times> string) list) option" where
  "write_loop fv [] err extra = Some (err, extra)"
| "write_loop fv (f # fs) err extra =
     (if field_key f = skipSentryKey then
        (case f of BoolField k b \<Rightarrow> if b then None else write_loop fv fs err extra
                 | ErrorField k e \<Rightarrow> write_loop fv fs err extra | OtherField k v \<Rightarrow> write_loop fv fs err extra)
      else case f of ErrorField k e \<Rightarrow> write_loop fv fs (Some e) extra
                   | BoolField k b \<Rightarrow> write_loop fv fs err (AList.update k (fv f) extra)
                   | OtherField k v \<Rightarrow> write_loop fv fs err (AList.update k (fv f) extra))"

definition sentryLevel :: "level \<Rightarrow> level" where
  "sentryLevel lvl = (if lvl \<ge> FatalLevel then FatalLevel else ErrorLevel)"

record sentryCore =
  sc_minLevel :: level
  sc_fields :: "field list"

definition Enabled :: "sentryCore \<Rightarrow> level \<Rightarrow> bool" where
  "Enabled c lvl \<longleftrightarrow> lvl \<ge> sc_minLevel c"

definition With_core :: "sentryCore \<Rightarrow> field list \<Rightarrow> sentryCore" where
  "With_core c flds = \<lparr>sc_minLevel = sc_minLevel c, sc_fields = sc_fields c @ flds\<rparr>"

definition sentry_write :: "(field \<Rightarrow> string) \<Rightarrow> sentryCore \<Rightarrow> level \<Rightarrow> string \<Rightarrow> field list \<Rightarrow> sentry_report option" where
  "sentry_write fv c lvl message flds =
     (case write_loop fv (sc_fields c @ flds) None [] of
        None \<Rightarrow> None
      | Some (capturedErr, extra) \<Rightarrow>
          Some \<lparr>sr_level = sentryLevel lvl, sr_context = extra,
                sr_event = (case capturedErr of Some e \<Rightarrow> CaptureException e | None \<Rightarrow> CaptureMessage message)\<rparr>)"

text \<open>\<open>InitSentry\<close>: the core teed to the logger, if a DSN is set and the SDK accepts it.\<close>

definition InitSentry :: "string \<Rightarrow> string option \<Rightarrow> sentryCore option" where
  "InitSentry dsn init_err =
     (if dsn = [] then None
      else if init_err \<noteq> None then None
      else Some \<lparr>sc_minLevel = ErrorLevel, sc_fields = []\<rparr>)"

text \<open>One log entry, through \<open>Check\<close> and \<open>Write\<close> of the core.\<close>

definition log_entry :: "(field \<Rightarrow> string) \<Rightarrow> sentryCore option \<Rightarrow> level \<Rightarrow> string \<Rightarrow> field list \<Rightarrow> sentry_report list" where
  "log_entry fv core lvl message flds =
     (case core of None \<Rightarrow> []
      | Some c \<Rightarrow> if Enabled c lvl then (case sentry_write fv c lvl message flds of None \<Rightarrow> [] | Some rep \<Rightarrow> [rep]) else [])"

section \<open>The access log\<close>

record observation =
  ob_request_id :: string
  ob_method :: string
  ob_route :: string
  ob_status :: nat
  ob_rejected :: bool        \<comment> \<open>counted in \<open>http_rate_limit_rejections_total\<close>\<close>
  ob_client_ip :: string
  ob_scheme :: string
  ob_user :: "AuthUser option"
  ob_level :: level
  ob_skip :: bool
  ob_panic :: bool           \<comment> \<open>a second entry \<open>panic_recovered\<close> was logged\<close>

definition log_level :: "nat \<Rightarrow> level" where
  "log_level status = (if status \<ge> 500 then ErrorLevel else if status \<ge> 400 then WarnLevel else InfoLevel)"

text \<open>
  \<open>AccessLogAndMetrics\<close>. \<open>r\<close> is the request this middleware was called with. A hijacked
  connection never calls \<open>WriteHeader\<close>, so it is logged with the initial 200.
\<close>

definition AccessLogAndMetrics ::
  "string option \<Rightarrow> bool \<Rightarrow> string \<Rightarrow> 'w handler \<Rightarrow> request \<Rightarrow> 'w \<Rightarrow> (response \<times> 'w) \<times> observation" where
  "AccessLogAndMetrics tpl tls rid next r w =
     (case next r w of (resp, w') \<Rightarrow>
        let panicked = (resp = handler_panic);
            out = (if panicked then writeJSONError 500 ''internal server error'' else resp);
            status = (if out = hijacked then 200 else rs_status out);
            route = routeTemplate tpl
        in ((out, w'),
            \<lparr>ob_request_id = rid, ob_method = rq_method r, ob_route = route, ob_status = status,
             ob_rejected = (status = 429), ob_client_ip = clientIP r, ob_scheme = requestScheme tls r,
             ob_user = CurrentUser r, ob_level = log_level status,
             ob_skip = (status \<ge> 500 \<and> isHealthCheckRoute route), ob_panic = panicked\<rparr>))"

text \<open>The calls on the collectors that go with it; \<open>dur\<close> is the time the request took.\<close>

definition access_metrics :: "time \<Rightarrow> observation \<Rightarrow> metric_op list" where
  "access_metrics dur ob =
     [Inc httpRequests [ob_method ob, ob_route ob, FormatInt (int (ob_status ob))],
      Observe httpDuration [ob_method ob, ob_route ob] dur] @
     (if ob_rejected ob then [Inc HTTPRateLimitRejections [''http'']] else [])"

lemma access_metrics_ok: "op \<in> set (access_metrics dur ob) \<Longrightarrow> op_ok op"
  by (auto simp: access_metrics_def op_ok.simps collector_defs split: if_splits)

text \<open>
  The label of \<open>http_rate_limit_rejections_total\<close> is meant to tell the limiters apart, but every 429
  is counted under the same value, whichever of the three limiters refused.
\<close>

lemma rejections_not_partitioned:
  "series_value HTTPRateLimitRejections [l] (access_metrics dur ob) = (if ob_rejected ob \<and> l = ''http'' then 1 else 0)"
  by (simp add: access_metrics_def collector_defs)

text \<open>
  The fields of the \<open>http_request\<close> entry of an observation. Fields whose value the request record
  does not hold (path, query, trace and span id, duration, sizes, further headers) are left out;
  they are strings and numbers under keys of their own.
\<close>

definition access_fields :: "observation \<Rightarrow> field list" where
  "access_fields ob =
     [OtherField ''request_id'' (ob_request_id ob), OtherField ''method'' (ob_method ob),
      OtherField ''route'' (ob_route ob), OtherField ''status'' (FormatInt (int (ob_status ob))),
      OtherField ''client_ip'' (ob_client_ip ob), OtherField ''scheme'' (ob_scheme ob)] @
     (case ob_user ob of None \<Rightarrow> []
      | Some u \<Rightarrow> [OtherField ''user_id'' (FormatInt (au_ID u)), OtherField ''username'' (au_Username u)]) @
     (if ob_skip ob then [SkipSentry] else [])"

definition panic_fields :: "panic_value \<Rightarrow> observation \<Rightarrow> field list" where
  "panic_fields rcv ob =
     [OtherField ''request_id'' (ob_request_id ob), OtherField ''method'' (ob_method ob),
      OtherField ''route'' (ob_route ob), OtherField ''client_ip'' (ob_client_ip ob), panic_field rcv]"

text \<open>
  What Sentry is told of a request: after a panic with the value \<open>rcv\<close> the recovered value and the
  entry \<open>panic_recovered\<close>, which is never marked to be skipped, and in any case the entry
  \<open>http_request\<close>.
\<close>

definition sentry_reports :: "(field \<Rightarrow> string) \<Rightarrow> sentryCore option \<Rightarrow> panic_value \<Rightarrow> observation \<Rightarrow> sentry_report list" where
  "sentry_reports fv core rcv ob =
     (if ob_panic ob
      then (if core \<noteq> None then [\<lparr>sr_level = FatalLevel, sr_context = [], sr_event = Recovered rcv\<rparr>] else []) @
        log_entry fv core ErrorLevel ''panic_recovered'' (panic_fields rcv ob)
      else []) @
     log_entry fv core (ob_level ob) ''http_request'' (access_fields ob)"

section \<open>Health\<close>

definition LiveHandler :: "'w handler" where
  "LiveHandler r w = (json_body 200 (JObj [(''status'', JStr ''live'')]), w)"

definition ReadyHandler :: "('d, 's, 'l) server \<Rightarrow> ('d, 's, 'l) world handler" where
  "ReadyHandler sv r w =
     (case on_db (us_Ping (sv_users sv)) w of
        (Inl _, w1) \<Rightarrow> (json_body 503 (JObj [(''status'', JStr ''not_ready'')]), w1)
      | (Inr _, w1) \<Rightarrow> (json_body 200 (JObj [(''status'', JStr ''ready'')]), w1))"

section \<open>What is reported\<close>

lemma write_loop_skips:
  "write_loop fv fs err extra = None \<longleftrightarrow> BoolField skipSentryKey True \<in> set fs"
  by (induction fv fs err extra rule: write_loop.induct) (auto split: field.splits)

lemma write_loop_plain:
  "\<forall>f \<in> set fs. \<exists>k v. f = OtherField k v \<and> k \<noteq> skipSentryKey \<Longrightarrow>
     \<exists>extra'. write_loop fv fs err extra = Some (err, extra') \<and>
       map_of extra' = map_of extra ++ map_of (rev (map (\<lambda>f. (field_key f, fv f)) fs))"
proof (induction fs arbitrary: extra)
  case (Cons f fs)
  from Cons.prems obtain k v where f: "f = OtherField k v" "k \<noteq> skipSentryKey" by auto
  have "\<forall>f \<in> set fs. \<exists>k v. f = OtherField k v \<and> k \<noteq> skipSentryKey" using Cons.prems by simp
  from Cons.IH [OF this, of "AList.update k (fv f) extra"] obtain extra' where loop: "write_loop fv fs err (AList.update k (fv f) extra) = Some (err, extra')"
    "map_of extra' = map_of (AList.update k (fv f) extra) ++ map_of (rev (map (\<lambda>f. (field_key f, fv f)) fs))"
    by blast
  have "map_of (AList.update k (fv f) extra) = map_of extra ++ map_of [(field_key f, fv f)]"
    by (simp add: f(1) update_conv' map_add_upd)
  with loop(2) have "map_of extra' = map_of extra ++ map_of (rev (map (\<lambda>f. (field_key f, fv f)) (f # fs)))"
    by (simp only: map_add_assoc list.map rev.simps map_of_append)
  moreover have "write_loop fv (f # fs) err extra = Some (err, extra')" using loop(1) f by simp
  ultimately show ?case by blast
qed simp

definition plain_fields :: "observation \<Rightarrow> field list" where
  "plain_fields ob = filter (\<lambda>f. f \<noteq> SkipSentry) (access_fields ob)"

lemma access_fields_plain:
  "f \<in> set (plain_fields ob) \<Longrightarrow> \<exists>k v. f = OtherField k v \<and> k \<noteq> skipSentryKey"
  "access_fields ob = plain_fields ob @ (if ob_skip ob then [SkipSentry] else [])"
  "map_of (rev (map (\<lambda>f. (field_key f, fv f)) (plain_fields ob))) ''status'' =
     Some (fv (OtherField ''status'' (FormatInt (int (ob_status ob)))))"
  by (auto simp: plain_fields_def access_fields_def SkipSentry_def skipSentryKey_def map_add_def
      split: option.splits)

lemma log_entry_plain:
  assumes "\<forall>f \<in> set fs. \<exists>k v. f = OtherField k v \<and> k \<noteq> skipSentryKey" "lvl < FatalLevel"
    "core = InitSentry dsn init_err"
  obtains extra where "map_of extra = map_of (rev (map (\<lambda>f. (field_key f, fv f)) fs))"
    "log_entry fv core lvl m fs =
      (if core \<noteq> None \<and> lvl \<ge> ErrorLevel
       then [\<lparr>sr_level = ErrorLevel, sr_context = extra, sr_event = CaptureMessage m\<rparr>] else [])"
proof -
  obtain extra where "write_loop fv fs None [] = Some (None, extra)"
    "map_of extra = map_of (rev (map (\<lambda>f. (field_key f, fv f)) fs))"
    using write_loop_plain [OF assms(1), of fv None "[]"] by auto
  with assms(2) show thesis
    by (intro that [of extra]) (auto simp: assms(3) InitSentry_def log_entry_def Enabled_def sentry_write_def sentryLevel_def)
qed

lemma write_loop_append:
  "write_loop fv fs err extra = Some (err', extra') \<Longrightarrow> write_loop fv (fs @ gs) err extra = write_loop fv gs err' extra'"
  by (induction fv fs err extra rule: write_loop.induct) (auto split: field.splits if_splits)

text \<open>The entry of a panic is told as the error it carries, if it is one.\<close>

lemma log_entry_panic:
  assumes "core = InitSentry dsn init_err"
  obtains extra where
    "log_entry fv core ErrorLevel ''panic_recovered'' (panic_fields rcv ob) =
      (if core \<noteq> None
       then [\<lparr>sr_level = ErrorLevel, sr_context = extra, sr_event = (case rcv of PanicError e \<Rightarrow> CaptureException e
               | PanicOther v \<Rightarrow> CaptureMessage ''panic_recovered'')\<rparr>] else [])"
    "case rcv of PanicError e \<Rightarrow> True | PanicOther v \<Rightarrow> map_of extra ''panic'' = Some (fv (OtherField ''panic'' v))"
proof -
  let ?fs = "butlast (panic_fields rcv ob)"
  have fs: "panic_fields rcv ob = ?fs @ [panic_field rcv]" by (simp add: panic_fields_def)
  have "\<forall>f \<in> set ?fs. \<exists>k v. f = OtherField k v \<and> k \<noteq> skipSentryKey" by (simp add: panic_fields_def skipSentryKey_def)
  from write_loop_plain [OF this, of fv None "[]"] obtain extra where "write_loop fv ?fs None [] = Some (None, extra)" by blast
  from write_loop_append [OF this, of "[panic_field rcv]", folded fs]
  have loop: "write_loop fv (panic_fields rcv ob) None [] = (case rcv of PanicError e \<Rightarrow> Some (Some e, extra)
      | PanicOther v \<Rightarrow> Some (None, AList.update ''panic'' (fv (OtherField ''panic'' v)) extra))"
    by (cases rcv) (simp_all add: skipSentryKey_def)
  have "ErrorLevel \<ge> ErrorLevel" "ErrorLevel < FatalLevel" by (simp_all add: less_eq_level_def less_level_def)
  with loop show thesis
    by (intro that [of "case rcv of PanicError e \<Rightarrow> extra | PanicOther v \<Rightarrow> AList.update ''panic'' (fv (OtherField ''panic'' v)) extra"])
      (auto simp: assms InitSentry_def log_entry_def Enabled_def sentry_write_def sentryLevel_def update_conv' split: panic_value.split)
qed

lemma log_entry_skipped: "ob_skip ob \<Longrightarrow> core = InitSentry dsn init_err \<Longrightarrow> log_entry fv core lvl m (access_fields ob) = []"
  using write_loop_skips [of fv "access_fields ob" None "[]"] access_fields_plain(2) [of ob]
  by (auto simp: log_entry_def sentry_write_def InitSentry_def SkipSentry_def)

lemma access_log_observed:
  assumes "next r w = (resp, w')" "AccessLogAndMetrics tpl tls rid next r w = (out, ob)"
  shows "out = (if resp = handler_panic then writeJSONError 500 ''internal server error'' else resp, w')"
    "ob_status ob = (if resp = hijacked then 200 else rs_status (fst out))"
    "ob_level ob = log_level (ob_status ob)" "ob_panic ob \<longleftrightarrow> resp = handler_panic"
    "ob_skip ob \<longleftrightarrow> ob_status ob \<ge> 500 \<and> isHealthCheckRoute (routeTemplate tpl)"
proof -
  have "writeJSONError 500 m \<noteq> hijacked" for m by (simp add: hijacked_def writeJSONError_def writeJSON_def)
  moreover have "handler_panic \<noteq> hijacked" by (simp add: hijacked_def handler_panic_def)
  ultimately show "ob_status ob = (if resp = hijacked then 200 else rs_status (fst out))"
    using assms by (auto simp: AccessLogAndMetrics_def Let_def)
qed (use assms in \<open>auto simp: AccessLogAndMetrics_def Let_def\<close>)

lemma log_level_order:
  "log_level s \<ge> ErrorLevel \<longleftrightarrow> s \<ge> 500" "log_level s \<ge> WarnLevel \<longleftrightarrow> s \<ge> 400" "log_level s < FatalLevel"
  "ErrorLevel < FatalLevel" "ErrorLevel \<ge> ErrorLevel"
  by (auto simp: log_level_def less_eq_level_def less_level_def)



text \<open>
  The user fields are taken from the request this middleware was called with. The
  authentication middleware puts the user into a copy of the request that only inner handlers
  see, so the entry of an authenticated request carries none.
\<close>

lemma access_log_names_no_user:
  assumes "rq_user r = None" "AccessLogAndMetrics tpl tls rid next r w = (out, ob)"
  shows "ob_user ob = None"
  using assms by (auto simp: AccessLogAndMetrics_def CurrentUser_def Let_def split: prod.splits)

end
