(* ===== verification/Admin_Handlers.thy ===== *)
theory Admin_Handlers
  imports Account_Handlers Observability
begin

text \<open>
  \<open>admin_handlers.go\<close>: the administrator lists, creates and resets invite codes. The part of
  Go's \<open>time\<close> the handlers use is here too: \<open>AddDate\<close> in days and RFC 3339 in UTC.
\<close>

section \<open>Times\<close>

text \<open>
  A date is computed in whole seconds with 64-bit wrap-around; in UTC every day has 86400 of
  them, so adding days is adding seconds modulo \<open>2^64\<close>.
\<close>

definition wrap64 :: "int \<Rightarrow> int64" where
  "wrap64 i = (i + 9223372036854775808) mod 18446744073709551616 - 9223372036854775808"

definition AddDays :: "time \<Rightarrow> int64 \<Rightarrow> time" where
  "AddDays t days = wrap64 (t div second + days * 86400) * second + t mod second"

text \<open>The civil date of a day number, counted from 1970-01-01, in the proleptic Gregorian calendar.\<close>

definition civil :: "int \<Rightarrow> int \<times> int \<times> int" where
  "civil days =
     (let z = days + 719468;
          era = z div 146097;
          doe = z mod 146097;
          yoe = (doe - doe div 1460 + doe div 36524 - doe div 146096) div 365;
          doy = doe - (365 * yoe + yoe div 4 - yoe div 100);
          mp = (5 * doy + 2) div 153;
          d = doy - (153 * mp + 2) div 5 + 1;
          m = (if mp < 10 then mp + 3 else mp - 9);
          y = yoe + era * 400
      in (if m \<le> 2 then y + 1 else y, m, d))"

definition pad_int :: "nat \<Rightarrow> int \<Rightarrow> string" where
  "pad_int width i =
     (let s = fmt_nat (nat \<bar>i\<bar>)
      in (if i < 0 then ''-'' else []) @ replicate (width - length s) (CHR ''0'') @ s)"

definition rfc3339 :: "time \<Rightarrow> string" where
  "rfc3339 t =
     (let secs = t div second; (y, m, d) = civil (secs div 86400); s = secs mod 86400
      in pad_int 4 y @ ''-'' @ pad_int 2 m @ ''-'' @ pad_int 2 d @ ''T'' @
         pad_int 2 (s div 3600) @ '':'' @ pad_int 2 (s div 60 mod 60) @ '':'' @ pad_int 2 (s mod 60) @ ''Z'')"

definition nullTimeToString :: "time option \<Rightarrow> jv" where
  "nullTimeToString t = (case t of None \<Rightarrow> JNull | Some t \<Rightarrow> JStr (rfc3339 t))"

section \<open>Handlers\<close>

definition inviteResponse :: "invite_code_full \<Rightarrow> jv" where
  "inviteResponse c =
     JObj [(''id'', JInt (icf_ID c)), (''code'', JStr (icf_Code c)), (''created_by'', JStr (icf_CreatedBy c)),
           (''used_by'', case icf_UsedBy c of None \<Rightarrow> JNull | Some u \<Rightarrow> JStr u),
           (''used_at'', nullTimeToString (icf_UsedAt c)), (''expires_at'', nullTimeToString (icf_ExpiresAt c)),
           (''created_at'', JStr (rfc3339 (icf_CreatedAt c)))]"

definition AdminListInvitesHandler :: "('d, 's, 'l) server \<Rightarrow> ('d, 's, 'l) world handler" where
  "AdminListInvitesHandler sv r w =
     (case on_db (us_AdminListInvites (sv_users sv)) w of
        (Inl _, w1) \<Rightarrow> (writeJSONError 500 ''failed to list invite codes'', w1)
      | (Inr codes, w1) \<Rightarrow> (json_body 200 (JArr (map inviteResponse codes)), w1))"

record createInviteRequest =
  ci_Code :: string
  ci_ExpiresDays :: int64

definition decode_invite :: "request \<Rightarrow> createInviteRequest option" where
  "decode_invite r =
     (case body_members r of None \<Rightarrow> None | Some ms \<Rightarrow>
        (case (get_string ''code'' ms, get_int ''expires_days'' ms) of
           (Some c, Some d) \<Rightarrow> Some \<lparr>ci_Code = c, ci_ExpiresDays = d\<rparr>
         | _ \<Rightarrow> None))"

definition inviteCharset :: string where
  "inviteCharset = ''ABCDEFGHJKLMNPQRSTUVWXYZ23456789''"

text \<open>
  \<open>rand.Int(rand.Reader, 32)\<close> reads one byte and keeps its low five bits; its error is ignored
  and the index then is nil, so using it panics (\<open>None\<close>).
\<close>

definition draw_symbol :: "('d, 's, 'l) world \<Rightarrow> char option \<times> ('d, 's, 'l) world" where
  "draw_symbol w =
     (case draw w of
        (Some (b # bs), w1) \<Rightarrow> (Some (inviteCharset ! (of_char b mod 32)), w1)
      | (_, w1) \<Rightarrow> (None, w1))"

fun draw_symbols :: "nat \<Rightarrow> ('d, 's, 'l) world \<Rightarrow> string option \<times> ('d, 's, 'l) world" where
  "draw_symbols 0 w = (Some [], w)"
| "draw_symbols (Suc n) w =
     (case draw_symbol w of
        (None, w1) \<Rightarrow> (None, w1)
      | (Some c, w1) \<Rightarrow> (case draw_symbols n w1 of (cs, w2) \<Rightarrow> (map_option (\<lambda>t. c # t) cs, w2)))"

definition randomCode :: "string \<Rightarrow> ('d, 's, 'l) world \<Rightarrow> string option \<times> ('d, 's, 'l) world" where
  "randomCode pfx w =
     (case draw_symbols 6 w of
        (b, w1) \<Rightarrow> (map_option (\<lambda>b. pfx @ ''-'' @ take 3 b @ ''-'' @ drop 3 b) b, w1))"

definition AdminCreateInviteHandler :: "('d, 's, 'l) server \<Rightarrow> ('d, 's, 'l) world handler" where
  "AdminCreateInviteHandler sv r w =
     (case decode_invite r of
        None \<Rightarrow> (http_Error ''invalid JSON'' 400, w)
      | Some req \<Rightarrow>
     (case CurrentUser r of
        None \<Rightarrow> (handler_panic, w)
      | Some caller \<Rightarrow>
     (case (if TrimSpace (ci_Code req) = []
            then randomCode (uc_ToUpper (sv_unicode sv) (au_Username caller)) w
            else (Some (TrimSpace (ci_Code req)), w)) of
        (None, w1) \<Rightarrow> (handler_panic, w1)
      | (Some code, w1) \<Rightarrow>
      let expiresAt = (if ci_ExpiresDays req > 0 then Some (AddDays (w_now w1) (ci_ExpiresDays req)) else None) in
     (case on_db (us_AdminCreateInvite (sv_users sv) code (au_Username caller) expiresAt) w1 of
        (Inl err, w2) \<Rightarrow>
          (if contains (err_text err) ''already exists'' then http_Error ''invite code already exists'' 409
           else writeJSONError 500 ''failed to create invite code'', w2)
      | (Inr created, w2) \<Rightarrow> (json_body 201 (inviteResponse created), w2)))))"

definition AdminResetInviteHandler :: "('d, 's, 'l) server \<Rightarrow> ('d, 's, 'l) world handler" where
  "AdminResetInviteHandler sv r w =
     (let code = lookup ''code'' (rq_vars r) in
      if code = [] then (http_Error ''code is required'' 400, w)
      else case on_db (us_AdminResetInvite (sv_users sv) code) w of
        (Inl err, w1) \<Rightarrow>
          (if contains (err_text err) ''not found'' then http_Error ''invite code not found'' 404
           else writeJSONError 500 ''failed to reset invite code'', w1)
      | (Inr _, w1) \<Rightarrow> (json_body 200 (JObj [(''status'', JStr ''ok''), (''code'', JStr code)]), w1))"

section \<open>Times and codes\<close>

lemma AddDays_small:
  assumes "\<bar>t div second\<bar> \<le> 4611686018427387903" "\<bar>days\<bar> \<le> 50000000000000"
  shows "AddDays t days = t + days * 86400 * second"
proof -
  let ?x = "t div second + days * 86400"
  have "\<bar>days * 86400\<bar> \<le> 50000000000000 * 86400" using assms(2) by (simp add: abs_mult)
  then have "0 \<le> ?x + 9223372036854775808" "?x + 9223372036854775808 < 18446744073709551616"
    using assms(1) by linarith+
  then have "wrap64 ?x = ?x" by (simp add: wrap64_def)
  moreover have "t = t div second * second + t mod second" by simp
  ultimately show ?thesis unfolding AddDays_def by (simp add: algebra_simps)
qed

lemma inviteCharset_length: "length inviteCharset = 32"
  by (simp add: inviteCharset_def)

lemma draw_symbol_in:
  assumes "draw_symbol w = (Some c, w')"
  shows "c \<in> set inviteCharset \<and> w_db w' = w_db w \<and> w_now w' = w_now w"
proof -
  obtain e w1 where d: "draw w = (e, w1)" by fastforce
  from assms d obtain b bs where "e = Some (b # bs)" "c = inviteCharset ! (of_char b mod 32)" "w' = w1"
    by (auto simp: draw_symbol_def split: option.splits list.splits)
  then show ?thesis using draw_world [OF d] inviteCharset_length by (simp add: nth_mem)
qed

lemma draw_symbols_in:
  "draw_symbols n w = (Some cs, w') \<Longrightarrow>
    length cs = n \<and> set cs \<subseteq> set inviteCharset \<and> w_db w' = w_db w \<and> w_now w' = w_now w"
proof (induction n arbitrary: w cs)
  case (Suc n)
  obtain c w1 where c: "draw_symbol w = (Some c, w1)"
    using Suc.prems by (cases "draw_symbol w") (auto split: option.splits)
  obtain t w2 where t: "draw_symbols n w1 = (t, w2)" by fastforce
  with Suc.prems c obtain ts where "t = Some ts" "cs = c # ts" "w' = w2" by auto
  with Suc.IH [of w1 ts] t draw_symbol_in [OF c] show ?case by auto
qed simp

lemma randomCode_shape:
  assumes "randomCode p w = (Some code, w')"
  shows "\<exists>a b. code = p @ ''-'' @ a @ ''-'' @ b \<and> length a = 3 \<and> length b = 3 \<and>
    set a \<union> set b \<subseteq> set inviteCharset \<and> w_db w' = w_db w \<and> w_now w' = w_now w"
proof -
  obtain bs w1 where d: "draw_symbols 6 w = (bs, w1)" by fastforce
  with assms obtain cs where cs: "bs = Some cs" "code = p @ ''-'' @ take 3 cs @ ''-'' @ drop 3 cs" "w' = w1"
    by (auto simp: randomCode_def)
  with draw_symbols_in [of 6 w cs w1] d have "length cs = 6" "set cs \<subseteq> set inviteCharset"
    "w_db w' = w_db w" "w_now w' = w_now w" by auto
  then show ?thesis
    using cs(2) set_take_subset [of 3 cs] set_drop_subset [of 3 cs]
    by (intro exI [of _ "take 3 cs"] exI [of _ "drop 3 cs"]) auto
qed

section \<open>The life of an invite code\<close>

lemma register_succeeds:
  assumes "faults d = []" "\<exists>r \<in> set (invite_codes (tb d)). consumable code (clock d) r"
    "n \<notin> ur_username ` set (users (tb d))"
  shows "RegisterWithInvite code n h d =
    (Inr \<lparr>UserID = user_seq d, Username = n, PasswordHash = h, PublicKey = []\<rparr>,
     d\<lparr>user_seq := user_seq d + 1, tb := registered code n h d\<rparr>)"
  using assms
  by (auto simp: RegisterWithInvite_def in_tx_def register_body_def consume_update_def Let_def
      insert_user_def count_where_0 registered_def new_user_row_def)

lemma register_spent:
  assumes "faults d = []" "\<forall>r \<in> set (invite_codes (tb d)). \<not> consumable code (clock d) r"
  shows "fst (RegisterWithInvite code n h d) = Inl ErrInvalidInviteCode"
  using assms
  by (auto simp: RegisterWithInvite_def in_tx_def register_body_def consume_update_def Let_def count_where_0)

lemma consumed_not_consumable:
  assumes "q \<in> set (update_where (consumable c now) (\<lambda>r. r\<lparr>ir_used_by := Some n, ir_used_at := x\<rparr>) rows)"
  shows "\<not> consumable c now q"
proof -
  from assms obtain r where "q = (if consumable c now r then r\<lparr>ir_used_by := Some n, ir_used_at := x\<rparr> else r)"
    unfolding update_where_def set_map by blast
  moreover have "\<not> consumable c now (r\<lparr>ir_used_by := Some n, ir_used_at := x\<rparr>)" by (simp add: consumable_def)
  ultimately show ?thesis by (cases "consumable c now r") simp_all
qed

lemma AdminCreateInviteHandler_201:
  assumes "AdminCreateInviteHandler sv r w = (resp, w')" "rs_status resp = 201" "CurrentUser r = Some cu"
    "decode_invite r = Some req"
  obtains code w1 created where
    "(if TrimSpace (ci_Code req) = [] then randomCode (uc_ToUpper (sv_unicode sv) (au_Username cu)) w
      else (Some (TrimSpace (ci_Code req)), w)) = (Some code, w1)"
    "on_db (us_AdminCreateInvite (sv_users sv) code (au_Username cu)
       (if ci_ExpiresDays req > 0 then Some (AddDays (w_now w1) (ci_ExpiresDays req)) else None)) w1 = (Inr created, w')"
    "resp = json_body 201 (inviteResponse created)"
proof -
  obtain c w1 where c: "(if TrimSpace (ci_Code req) = [] then randomCode (uc_ToUpper (sv_unicode sv) (au_Username cu)) w
      else (Some (TrimSpace (ci_Code req)), w)) = (c, w1)" by fastforce
  have np: "rs_status handler_panic \<noteq> 201" by (simp add: handler_panic_def)
  then obtain code where code: "c = Some code"
    using assms c by (cases c) (auto simp: AdminCreateInviteHandler_def split: if_split_asm)
  obtain res w2 where a: "on_db (us_AdminCreateInvite (sv_users sv) code (au_Username cu)
       (if ci_ExpiresDays req > 0 then Some (AddDays (w_now w1) (ci_ExpiresDays req)) else None)) w1 = (res, w2)" by fastforce
  have run: "AdminCreateInviteHandler sv r w = (case res of
        Inl err \<Rightarrow> (if contains (err_text err) ''already exists'' then http_Error ''invite code already exists'' 409
           else writeJSONError 500 ''failed to create invite code'', w2)
      | Inr created \<Rightarrow> (json_body 201 (inviteResponse created), w2))"
    using assms(3,4) a unfolding AdminCreateInviteHandler_def Let_def by (simp add: c [unfolded code] split: sum.split)
  with assms(1,2) obtain created where "res = Inr created" "resp = json_body 201 (inviteResponse created)" "w' = w2"
    by (cases res) (auto split: if_split_asm)
  with c code a that show thesis by blast
qed

text \<open>
  C25: an invite code from creation to use. A 201 means one new unused row, made by the caller,
  under a code nobody had: the trimmed one asked for, or the caller's name in capitals followed by
  two groups of three unambiguous symbols; it expires the given number of days from now, or
  never. On a working database, before it expires, it admits one account under any free name,
  and after that no other.
\<close>

theorem invite_lifecycle:
  assumes "sv_users sv = pg_user_store ilike collate" "db_ok (w_db w)" "CurrentUser r = Some cu"
    "decode_invite r = Some req" "AdminCreateInviteHandler sv r w = (resp, w')" "rs_status resp = 201"
  shows "\<exists>row. tb (w_db w') = (tb (w_db w))\<lparr>invite_codes := invite_codes (tb (w_db w)) @ [row]\<rparr> \<and>
    ir_code row \<notin> ir_code ` set (invite_codes (tb (w_db w))) \<and> ir_created_by row = au_Username cu \<and>
    ir_used_by row = None \<and>
    ir_expires_at row = (if 0 < ci_ExpiresDays req then Some (AddDays (w_now w) (ci_ExpiresDays req)) else None) \<and>
    (if TrimSpace (ci_Code req) \<noteq> [] then ir_code row = TrimSpace (ci_Code req)
     else \<exists>a b. ir_code row = uc_ToUpper (sv_unicode sv) (au_Username cu) @ ''-'' @ a @ ''-'' @ b \<and>
       length a = 3 \<and> length b = 3 \<and> set a \<union> set b \<subseteq> set inviteCharset) \<and>
    rs_payload resp = Json (inviteResponse (scan_invite row)) \<and>
    (faults (w_db w') = [] \<and> (\<forall>t. ir_expires_at row = Some t \<longrightarrow> clock (w_db w') < t) \<longrightarrow>
     (\<forall>n h. n \<notin> ur_username ` set (users (tb (w_db w'))) \<longrightarrow>
        (\<exists>u d. RegisterWithInvite (ir_code row) n h (w_db w') = (Inr u, d) \<and> Username u = n \<and>
           (\<forall>n2 h2. fst (RegisterWithInvite (ir_code row) n2 h2 d) = Inl ErrInvalidInviteCode))))"
proof -
  from AdminCreateInviteHandler_201 [OF assms(5,6,3,4)] obtain code w1 created where
    c: "(if TrimSpace (ci_Code req) = [] then randomCode (uc_ToUpper (sv_unicode sv) (au_Username cu)) w
      else (Some (TrimSpace (ci_Code req)), w)) = (Some code, w1)"
    and a: "on_db (us_AdminCreateInvite (sv_users sv) code (au_Username cu)
       (if ci_ExpiresDays req > 0 then Some (AddDays (w_now w1) (ci_ExpiresDays req)) else None)) w1 = (Inr created, w')"
    and resp: "resp = json_body 201 (inviteResponse created)" .
  let ?ex = "if ci_ExpiresDays req > 0 then Some (AddDays (w_now w) (ci_ExpiresDays req)) else None"
  have w1: "w_db w1 = w_db w \<and> w_now w1 = w_now w"
    using c randomCode_shape [of _ w code w1] by (auto split: if_split_asm)
  have shape: "if TrimSpace (ci_Code req) \<noteq> [] then code = TrimSpace (ci_Code req)
     else \<exists>a b. code = uc_ToUpper (sv_unicode sv) (au_Username cu) @ ''-'' @ a @ ''-'' @ b \<and>
       length a = 3 \<and> length b = 3 \<and> set a \<union> set b \<subseteq> set inviteCharset"
  proof (cases "TrimSpace (ci_Code req) = []")
    case True
    then have "randomCode (uc_ToUpper (sv_unicode sv) (au_Username cu)) w = (Some code, w1)" using c by simp
    from randomCode_shape [OF this] True show ?thesis by auto
  qed (use c in simp)
  from a obtain d where "us_AdminCreateInvite (sv_users sv) code (au_Username cu)
       (if ci_ExpiresDays req > 0 then Some (AddDays (w_now w1) (ci_ExpiresDays req)) else None) (w_db w1) = (Inr created, d)"
    and w': "w_db w' = d" by (auto elim: on_db_cases)
  from this [unfolded w1 [THEN conjunct1] w1 [THEN conjunct2]]
  have d: "AdminCreateInvite code (au_Username cu) ?ex (w_db w) = (Inr created, d)" "w_db w' = d"
    by (simp_all add: assms(1) pg_user_store_def)
  from d(1) show ?thesis
  proof (cases rule: AdminCreateInvite_cases)
    case (ok row d0)
    have t: "tb (w_db w') = (tb (w_db w))\<lparr>invite_codes := invite_codes (tb (w_db w)) @ [row]\<rparr>"
      using ok(5) d(2) by simp
    have row: "ir_code row = code" "ir_created_by row = au_Username cu" "ir_used_by row = None" "ir_expires_at row = ?ex"
      unfolding ok(2) by simp_all
    have use: "\<exists>u e. RegisterWithInvite code n h (w_db w') = (Inr u, e) \<and> Username u = n \<and>
        (\<forall>n2 h2. fst (RegisterWithInvite code n2 h2 e) = Inl ErrInvalidInviteCode)"
      if f: "faults (w_db w') = []" "\<forall>t. ?ex = Some t \<longrightarrow> clock (w_db w') < t"
        and n: "n \<notin> ur_username ` set (users (tb (w_db w')))" for n h
    proof -
      let ?e = "(w_db w')\<lparr>user_seq := user_seq (w_db w') + 1, tb := registered code n h (w_db w')\<rparr>"
      have "consumable code (clock (w_db w')) row"
        using f(2) row by (simp add: consumable_def split: option.split)
      then have "RegisterWithInvite code n h (w_db w') =
          (Inr \<lparr>UserID = user_seq (w_db w'), Username = n, PasswordHash = h, PublicKey = []\<rparr>, ?e)"
        using t by (intro register_succeeds [OF f(1) _ n]) auto
      moreover have "\<forall>q \<in> set (invite_codes (tb ?e)). \<not> consumable code (clock ?e) q"
        by (simp add: registered_def consumed_not_consumable)
      with f(1) have "fst (RegisterWithInvite code n2 h2 ?e) = Inl ErrInvalidInviteCode" for n2 h2
        by (intro register_spent) simp_all
      ultimately show ?thesis by auto
    qed
    show ?thesis
      using t ok(1,3) row shape resp use by (intro exI [of _ row]) auto
  qed simp
qed

definition invite_request :: request where
  "invite_request = (demo_post [(''code'', '' spring '')])\<lparr>rq_user := Some alice\<rparr>"

theorem invite_lifecycle_witness:
  "\<exists>w'. rs_status (fst (AdminCreateInviteHandler demo_server invite_request demo_world)) = 201 \<and>
     w' = snd (AdminCreateInviteHandler demo_server invite_request demo_world) \<and>
     (\<exists>u d. RegisterWithInvite ''spring'' ''dave'' ''h'' (w_db w') = (Inr u, d))"
proof -
  have dec: "decode_invite invite_request = Some \<lparr>ci_Code = '' spring '', ci_ExpiresDays = 0\<rparr>"
    "TrimSpace '' spring '' = ''spring''" by code_simp+
  have cu: "CurrentUser invite_request = Some alice" by (simp add: invite_request_def CurrentUser_def)
  obtain resp w' where run: "AdminCreateInviteHandler demo_server invite_request demo_world = (resp, w')" by fastforce
  then have ok: "rs_status resp = 201 \<and> faults (w_db w') = [] \<and> users (tb (w_db w')) = users (tb demo_db)"
    using dec cu
    by (auto simp: AdminCreateInviteHandler_def on_db_def pg_user_store_def AdminCreateInvite_def insert_invite_def
        Let_def alice_def demo_defs)
  have "db_ok (w_db demo_world)" by simp
  from invite_lifecycle [OF demo_server_simps(1) this cu dec(1) run] ok dec(2)
  have use: "\<forall>n h. n \<notin> ur_username ` set (users (tb demo_db)) \<longrightarrow>
      (\<exists>u d. RegisterWithInvite ''spring'' n h (w_db w') = (Inr u, d))" by auto blast
  have "''dave'' \<notin> ur_username ` set (users (tb demo_db))" by (simp add: demo_defs)
  with use have "\<exists>u d. RegisterWithInvite ''spring'' ''dave'' ''h'' (w_db w') = (Inr u, d)" by blast
  with run ok show ?thesis by auto
qed

end
