(* ===== verification/Write_Pump.thy ===== *)
theory Write_Pump
  imports Hub
begin

text \<open>
  \<open>writePump\<close> of \<open>internal/http/ws.go\<close> as a step relation that interleaves with the goroutines that
  send to its client and close it. A step is one access to what they share: a receive or a send
  on the channel, the swap of \<open>closed\<close>, the close of the channel, the close of the connection, the
  cancellation of the context, a write to the socket.
\<close>

section \<open>Closing in three steps\<close>

definition swap_closed :: "wsClient \<Rightarrow> wsClient" where
  "swap_closed c = c\<lparr>cl_closed := True\<rparr>"

definition close_send :: "wsClient \<Rightarrow> wsClient" where
  "close_send c = c\<lparr>cl_sendClosed := True\<rparr>"

definition close_conn :: "nat \<Rightarrow> string \<Rightarrow> wsClient \<Rightarrow> wsClient" where
  "close_conn code reason c =
     (if cl_hasConn c then c\<lparr>cl_control := cl_control c @ [(code, reason)], cl_connClosed := True\<rparr> else c)"

lemma closeWith_steps:
  "closeWith code reason c = (if cl_closed c then c else close_conn code reason (close_send (swap_closed c)))"
  by (simp add: closeWith_def Let_def close_conn_def close_send_def swap_closed_def)

section \<open>The write pump\<close>

text \<open>
  Where the pump is: in its outer \<open>select\<close>; with a message it took, about to write it; about to write
  the ping after it; in the inner \<open>select\<close> once the context is done, or about to write there; then, for
  the reason it returned, before the deferred \<open>cancel()\<close>, before the swap in the deferred \<open>c.close()\<close>,
  after it swapped first, and at its end.
\<close>

datatype wire = WireText frame | WirePing

datatype pump_end = WriteFailed | ChannelClosed | Drained

datatype pump_mode = Running | Writing frame | Pinging | Flushing | FlushWriting frame
  | Returned pump_end | Closing pump_end | Shutting pump_end | Ended pump_end

text \<open>
  A connection as its write pump sees it: the client with its queue, what was written to the
  wire, where the pump is, whether the connection's context is cancelled, and the Redis server. The
  last three fields are histories for the statements below: all frames the queue accepted so far,
  the frame whose write failed, if any, and the frames accepted by the time the pump returned.
\<close>

record 's pump =
  pu_client :: wsClient
  pu_wire :: "wire list"
  pu_mode :: pump_mode
  pu_cancelled :: bool
  pu_rd :: 's
  pu_accepted :: "frame list"
  pu_lost :: "frame list"
  pu_seen :: "frame list"

definition take_frame :: "frame list \<Rightarrow> pump_mode \<Rightarrow> 's pump \<Rightarrow> 's pump" where
  "take_frame q m p = p\<lparr>pu_client := (pu_client p)\<lparr>cl_send := q\<rparr>, pu_mode := m\<rparr>"

definition write_wire :: "wire \<Rightarrow> pump_mode \<Rightarrow> 's pump \<Rightarrow> 's pump" where
  "write_wire x m p = p\<lparr>pu_wire := pu_wire p @ [x], pu_mode := m\<rparr>"

definition pump_return :: "pump_end \<Rightarrow> frame list \<Rightarrow> 's pump \<Rightarrow> 's pump" where
  "pump_return e lost p = p\<lparr>pu_mode := Returned e, pu_lost := lost, pu_seen := pu_accepted p\<rparr>"

text \<open>
  A write can fail at any time and does once the connection is closed. The first group of rules is
  the pump. In the second, a sender whose load of \<open>closed\<close> lies in the past puts a frame into a
  channel that is not closed yet; a sender that finds the channel full becomes a closer; a closer
  swaps, closes the channel and closes the connection; whoever ends the request cancels the context.
  After \<open>close_first\<close> the pump is itself the closer of the three steps.
\<close>

inductive writePump_step :: "'s redis \<Rightarrow> 's pump \<Rightarrow> 's pump \<Rightarrow> bool" for R where
  receive: "\<lbrakk>pu_mode p = Running; cl_send (pu_client p) = m # q\<rbrakk> \<Longrightarrow>
    writePump_step R p (take_frame q (Writing m) p)"
| receive_closed: "\<lbrakk>pu_mode p = Running; cl_send (pu_client p) = []; cl_sendClosed (pu_client p)\<rbrakk> \<Longrightarrow>
    writePump_step R p (pump_return ChannelClosed [] p)"
| writes: "\<lbrakk>pu_mode p = Writing m; \<not> cl_connClosed (pu_client p)\<rbrakk> \<Longrightarrow>
    writePump_step R p (write_wire (WireText m) Pinging p)"
| write_fails: "pu_mode p = Writing m \<Longrightarrow> writePump_step R p (pump_return WriteFailed [m] p)"
| pings: "\<lbrakk>pu_mode p = Pinging; \<not> cl_connClosed (pu_client p)\<rbrakk> \<Longrightarrow>
    writePump_step R p (write_wire WirePing Running p)"
| ping_fails: "pu_mode p = Pinging \<Longrightarrow> writePump_step R p (pump_return WriteFailed [] p)"
| tick: "\<lbrakk>pu_mode p = Running; \<not> cl_connClosed (pu_client p)\<rbrakk> \<Longrightarrow>
    writePump_step R p (write_wire WirePing Running
      (p\<lparr>pu_rd := snd (presence_Refresh R (cl_userID (pu_client p)) (pu_rd p))\<rparr>))"
| tick_fails: "pu_mode p = Running \<Longrightarrow> writePump_step R p (pump_return WriteFailed [] p)"
| context_done: "\<lbrakk>pu_mode p = Running; pu_cancelled p\<rbrakk> \<Longrightarrow> writePump_step R p (p\<lparr>pu_mode := Flushing\<rparr>)"
| flush: "\<lbrakk>pu_mode p = Flushing; cl_send (pu_client p) = m # q\<rbrakk> \<Longrightarrow>
    writePump_step R p (take_frame q (FlushWriting m) p)"
| flush_writes: "\<lbrakk>pu_mode p = FlushWriting m; \<not> cl_connClosed (pu_client p)\<rbrakk> \<Longrightarrow>
    writePump_step R p (write_wire (WireText m) Flushing p)"
| flush_fails: "pu_mode p = FlushWriting m \<Longrightarrow> writePump_step R p (pump_return WriteFailed [m] p)"
| flush_closed: "\<lbrakk>pu_mode p = Flushing; cl_send (pu_client p) = []; cl_sendClosed (pu_client p)\<rbrakk> \<Longrightarrow>
    writePump_step R p (pump_return ChannelClosed [] p)"
| flush_empty: "\<lbrakk>pu_mode p = Flushing; cl_send (pu_client p) = []; \<not> cl_sendClosed (pu_client p)\<rbrakk> \<Longrightarrow>
    writePump_step R p (pump_return Drained [] p)"
| cancel: "pu_mode p = Returned e \<Longrightarrow> writePump_step R p (p\<lparr>pu_cancelled := True, pu_mode := Closing e\<rparr>)"
| close_again: "\<lbrakk>pu_mode p = Closing e; cl_closed (pu_client p)\<rbrakk> \<Longrightarrow> writePump_step R p (p\<lparr>pu_mode := Ended e\<rparr>)"
| close_first: "\<lbrakk>pu_mode p = Closing e; \<not> cl_closed (pu_client p)\<rbrakk> \<Longrightarrow>
    writePump_step R p (p\<lparr>pu_client := swap_closed (pu_client p), pu_mode := Shutting e\<rparr>)"
| close_done: "\<lbrakk>pu_mode p = Shutting e; cl_sendClosed (pu_client p); cl_hasConn (pu_client p) \<longrightarrow> cl_connClosed (pu_client p)\<rbrakk> \<Longrightarrow>
    writePump_step R p (p\<lparr>pu_mode := Ended e\<rparr>)"
| accepts: "\<lbrakk>\<not> cl_sendClosed (pu_client p); length (cl_send (pu_client p)) < sendQueueSize\<rbrakk> \<Longrightarrow>
    writePump_step R p (p\<lparr>pu_client := (pu_client p)\<lparr>cl_send := cl_send (pu_client p) @ [m]\<rparr>,
      pu_accepted := pu_accepted p @ [m]\<rparr>)"
| swaps: "\<not> cl_closed (pu_client p) \<Longrightarrow> writePump_step R p (p\<lparr>pu_client := swap_closed (pu_client p)\<rparr>)"
| closes_channel: "\<lbrakk>cl_closed (pu_client p); \<not> cl_sendClosed (pu_client p)\<rbrakk> \<Longrightarrow>
    writePump_step R p (p\<lparr>pu_client := close_send (pu_client p)\<rparr>)"
| closes_connection: "\<lbrakk>cl_sendClosed (pu_client p); \<not> cl_connClosed (pu_client p)\<rbrakk> \<Longrightarrow>
    writePump_step R p (p\<lparr>pu_client := close_conn code reason (pu_client p)\<rparr>)"
| request_over: "writePump_step R p (p\<lparr>pu_cancelled := True\<rparr>)"

section \<open>What reaches the wire\<close>

fun texts :: "wire list \<Rightarrow> frame list" where
  "texts [] = []"
| "texts (WireText m # ws) = m # texts ws"
| "texts (WirePing # ws) = texts ws"

lemma texts_append [simp]: "texts (xs @ ys) = texts xs @ texts ys"
  by (induction xs rule: texts.induct) simp_all

fun in_hand :: "pump_mode \<Rightarrow> frame list" where
  "in_hand (Writing m) = [m]"
| "in_hand (FlushWriting m) = [m]"
| "in_hand _ = []"

fun returned :: "pump_mode \<Rightarrow> pump_end option" where
  "returned (Returned e) = Some e"
| "returned (Closing e) = Some e"
| "returned (Shutting e) = Some e"
| "returned (Ended e) = Some e"
| "returned _ = None"

text \<open>
  The frames accepted so far are those on the wire, the one in the pump's hand or lost by a failed
  write, and those in the queue. Of a pump that returned, what was accepted by then is on the wire
  unless a write failed; a closed channel accepts nothing more.
\<close>

definition pump_ok :: "'s pump \<Rightarrow> bool" where
  "pump_ok p \<longleftrightarrow> length (cl_send (pu_client p)) \<le> sendQueueSize \<and>
     (cl_sendClosed (pu_client p) \<longrightarrow> cl_closed (pu_client p)) \<and>
     texts (pu_wire p) @ pu_lost p @ in_hand (pu_mode p) @ cl_send (pu_client p) = pu_accepted p \<and>
     length (pu_lost p) \<le> 1 \<and> (pu_lost p \<noteq> [] \<longrightarrow> returned (pu_mode p) = Some WriteFailed) \<and>
     (returned (pu_mode p) = Some ChannelClosed \<longrightarrow> cl_sendClosed (pu_client p) \<and> cl_send (pu_client p) = []) \<and>
     (returned (pu_mode p) = Some Drained \<longrightarrow> texts (pu_wire p) = pu_seen p) \<and>
     (\<forall>e. pu_mode p = Shutting e \<or> pu_mode p = Ended e \<longrightarrow> cl_closed (pu_client p)) \<and>
     (\<forall>e. pu_mode p = Closing e \<or> pu_mode p = Shutting e \<or> pu_mode p = Ended e \<longrightarrow> pu_cancelled p)"

lemmas pump_ops = take_frame_def write_wire_def pump_return_def swap_closed_def close_send_def close_conn_def

lemma writePump_step_ok: "writePump_step R p p' \<Longrightarrow> pump_ok p \<Longrightarrow> pump_ok p'"
  by (induction rule: writePump_step.induct) (auto simp: pump_ok_def pump_ops)

definition pump_start :: "wsClient \<Rightarrow> 's \<Rightarrow> 's pump" where
  "pump_start c s = \<lparr>pu_client = c, pu_wire = [], pu_mode = Running, pu_cancelled = False, pu_rd = s,
     pu_accepted = cl_send c, pu_lost = [], pu_seen = []\<rparr>"

text \<open>
  C23: frames reach the socket in the order in which they were queued. However receives, writes,
  sends, the steps of closing, timer ticks, failing writes and the end of the request interleave,
  the accepted frames are, in order: those on the wire, at most one that the pump holds or failed to
  write, and at most 64 in the queue; none is written twice and none invented. A pump that returned
  because it found the channel closed and empty has written all of them. One that returned because
  it found the queue empty after the context was done has written all that were accepted by then;
  a frame that a sender puts into the channel before the deferred close stays in the queue. When
  the pump has ended, the client's flag is set and the context cancelled.
\<close>

theorem wire_in_order:
  assumes "client_ok c" "(writePump_step R)\<^sup>*\<^sup>* (pump_start c s) p"
  shows "\<exists>held. texts (pu_wire p) @ held @ cl_send (pu_client p) = pu_accepted p \<and> length held \<le> 1 \<and>
    length (cl_send (pu_client p)) \<le> 64 \<and>
    (held \<noteq> [] \<longrightarrow> held = in_hand (pu_mode p) \<or> returned (pu_mode p) = Some WriteFailed) \<and>
    (returned (pu_mode p) = Some ChannelClosed \<longrightarrow> cl_sendClosed (pu_client p) \<and> texts (pu_wire p) = pu_accepted p) \<and>
    (returned (pu_mode p) = Some Drained \<longrightarrow> held = [] \<and> texts (pu_wire p) = pu_seen p) \<and>
    (\<forall>e. pu_mode p = Ended e \<longrightarrow> cl_closed (pu_client p) \<and> pu_cancelled p)"
proof -
  have "pump_ok p"
    using assms(2)
  proof (induction rule: rtranclp_induct)
    case base
    then show ?case using assms(1) by (simp add: pump_ok_def pump_start_def client_ok_def)
  next
    case (step p p')
    then show ?case using writePump_step_ok by blast
  qed
  moreover have "in_hand m = []" if "returned m \<noteq> None" for m using that by (cases m) simp_all
  moreover have "length (in_hand m) \<le> 1" for m by (cases m) simp_all
  ultimately show ?thesis
    by (intro exI [of _ "pu_lost p @ in_hand (pu_mode p)"])
      (cases "pu_lost p = []"; fastforce simp: pump_ok_def sendQueueSize_def)
qed

text \<open>Two frames are accepted; the first is written and the second still queued.\<close>

theorem wire_in_order_witness:
  "\<exists>p. (writePump_step mem_redis)\<^sup>*\<^sup>* (pump_start (demo_client 1 ''alice'') mem_empty) p \<and>
     texts (pu_wire p) = [DeletedFrame 5] \<and> cl_send (pu_client p) = [DeletedFrame 6]"
proof -
  let ?add = "\<lambda>m (p :: mem_server pump). p\<lparr>pu_client := (pu_client p)\<lparr>cl_send := cl_send (pu_client p) @ [m]\<rparr>,
      pu_accepted := pu_accepted p @ [m]\<rparr>"
  let ?p0 = "pump_start (demo_client 1 ''alice'') mem_empty"
  let ?p1 = "?add (DeletedFrame 5) ?p0"
  let ?p2 = "?add (DeletedFrame 6) ?p1"
  let ?p3 = "take_frame [DeletedFrame 6] (Writing (DeletedFrame 5)) ?p2"
  let ?p4 = "write_wire (WireText (DeletedFrame 5)) Pinging ?p3"
  note start = pump_start_def demo_client_def sendQueueSize_def take_frame_def
  have "writePump_step mem_redis ?p0 ?p1" by (rule accepts) (simp_all add: start)
  moreover have "writePump_step mem_redis ?p1 ?p2" by (rule accepts) (simp_all add: start)
  moreover have "writePump_step mem_redis ?p2 ?p3" by (rule receive) (simp_all add: start)
  moreover have "writePump_step mem_redis ?p3 ?p4" by (rule writes) (simp_all add: start)
  ultimately have steps: "(writePump_step mem_redis)\<^sup>*\<^sup>* ?p0 ?p4"
    by (meson converse_rtranclp_into_rtranclp r_into_rtranclp)
  define p where "p = ?p4"
  have p: "cl_send (pu_client p) = [DeletedFrame 6]" "pu_accepted p = [DeletedFrame 5, DeletedFrame 6]"
    "in_hand (pu_mode p) = []" "returned (pu_mode p) = None" by (simp_all add: p_def start write_wire_def)
  have "client_ok (demo_client 1 ''alice'')" by (simp add: client_ok_def demo_client_def)
  from wire_in_order [OF this steps, folded p_def, unfolded p] obtain held where
    "texts (pu_wire p) @ held @ [DeletedFrame 6] = [DeletedFrame 5, DeletedFrame 6]" "held \<noteq> [] \<longrightarrow> held = [] \<or> None = Some WriteFailed"
    by blast
  then have "texts (pu_wire p) = [DeletedFrame 5]" by simp
  with steps p(1) show ?thesis unfolding p_def [symmetric] by blast
qed

section \<open>A frame that is left behind\<close>

text \<open>
  The guarantee for a pump that drained its queue cannot be stronger: a sender can still put a frame
  into the channel between the pump's last look at it and the deferred close. The frame was
  accepted, no write failed, and it never reaches the wire.
\<close>

lemma frame_left_behind:
  "\<exists>p. (writePump_step R)\<^sup>*\<^sup>* (pump_start (demo_client 1 ''alice'') s) p \<and> pu_mode p = Ended Drained \<and>
     pu_accepted p = [m] \<and> pu_wire p = [] \<and> cl_send (pu_client p) = [m] \<and> cl_connClosed (pu_client p)"
proof -
  define c where "c = demo_client 1 ''alice''"
  define at where "at m q sent closed chan conn = (pump_start c s)\<lparr>pu_mode := m, pu_cancelled := True,
     pu_client := c\<lparr>cl_send := q, cl_closed := closed, cl_sendClosed := chan, cl_connClosed := conn,
       cl_control := (if conn then [(1000, [])] else [])\<rparr>, pu_accepted := sent\<rparr>"
    for m q sent closed chan conn
  note defs = at_def c_def demo_client_def pump_start_def sendQueueSize_def pump_ops
  have "writePump_step R (pump_start c s) (at Running [] [] False False False)"
    using request_over [of R "pump_start c s"] by (simp add: defs)
  moreover have "writePump_step R (at Running [] [] False False False) (at Flushing [] [] False False False)"
    using context_done [of "at Running [] [] False False False" R] by (simp add: defs)
  moreover have "writePump_step R (at Flushing [] [] False False False) (at (Returned Drained) [] [] False False False)"
    using flush_empty [of "at Flushing [] [] False False False" R] by (simp add: defs)
  moreover have "writePump_step R (at (Returned Drained) [] [] False False False) (at (Returned Drained) [m] [m] False False False)"
    using accepts [of "at (Returned Drained) [] [] False False False" R m] by (simp add: defs)
  moreover have "writePump_step R (at (Returned Drained) [m] [m] False False False) (at (Closing Drained) [m] [m] False False False)"
    using cancel [of "at (Returned Drained) [m] [m] False False False" Drained R] by (simp add: defs)
  moreover have "writePump_step R (at (Closing Drained) [m] [m] False False False) (at (Shutting Drained) [m] [m] True False False)"
    using close_first [of "at (Closing Drained) [m] [m] False False False" Drained R] by (simp add: defs)
  moreover have "writePump_step R (at (Shutting Drained) [m] [m] True False False) (at (Shutting Drained) [m] [m] True True False)"
    using closes_channel [of "at (Shutting Drained) [m] [m] True False False" R] by (simp add: defs)
  moreover have "writePump_step R (at (Shutting Drained) [m] [m] True True False) (at (Shutting Drained) [m] [m] True True True)"
    using closes_connection [of "at (Shutting Drained) [m] [m] True True False" R 1000 "[]"] by (simp add: defs)
  moreover have "writePump_step R (at (Shutting Drained) [m] [m] True True True) (at (Ended Drained) [m] [m] True True True)"
    using close_done [of "at (Shutting Drained) [m] [m] True True True" Drained R] by (simp add: defs)
  ultimately have "(writePump_step R)\<^sup>*\<^sup>* (pump_start c s) (at (Ended Drained) [m] [m] True True True)"
    by (meson converse_rtranclp_into_rtranclp r_into_rtranclp)
  then show ?thesis unfolding c_def [symmetric] by (intro exI [of _ "at (Ended Drained) [m] [m] True True True"]) (simp add: defs)
qed

section \<open>A closed connection is silent\<close>

text \<open>A pump that starts on a connection that is closed already writes nothing.\<close>

lemma dead_connection_silent:
  assumes "(writePump_step R)\<^sup>*\<^sup>* (pump_start c s) p" "cl_connClosed c"
  shows "pu_wire p = []"
proof -
  have "pu_wire p = [] \<and> cl_connClosed (pu_client p)"
    using assms(1)
  proof (induction rule: rtranclp_induct)
    case base
    then show ?case using assms(2) by (simp add: pump_start_def)
  next
    case (step p p')
    from step(2,3) show ?case by (cases rule: writePump_step.cases) (simp_all add: pump_ops)
  qed
  then show ?thesis ..
qed

end
