(* ===== verification/WebSocket.thy ===== *)
theory WebSocket
  imports Account_Handlers Observability Write_Pump
begin

text \<open>
  The life of a WebSocket connection and the subscriber of \<open>presence.go\<close>: the origin check, the
  handler from the handshake until its pumps run, and what the read pump does with one turn of its
  loop and on exit; the write pump is in \<open>Write_Pump\<close>. The handshake of gorilla/websocket is a
  parameter: it answers an error, or takes the connection over.
\<close>

section \<open>Handshake\<close>

text \<open>\<open>NewUpgrader\<close>: its \<open>CheckOrigin\<close>.\<close>

definition NewUpgrader :: "string list \<Rightarrow> string \<Rightarrow> request \<Rightarrow> bool" where
  "NewUpgrader allowedOrigins env r =
     (let allow = filter (\<lambda>s. s \<noteq> []) (map TrimSpace allowedOrigins);
          origin = lookup ''Origin'' (rq_header r)
      in if origin = [] then env \<noteq> ''prod'' else origin \<in> set allow)"

type_synonym handshake = "(request \<Rightarrow> bool) \<Rightarrow> request \<Rightarrow> response option"

text \<open>The library upgrades no request whose origin the check refuses.\<close>

definition handshake_law :: "handshake \<Rightarrow> bool" where
  "handshake_law hs \<longleftrightarrow> (\<forall>check r. \<not> check r \<longrightarrow> hs check r \<noteq> None)"

definition new_client :: "AuthUser \<Rightarrow> wsClient" where
  "new_client u =
     \<lparr>cl_userID = au_ID u, cl_username = au_Username u, cl_hasConn = True, cl_send = [],
      cl_sendClosed = False, cl_closed = False, cl_control = [], cl_connClosed = False\<rparr>"

text \<open>
  \<open>WebSocketHandler\<close> up to the start of the pumps; \<open>i\<close> is the address of the client it allocates.
  Errors of presence, contacts and unread messages are logged and otherwise ignored.
\<close>

definition deliver_unread :: "('d, 's, 'l) server \<Rightarrow> int64 \<Rightarrow> int64 \<Rightarrow> ('d, 's, 'l) world \<Rightarrow> ('d, 's, 'l) world" where
  "deliver_unread sv userID sinceID w =
     (if sinceID \<ge> 0 then
        (case on_db (ms_GetUnreadForUser (sv_msgs sv) userID sinceID) w of
           (Inl _, w1) \<Rightarrow> w1
         | (Inr unread, w1) \<Rightarrow> on_hub (fold (SendMessageToUser userID) unread) w1)
      else w)"

definition WebSocketHandler ::
  "('d, 's, 'l) server \<Rightarrow> handshake \<Rightarrow> (request \<Rightarrow> bool) \<Rightarrow> nat \<Rightarrow> ('d, 's, 'l) world handler" where
  "WebSocketHandler sv hs check i r w =
     (let sinceID = fst (ParseInt (lookup ''sinceId'' (rq_query r))) in
      case CurrentUser r of
        None \<Rightarrow> (http_Error ''unauthorized'' 401, w)
      | Some authUser \<Rightarrow>
     (case hs check r of
        Some resp \<Rightarrow> (resp, w)
      | None \<Rightarrow>
      let w1 = count_metric (Inc ActiveWSConnections []) (on_hub (addClient i (new_client authUser)) w);
          w2 = snd (on_rd (presence_Connect (sv_redis sv) (au_ID authUser) (au_Username authUser)) w1)
      in case on_db (us_ListContacts (sv_users sv) (au_ID authUser)) w2 of (listed, w3) \<Rightarrow>
      let contactIDs = (case listed of Inl _ \<Rightarrow> [] | Inr cs \<Rightarrow> map contact_ID cs)
      in case on_rd (presence_GetSnapshot (sv_redis sv) contactIDs) w3 of (snap, w4) \<Rightarrow>
      let snapshot = (case snap of Inl _ \<Rightarrow> [] | Inr evs \<Rightarrow> evs);
          w5 = on_hub (fold (\<lambda>ev. enqueueDropSlow (PresenceFrame ev) i) snapshot) w4
      in (hijacked, deliver_unread sv (au_ID authUser) sinceID w5)))"

section \<open>The read pump\<close>

text \<open>
  What one turn gets: the context is done, the read fails, or a message comes, text or not, as
  the JSON value it parses to.
\<close>

datatype read_input = Cancelled | ReadFailed | ReadMessage bool "jv option"

record TypingIncoming =
  ti_To :: string
  ti_IsTyping :: bool

definition decode_typing :: "jv \<Rightarrow> TypingIncoming option" where
  "decode_typing v =
     (case members v of None \<Rightarrow> None | Some ms \<Rightarrow>
        (case (get_string ''type'' ms, get_string ''to'' ms, get_bool ''isTyping'' ms) of
           (Some t, Some n, Some b) \<Rightarrow> Some \<lparr>ti_To = n, ti_IsTyping = b\<rparr>
         | _ \<Rightarrow> None))"

text \<open>
  \<open>limiter.Allow()\<close> on the limiter \<open>limiterFor\<close> gave the pump. It is the one in the hub's map as
  long as a client of the user is registered, and the pump's own client is until the pump ends.
\<close>

definition user_allow :: "'l limiter_lib \<Rightarrow> time \<Rightarrow> int64 \<Rightarrow> 'l hub \<Rightarrow> bool \<times> 'l hub" where
  "user_allow lib now u h =
     (case limiterFor lib u h of (l, h1) \<Rightarrow>
     (case lim_Allow lib now l of (ok, l') \<Rightarrow>
        (ok, h1\<lparr>limitersByUser := AList.update u l' (limitersByUser h1)\<rparr>)))"

definition read_message ::
  "('d, 's, 'l) server \<Rightarrow> int64 \<Rightarrow> string \<Rightarrow> jv \<Rightarrow> ('d, 's, 'l) world \<Rightarrow> ('d, 's, 'l) world" where
  "read_message sv userID username v w =
     (case (case members v of None \<Rightarrow> None | Some ms \<Rightarrow> get_string ''type'' ms) of
        None \<Rightarrow> w
      | Some ty \<Rightarrow>
      let w = count_metric (Inc WSMessagesReceived [ty]) w in
      if ty \<noteq> ''typing'' then w
      else case decode_typing v of
        None \<Rightarrow> w
      | Some ti \<Rightarrow>
     (case on_db (us_GetUserByUsername (sv_users sv) (ti_To ti)) w of
        (Inl _, w1) \<Rightarrow> w1
      | (Inr toUser, w1) \<Rightarrow>
     (case on_db (us_IsContact (sv_users sv) userID (UserID toUser)) w1 of
        (Inl _, w2) \<Rightarrow> w2
      | (Inr ok, w2) \<Rightarrow>
          if \<not> ok then w2
          else on_hub (SendTypingToUser username (UserID toUser) (Username toUser) (ti_IsTyping ti)) w2)))"

text \<open>One turn; the flag says whether the loop goes on.\<close>

definition read_step ::
  "('d, 's, 'l) server \<Rightarrow> nat \<Rightarrow> int64 \<Rightarrow> string \<Rightarrow> read_input \<Rightarrow> ('d, 's, 'l) world \<Rightarrow> bool \<times> ('d, 's, 'l) world" where
  "read_step sv i userID username input w =
     (case input of
        Cancelled \<Rightarrow> (False, w)
      | _ \<Rightarrow>
     (case user_allow (sv_limits sv) (w_now w) userID (w_hub w) of
        (False, h) \<Rightarrow> (False, count_metric (Inc WSRateLimitRejections [])
            (w\<lparr>w_hub := update_client i (closeWith ClosePolicyViolation ''rate limit'') h\<rparr>))
      | (True, h) \<Rightarrow>
     (case input of
        ReadMessage text v \<Rightarrow>
          (True, if text then (case v of None \<Rightarrow> w\<lparr>w_hub := h\<rparr>
                              | Some v \<Rightarrow> read_message sv userID username v (w\<lparr>w_hub := h\<rparr>))
                 else w\<lparr>w_hub := h\<rparr>)
      | _ \<Rightarrow> (False, w\<lparr>w_hub := h\<rparr>))))"

text \<open>The deferred function, and the loop over a sequence of inputs.\<close>

definition read_exit ::
  "('d, 's, 'l) server \<Rightarrow> nat \<Rightarrow> int64 \<Rightarrow> string \<Rightarrow> ('d, 's, 'l) world \<Rightarrow> ('d, 's, 'l) world" where
  "read_exit sv i userID username w =
     on_hub (update_client i client_close)
       (snd (on_rd (presence_Disconnect (sv_redis sv) userID username)
         (on_hub (removeClient i userID) (count_metric (Dec ActiveWSConnections) w))))"

fun readPump ::
  "('d, 's, 'l) server \<Rightarrow> nat \<Rightarrow> int64 \<Rightarrow> string \<Rightarrow> read_input list \<Rightarrow> ('d, 's, 'l) world \<Rightarrow> ('d, 's, 'l) world" where
  "readPump sv i userID username [] w = w"
| "readPump sv i userID username (x # xs) w =
     (case read_step sv i userID username x w of
        (True, w1) \<Rightarrow> readPump sv i userID username xs w1
      | (False, w1) \<Rightarrow> read_exit sv i userID username w1)"

section \<open>Presence events\<close>

definition decode_presence :: "jv \<Rightarrow> PresenceEvent option" where
  "decode_presence v =
     (case members v of None \<Rightarrow> None | Some ms \<Rightarrow>
        (case (get_string ''type'' ms, get_int ''userId'' ms, get_string ''username'' ms, get_string ''status'' ms,
               get_bool ''isSnapshot'' ms) of
           (Some t, Some i, Some n, Some s, Some b) \<Rightarrow>
             Some \<lparr>pe_UserID = i, pe_Username = n, pe_Status = s, pe_IsSnapshot = b\<rparr>
         | _ \<Rightarrow> None))"

definition presence_subscriber_step ::
  "('d, 's, 'l) server \<Rightarrow> jv \<Rightarrow> ('d, 's, 'l) world \<Rightarrow> ('d, 's, 'l) world" where
  "presence_subscriber_step sv v w =
     (case decode_presence v of
        None \<Rightarrow> w
      | Some ev \<Rightarrow>
     (case on_db (us_GetContactFollowerIDs (sv_users sv) (pe_UserID ev)) w of
        (Inl _, w1) \<Rightarrow> w1
      | (Inr followerIDs, w1) \<Rightarrow> on_hub (fold (\<lambda>f. sendToUser f (PresenceFrame ev)) followerIDs) w1))"

definition StartPresenceSubscriber ::
  "('d, 's, 'l) server \<Rightarrow> jv list \<Rightarrow> ('d, 's, 'l) world \<Rightarrow> ('d, 's, 'l) world" where
  "StartPresenceSubscriber sv = fold (presence_subscriber_step sv)"

section \<open>What a client can cause\<close>

lemma user_allow_clients:
  assumes "user_allow lib now u h = (ok, h')"
  shows "clients h' = clients h" "clientsByUser h' = clientsByUser h" "panicked h' = panicked h"
    "user_clients v h' = user_clients v h" "hub_ok h' = hub_ok h"
proof -
  show *: "clients h' = clients h" "clientsByUser h' = clientsByUser h" "panicked h' = panicked h"
    using assms by (auto simp: user_allow_def limiterFor_def Let_def split: option.splits prod.splits)
  then show "user_clients v h' = user_clients v h" "hub_ok h' = hub_ok h"
    by (simp_all add: user_clients_def hub_ok_def)
qed

text \<open>The typing message an input carries, if it is one.\<close>

definition typing_of :: "read_input \<Rightarrow> TypingIncoming option" where
  "typing_of input =
     (case input of
        ReadMessage True (Some v) \<Rightarrow>
          (case members v of None \<Rightarrow> None
           | Some ms \<Rightarrow> if get_string ''type'' ms = Some ''typing'' then decode_typing v else None)
      | _ \<Rightarrow> None)"

text \<open>What one turn counts, once the limiter has decided.\<close>

definition message_metrics :: "jv \<Rightarrow> metric_op list" where
  "message_metrics v =
     (case members v of None \<Rightarrow> []
      | Some ms \<Rightarrow> (case get_string ''type'' ms of None \<Rightarrow> [] | Some ty \<Rightarrow> [Inc WSMessagesReceived [ty]]))"

definition turn_metrics :: "bool \<Rightarrow> read_input \<Rightarrow> metric_op list" where
  "turn_metrics ok input =
     (if \<not> ok then [Inc WSRateLimitRejections []]
      else case input of ReadMessage True (Some v) \<Rightarrow> message_metrics v | _ \<Rightarrow> [])"

lemma read_message_typing:
  assumes "sv_users sv = pg_user_store ilike collate" "db_ok (w_db w0)" "faults (w_db w0) = []"
    "w = w0\<lparr>w_metrics := w_metrics w0 @ message_metrics v\<rparr>"
  shows "read_message sv u name v w0 =
    (case typing_of (ReadMessage True (Some v)) of
       None \<Rightarrow> w
     | Some ti \<Rightarrow>
         (case us_GetUserByUsername (sv_users sv) (ti_To ti) (w_db w) of
            (Inr t, _) \<Rightarrow>
              if (u, UserID t) \<in> graph (tb (w_db w))
              then on_hub (SendTypingToUser name (UserID t) (Username t) (ti_IsTyping ti)) w else w
          | _ \<Rightarrow> w))"
proof -
  have f: "faults (w_db w) = []" using assms(3,4) by simp
  have read: "on_db (us_GetUserByUsername (sv_users sv) n) w = (fst (us_GetUserByUsername (sv_users sv) n (w_db w)), w)" for n
    using f by (simp add: on_db_def assms(1) pg_user_store_def GetUserByUsername_def split: option.split)
  show ?thesis
  proof (cases "case members v of None \<Rightarrow> None | Some ms \<Rightarrow> get_string ''type'' ms")
    case None
    then have "w = w0" using assms(4) by (simp add: message_metrics_def split: option.splits)
    with None show ?thesis by (simp add: read_message_def typing_of_def split: option.splits)
  next
    case (Some ty)
    then obtain ms where ms: "members v = Some ms" "get_string ''type'' ms = Some ty" by (simp split: option.splits)
    have w: "w0\<lparr>w_metrics := w_metrics w0 @ [Inc WSMessagesReceived [ty]]\<rparr> = w" using assms(4) by (simp add: message_metrics_def ms)
    show ?thesis
      by (simp add: read_message_def typing_of_def ms count_metric_def w Let_def read pg_is_contact [OF assms(1) f]
          split: option.split sum.split prod.split)
  qed
qed

text \<open>
  C24: all a connected client can cause is typing frames to its own contacts. On a working database,
  one turn of the read pump changes nothing but the hub and the counters, which take one call for a
  refusal or for a message, by its type. If the user's limiter refuses, the
  client is closed with a policy violation and the pump ends; otherwise, unless the input is a
  typing message whose addressee is a live account that the user has added as a contact, no
  client gets anything, and if it is, exactly that account's open connections are offered one
  typing frame with the user's name. The pump goes on exactly after a message that was admitted.
\<close>

theorem ws_input_confined:
  assumes "sv_users sv = pg_user_store ilike collate" "db_ok (w_db w)" "faults (w_db w) = []"
    "hub_ok (w_hub w)" "read_step sv i u name input w = (go, w')" "input \<noteq> Cancelled"
    "user_allow (sv_limits sv) (w_now w) u (w_hub w) = (ok, h)"
    "target = (case typing_of input of None \<Rightarrow> {} | Some ti \<Rightarrow>
       {t. live_account (w_db w) (UserID t) = Some t \<and> Username t = ti_To ti \<and> (u, UserID t) \<in> graph (tb (w_db w))})"
  shows "w' = w\<lparr>w_hub := w_hub w', w_metrics := w_metrics w @ turn_metrics ok input\<rparr> \<and> go = (ok \<and> input \<noteq> ReadFailed) \<and>
    (\<not> ok \<longrightarrow> w_hub w' = update_client i (closeWith ClosePolicyViolation ''rate limit'') h) \<and>
    (ok \<and> target = {} \<longrightarrow> w_hub w' = h \<and> clients h = clients (w_hub w)) \<and>
    (\<forall>t \<in> target. ok \<longrightarrow> w_hub w' = h\<lparr>clients := (\<lambda>j. case clients (w_hub w) j of None \<Rightarrow> None
       | Some c \<Rightarrow> Some (if j \<in> set (user_clients (UserID t) (w_hub w))
           then offered (TypingFrame name (Username t) (ti_IsTyping (the (typing_of input)))) c else c))\<rparr>)"
proof (cases ok)
  case False
  have "(go, w') = (False, count_metric (Inc WSRateLimitRejections [])
      (w\<lparr>w_hub := update_client i (closeWith ClosePolicyViolation ''rate limit'') h\<rparr>))"
    using assms(5-7) False by (simp add: read_step_def split: read_input.splits)
  with False show ?thesis by (simp add: turn_metrics_def count_metric_def)
next
  case True
  let ?v = "w\<lparr>w_hub := h\<rparr>"
  let ?w = "w\<lparr>w_hub := h, w_metrics := w_metrics w @ turn_metrics True input\<rparr>"
  note cl = user_allow_clients [OF assms(7)]
  have run: "go = (input \<noteq> ReadFailed) \<and> w' = (case input of ReadMessage True (Some v) \<Rightarrow> read_message sv u name v ?v | _ \<Rightarrow> ?v)"
    using assms(5-7) True by (auto simp: read_step_def split: read_input.splits option.splits bool.splits)
  then have go: "go = (input \<noteq> ReadFailed)" by blast
  show ?thesis
  proof (cases "typing_of input")
    case None
    have "w' = ?w"
    proof (cases "\<exists>v. input = ReadMessage True (Some v)")
      case yes: True
      then obtain v where v: "input = ReadMessage True (Some v)" by blast
      have "read_message sv u name v ?v = ?w"
        using read_message_typing [OF assms(1), of ?v ?w v u name] assms(2,3) None v by (simp add: turn_metrics_def)
      with v run show ?thesis by simp
    qed (use run in \<open>auto simp: turn_metrics_def split: read_input.splits option.splits bool.splits\<close>)
    with True None go cl(1) assms(8) show ?thesis by simp
  next
    case (Some ti)
    then obtain v where v: "input = ReadMessage True (Some v)"
      by (auto simp: typing_of_def split: read_input.splits option.splits bool.splits)
    obtain res d where g: "us_GetUserByUsername (sv_users sv) (ti_To ti) (w_db w) = (res, d)" by fastforce
    have w': "w' = (case res of Inr t \<Rightarrow>
              if (u, UserID t) \<in> graph (tb (w_db w))
              then on_hub (SendTypingToUser name (UserID t) (Username t) (ti_IsTyping ti)) ?w else ?w
          | _ \<Rightarrow> ?w)"
      using run read_message_typing [OF assms(1), of ?v ?w v u name] assms(2,3) Some v g
      by (simp add: turn_metrics_def split: sum.split)
    note look = pg.by_name [OF assms(2) g [unfolded assms(1)]]
    show ?thesis
    proof (cases res)
      case (Inl e)
      have "\<nexists>s. e = DBError s"
        using g Inl assms(3) by (auto simp: assms(1) pg_user_store_def GetUserByUsername_def split: option.splits)
      with look Inl have "\<forall>i u. live_account (w_db w) i = Some u \<longrightarrow> Username u \<noteq> ti_To ti" by simp
      then have "target = {}" using Some assms(8) by auto
      with True Inl go w' cl(1) show ?thesis by simp
    next
      case (Inr t)
      with look have t: "live_account (w_db w) (UserID t) = Some t" "Username t = ti_To ti" by simp_all
      have only: "x = t" if "x \<in> target" for x
        using that Some assms(8) pg.same_account [OF assms(2) t(1), of x] t(2) by simp
      have mem: "t \<in> target \<longleftrightarrow> (u, UserID t) \<in> graph (tb (w_db w))" using t Some assms(8) by simp
      have send: "sendToUser (UserID t) f h = h\<lparr>clients := (\<lambda>j. case clients (w_hub w) j of None \<Rightarrow> None
         | Some c \<Rightarrow> Some (if j \<in> set (user_clients (UserID t) (w_hub w)) then offered f c else c))\<rparr>" for f
        using sendToUser_eq [where h = h and msg = f and u = "UserID t"] cl(5) assms(4) unfolding cl(1,4) by simp
      show ?thesis
      proof (cases "(u, UserID t) \<in> graph (tb (w_db w))")
        case yes: True
        have w2: "w' = w\<lparr>w_hub := sendToUser (UserID t) (TypingFrame name (Username t) (ti_IsTyping ti)) h,
            w_metrics := w_metrics w @ turn_metrics True input\<rparr>"
          using w' Inr yes by (simp add: on_hub_def SendTypingToUser_def)
        show ?thesis
        proof (intro conjI ballI impI)
          show "w' = w\<lparr>w_hub := w_hub w', w_metrics := w_metrics w @ turn_metrics ok input\<rparr>" using w2 True by simp
          show "go = (ok \<and> input \<noteq> ReadFailed)" using go True by simp
          fix x
          assume "x \<in> target"
          then have x: "x = t" by (rule only)
          show "w_hub w' = h\<lparr>clients := (\<lambda>j. case clients (w_hub w) j of None \<Rightarrow> None
             | Some c \<Rightarrow> Some (if j \<in> set (user_clients (UserID x) (w_hub w))
                 then offered (TypingFrame name (Username x) (ti_IsTyping (the (typing_of input)))) c else c))\<rparr>"
            unfolding x Some option.sel w2 send by simp
        qed (use True mem yes in auto)
      next
        case no: False
        with mem only have "target = {}" by blast
        with True w' Inr no go cl(1) show ?thesis by simp
      qed
    qed
  qed
qed

text \<open>
  The label of a counted message is whatever the client wrote, so a client can make the registry
  keep a series for every string it thinks of.
\<close>

lemma label_from_client:
  "turn_metrics True (ReadMessage True (Some (JObj [(''type'', JStr ty)]))) = [Inc WSMessagesReceived [ty]]"
proof -
  have "member_is ''type'' ''type''" by code_simp
  then show ?thesis by (simp add: turn_metrics_def message_metrics_def get_string_def)
qed

definition typing_input :: read_input where
  "typing_input = ReadMessage True (Some (JObj [(''type'', JStr ''typing''), (''to'', JStr ''bob''), (''isTyping'', JBool True)]))"

theorem ws_input_confined_witness:
  "\<exists>c. clients (w_hub (snd (read_step demo_server 20 1 ''alice'' typing_input erase_world))) 30 = Some c \<and>
     cl_send c = [TypingFrame ''alice'' ''bob'' True]"
proof -
  let ?bob = "\<lparr>UserID = 2, Username = ''bob'', PasswordHash = ''hash-bob'', PublicKey = ''key-bob''\<rparr>"
  obtain go w' where run: "read_step demo_server 20 1 ''alice'' typing_input erase_world = (go, w')" by fastforce
  obtain h where h: "user_allow (sv_limits demo_server) (w_now erase_world) 1 (w_hub erase_world) = (True, h)"
    by (simp add: user_allow_def limiterFor_def erase_world_def demo_hub_def addClient_def NewHub_def counting_lib_def Let_def)
  have ty: "typing_of typing_input = Some \<lparr>ti_To = ''bob'', ti_IsTyping = True\<rparr>" by code_simp
  have pre: "db_ok (w_db erase_world)" "faults (w_db erase_world) = []" "hub_ok (w_hub erase_world)" "typing_input \<noteq> Cancelled"
    by (simp_all add: erase_world_def hub_ok_demo typing_input_def)
  have bob: "30 \<in> set (user_clients 2 demo_hub)" "clients demo_hub 30 = Some (demo_client 2 ''bob'')"
    by (simp_all add: demo_hub_def addClient_def NewHub_def user_clients_def Let_def demo_client_def)
  let ?T = "case typing_of typing_input of None \<Rightarrow> {} | Some ti \<Rightarrow>
       {t. live_account (w_db erase_world) (UserID t) = Some t \<and> Username t = ti_To ti \<and> (1, UserID t) \<in> graph (tb (w_db erase_world))}"
  have "?bob \<in> ?T"
    by (simp add: ty erase_world_def live_account_def select_one_def demo_defs live_def scan_user_def graph_def)
  with ws_input_confined [OF demo_server_simps(1) pre(1-3) run pre(4) h refl]
  have "w_hub w' = h\<lparr>clients := (\<lambda>j. case clients (w_hub erase_world) j of None \<Rightarrow> None
       | Some c \<Rightarrow> Some (if j \<in> set (user_clients (UserID ?bob) (w_hub erase_world))
           then offered (TypingFrame ''alice'' (Username ?bob) (ti_IsTyping (the (typing_of typing_input)))) c else c))\<rparr>"
    by blast
  then have "clients (w_hub w') 30 = Some (offered (TypingFrame ''alice'' ''bob'' True) (demo_client 2 ''bob''))"
    using bob by (simp add: ty erase_world_def)
  with run show ?thesis by (simp add: offered_def demo_client_def sendQueueSize_def)
qed

section \<open>What a new connection gets\<close>

lemma fold_enqueue_one:
  assumes "hub_ok h"
  shows "hub_ok (fold (\<lambda>f. enqueueDropSlow f i) fs h) \<and>
    fold (\<lambda>f. enqueueDropSlow f i) fs h = update_client i (fold offered fs) h"
  using assms
proof (induction fs arbitrary: h)
  case Nil
  then show ?case by (simp add: update_client_def option.map_id0 [unfolded id_def])
next
  case (Cons f fs)
  have "hub_ok (update_client i (offered f) h)"
    using Cons.prems by (rule hub_ok_update) (simp_all add: offered_ok)
  note IH = Cons.IH [OF this]
  have step: "fold (\<lambda>f. enqueueDropSlow f i) (f # fs) h = fold (\<lambda>f. enqueueDropSlow f i) fs (update_client i (offered f) h)"
    by (simp add: enqueue_offered [OF Cons.prems])
  have "update_client i (fold offered fs) (update_client i (offered f) h) = update_client i (fold offered (f # fs)) h"
    by (simp add: update_client_def option.map_comp comp_def)
  with IH show ?case unfolding step by (metis (no_types))
qed

lemma fold_send_one:
  assumes "hub_ok h"
  shows "hub_ok (fold (sendToUser u) fs h) \<and>
    fold (sendToUser u) fs h = h\<lparr>clients := (\<lambda>j. case clients h j of None \<Rightarrow> None
       | Some c \<Rightarrow> Some (if j \<in> set (user_clients u h) then fold offered fs c else c))\<rparr>"
  using assms
proof (induction fs arbitrary: h)
  case Nil
  then show ?case by (intro conjI hub.equality) (simp_all add: fun_eq_iff split: option.split)
next
  case (Cons f fs)
  let ?h = "sendToUser u f h"
  note eq = sendToUser_eq [OF Cons.prems, where msg = f and u = u]
  have uc: "user_clients u ?h = user_clients u h" unfolding eq by (simp add: user_clients_def)
  have upd: "?h\<lparr>clients := F\<rparr> = h\<lparr>clients := F\<rparr>" for F unfolding eq by simp
  note IH = Cons.IH [OF sendToUser_ok [OF Cons.prems, where u = u and msg = f], unfolded uc upd]
  have F: "(\<lambda>j. case clients ?h j of None \<Rightarrow> None
       | Some c \<Rightarrow> Some (if j \<in> set (user_clients u h) then fold offered fs c else c)) =
     (\<lambda>j. case clients h j of None \<Rightarrow> None
       | Some c \<Rightarrow> Some (if j \<in> set (user_clients u h) then fold offered (f # fs) c else c))"
    unfolding eq by (auto simp: fun_eq_iff split: option.split)
  show ?case using IH [unfolded F] unfolding fold_simps by blast
qed

lemma offered_userID: "cl_userID (fold offered fs c) = cl_userID c"
  by (induction fs arbitrary: c) (simp_all add: offered_ok)

lemma snapshot_of_contacts:
  assumes "presence_GetSnapshot R ids s = (Inr evs, s')" "ev \<in> set evs"
  shows "pe_UserID ev \<in> set ids \<and> pe_Status ev = ''online'' \<and> pe_IsSnapshot ev"
proof -
  from assms obtain al where "evs = List.map_filter (snapshot_event ids) al"
    by (auto simp: presence_GetSnapshot_def List.map_filter_def split: if_split_asm sum.splits prod.splits)
  with assms(2) obtain x where "snapshot_event ids x = Some ev"
    by (auto simp: List.map_filter_def)
  then show ?thesis by (auto simp: snapshot_event_def split: sum.splits if_split_asm)
qed

lemma pg_contact_ids:
  assumes "sv_users sv = pg_user_store ilike collate" "db_ok (w_db w)" "faults (w_db w) = []"
  shows "\<exists>cs. on_db (us_ListContacts (sv_users sv) u) w = (Inr cs, w) \<and>
    set (map contact_ID cs) \<subseteq> {v. (u, v) \<in> graph (tb (w_db w))}"
proof -
  obtain cs where run: "ListContacts collate u (w_db w) = (Inr cs, w_db w)"
    using assms(3) by (simp add: ListContacts_def query_def)
  then have "fst (ListContacts collate u (w_db w)) = Inr cs" by simp
  from ListContacts_spec(3) [OF db_okD(1) [OF assms(2)] this] run show ?thesis
    by (auto simp: on_db_def assms(1) pg_user_store_def)
qed

lemma pg_unread:
  assumes "sv_msgs sv = pg_message_store" "db_ok (w_db w)" "faults (w_db w) = []"
  shows "on_db (ms_GetUnreadForUser (sv_msgs sv) u n) w =
    (Inr (filter (\<lambda>m. RecipientID m = u \<and> n < ID m \<and> DeletedAt m = None) (mailbox (w_db w))), w)"
proof -
  obtain xs where run: "ms_GetUnreadForUser pg_message_store u n (w_db w) = (Inr xs, w_db w)"
    using assms(3) by (simp add: pg_message_store_def GetUnreadForUser_def query_def)
  from pg_box.unread [OF assms(2) run] run show ?thesis by (simp add: on_db_def assms(1))
qed

lemma ws_connected:
  assumes "sv_users sv = pg_user_store ilike collate" "sv_msgs sv = pg_message_store"
    "db_ok (w_db w)" "faults (w_db w) = []" "hub_ok (w_hub w)" "clients (w_hub w) i = None"
    "CurrentUser r = Some u" "hs check r = None"
    "fst (ParseInt (lookup ''sinceId'' (rq_query r))) = n"
    "missed = map MessageFrame
       (filter (\<lambda>m. RecipientID m = au_ID u \<and> 0 \<le> n \<and> n < ID m \<and> DeletedAt m = None) (mailbox (w_db w)))"
  shows "\<exists>snap w'. WebSocketHandler sv hs check i r w = (hijacked, w') \<and> w_db w' = w_db w \<and> hub_ok (w_hub w') \<and>
    i \<in> set (user_clients (au_ID u) (w_hub w')) \<and> w_metrics w' = w_metrics w @ [Inc ActiveWSConnections []] \<and>
    (\<forall>ev \<in> set snap. (au_ID u, pe_UserID ev) \<in> graph (tb (w_db w)) \<and> pe_Status ev = ''online'' \<and> pe_IsSnapshot ev) \<and>
    clients (w_hub w') i = Some (fold offered (map PresenceFrame snap @ missed) (new_client u)) \<and>
    (\<forall>j c. j \<noteq> i \<longrightarrow> clients (w_hub w) j = Some c \<longrightarrow> clients (w_hub w') j =
       Some (if j \<in> set (user_clients (au_ID u) (w_hub w)) then fold offered missed c else c))"
proof -
  let ?h1 = "addClient i (new_client u) (w_hub w)"
  obtain c s1 where conn: "presence_Connect (sv_redis sv) (au_ID u) (au_Username u) (w_rd w) = (c, s1)" by fastforce
  let ?ms = "w_metrics w @ [Inc ActiveWSConnections []]"
  let ?w2 = "w\<lparr>w_hub := ?h1, w_metrics := ?ms, w_rd := s1\<rparr>"
  have w2: "snd (on_rd (presence_Connect (sv_redis sv) (au_ID u) (au_Username u))
      (count_metric (Inc ActiveWSConnections []) (on_hub (addClient i (new_client u)) w))) = ?w2"
    by (simp add: on_rd_def on_hub_def conn count_metric_def)
  from pg_contact_ids [OF assms(1), of ?w2 "au_ID u"] obtain cs
    where cs: "on_db (us_ListContacts (sv_users sv) (au_ID u)) ?w2 = (Inr cs, ?w2)"
      "set (map contact_ID cs) \<subseteq> {v. (au_ID u, v) \<in> graph (tb (w_db w))}"
    using assms(3,4) by auto
  obtain res s2 where snap: "presence_GetSnapshot (sv_redis sv) (map contact_ID cs) s1 = (res, s2)" by fastforce
  define evs where "evs = (case res of Inl _ \<Rightarrow> [] | Inr evs \<Rightarrow> evs)"
  have ev: "(au_ID u, pe_UserID ev) \<in> graph (tb (w_db w)) \<and> pe_Status ev = ''online'' \<and> pe_IsSnapshot ev"
    if "ev \<in> set evs" for ev
    using that snapshot_of_contacts [of "sv_redis sv" "map contact_ID cs" s1] snap cs(2)
    by (cases res) (auto simp: evs_def)
  let ?w4 = "w\<lparr>w_hub := ?h1, w_metrics := ?ms, w_rd := s2\<rparr>"
  define h2 where "h2 = fold (\<lambda>f. enqueueDropSlow f i) (map PresenceFrame evs) ?h1"
  have h1: "hub_ok ?h1"
    by (rule addClient_ok [OF assms(5,6)]) (simp add: client_ok_def new_client_def)
  from fold_enqueue_one [OF h1] have h2: "hub_ok h2" "h2 = update_client i (fold offered (map PresenceFrame evs)) ?h1"
    unfolding h2_def by blast+
  define h3 where "h3 = fold (sendToUser (au_ID u)) missed h2"
  from fold_send_one [OF h2(1), of "au_ID u" missed, folded h3_def]
  have ok3: "hub_ok h3" and h3: "h3 = h2\<lparr>clients := (\<lambda>j. case clients h2 j of None \<Rightarrow> None
       | Some c \<Rightarrow> Some (if j \<in> set (user_clients (au_ID u) h2) then fold offered missed c else c))\<rparr>" by blast+
  have uc: "set (user_clients (au_ID u) h2) = insert i (set (user_clients (au_ID u) (w_hub w)))"
    by (simp add: h2(2) user_clients_def addClient_def map_of_update new_client_def Let_def)
  have sn: "on_rd (presence_GetSnapshot (sv_redis sv) (map contact_ID cs)) ?w2 = (res, ?w4)"
    by (simp add: on_rd_def snap)
  have hub: "on_hub (fold (\<lambda>ev. enqueueDropSlow (PresenceFrame ev) i) evs) ?w4 = ?w4\<lparr>w_hub := h2\<rparr>"
    by (simp add: on_hub_def h2_def fold_map comp_def)
  have un: "deliver_unread sv (au_ID u) n (?w4\<lparr>w_hub := h2\<rparr>) = ?w4\<lparr>w_hub := h3\<rparr>"
    using pg_unread [OF assms(2), of "?w4\<lparr>w_hub := h2\<rparr>" "au_ID u" n] assms(3,4)
    by (cases "0 \<le> n") (simp_all add: deliver_unread_def on_hub_def h3_def assms(10) fold_map comp_def SendMessageToUser_def [abs_def])
  have out: "WebSocketHandler sv hs check i r w = (hijacked, ?w4\<lparr>w_hub := h3\<rparr>)"
    by (simp only: WebSocketHandler_def Let_def assms(7-9) option.case w2 cs(1) sn prod.case sum.case
        evs_def [symmetric] hub un)
  show ?thesis
  proof (intro exI [of _ evs] exI [of _ "?w4\<lparr>w_hub := h3\<rparr>"] conjI allI impI ballI)
    show "clients (w_hub (?w4\<lparr>w_hub := h3\<rparr>)) i = Some (fold offered (map PresenceFrame evs @ missed) (new_client u))"
      using h3 uc by (simp add: h2(2) addClient_def Let_def)
    show "i \<in> set (user_clients (au_ID u) (w_hub (?w4\<lparr>w_hub := h3\<rparr>)))"
      using uc unfolding h3 by (simp add: user_clients_def)
    fix j c
    assume j: "j \<noteq> i" "clients (w_hub w) j = Some c"
    show "clients (w_hub (?w4\<lparr>w_hub := h3\<rparr>)) j =
       Some (if j \<in> set (user_clients (au_ID u) (w_hub w)) then fold offered missed c else c)"
      using h3 uc j by (simp add: h2(2) addClient_def Let_def)
  qed (use out ev ok3 in simp_all)
qed

text \<open>
  A new client takes the first 64 frames. One more, before its write pump runs, closes it as a slow
  consumer, and its connection with it.
\<close>

lemma offered_new:
  "fold offered fs (new_client u) =
     (if length fs \<le> sendQueueSize then (new_client u)\<lparr>cl_send := fs\<rparr>
      else closeWith ClosePolicyViolation ''slow consumer'' ((new_client u)\<lparr>cl_send := take sendQueueSize fs\<rparr>))"
proof (induction fs rule: rev_induct)
  case Nil
  then show ?case by (simp add: new_client_def)
next
  case (snoc f fs)
  consider "length fs < sendQueueSize" | "length fs = sendQueueSize" | "length fs > sendQueueSize" by linarith
  then show ?case
    using snoc.IH by cases (simp_all add: offered_def new_client_def closeWith_def Let_def)
qed

text \<open>
  C22: what a new connection gets. On a working database an accepted handshake answers by taking
  the connection over. The frames for the new client are one online event for contacts of the user
  only, as Redis reports them, and then, in order, every message for the user with an id above
  \<open>sinceId\<close> that is not deleted (none if \<open>sinceId\<close> is negative; text that is no number counts as
  zero). If they are at most 64, they are exactly its queue and it is open; if
  they are more, the client keeps the first 64, is closed as a slow consumer before its write pump
  starts, and the pump never writes any of them, so that nothing at all is delivered. The user's
  other connections are offered the same messages, no other user's connection gets anything, the
  database is as before, and the gauge of active connections goes up by one.
\<close>

theorem ws_connect_delivers:
  assumes "sv_users sv = pg_user_store ilike collate" "sv_msgs sv = pg_message_store"
    "db_ok (w_db w)" "faults (w_db w) = []" "hub_ok (w_hub w)" "clients (w_hub w) i = None"
    "CurrentUser r = Some u" "hs check r = None"
    "fst (ParseInt (lookup ''sinceId'' (rq_query r))) = n"
    "missed = map MessageFrame
       (filter (\<lambda>m. RecipientID m = au_ID u \<and> 0 \<le> n \<and> n < ID m \<and> DeletedAt m = None) (mailbox (w_db w)))"
  shows "\<exists>snap w' c. WebSocketHandler sv hs check i r w = (hijacked, w') \<and> w_db w' = w_db w \<and> hub_ok (w_hub w') \<and>
    w_metrics w' = w_metrics w @ [Inc ActiveWSConnections []] \<and>
    (\<forall>ev \<in> set snap. (au_ID u, pe_UserID ev) \<in> graph (tb (w_db w)) \<and> pe_Status ev = ''online'' \<and> pe_IsSnapshot ev) \<and>
    clients (w_hub w') i = Some c \<and>
    (if length (map PresenceFrame snap @ missed) \<le> 64
     then c = (new_client u)\<lparr>cl_send := map PresenceFrame snap @ missed\<rparr>
     else cl_send c = take 64 (map PresenceFrame snap @ missed) \<and> cl_closed c \<and> cl_connClosed c \<and>
       cl_control c = [(1008, ''slow consumer'')] \<and>
       (\<forall>s p. (writePump_step (sv_redis sv))\<^sup>*\<^sup>* (pump_start c s) p \<longrightarrow> pu_wire p = [])) \<and>
    (\<forall>j c. j \<noteq> i \<longrightarrow> clients (w_hub w) j = Some c \<longrightarrow> clients (w_hub w') j =
       Some (if j \<in> set (user_clients (au_ID u) (w_hub w)) then fold offered missed c else c))"
proof -
  from ws_connected [where hs = hs and check = check and r = r, OF assms] obtain snap w' where
    w': "WebSocketHandler sv hs check i r w = (hijacked, w')" "w_db w' = w_db w" "hub_ok (w_hub w')"
      "w_metrics w' = w_metrics w @ [Inc ActiveWSConnections []]"
      "\<forall>ev \<in> set snap. (au_ID u, pe_UserID ev) \<in> graph (tb (w_db w)) \<and> pe_Status ev = ''online'' \<and> pe_IsSnapshot ev"
      "\<forall>j c. j \<noteq> i \<longrightarrow> clients (w_hub w) j = Some c \<longrightarrow> clients (w_hub w') j =
         Some (if j \<in> set (user_clients (au_ID u) (w_hub w)) then fold offered missed c else c)"
    and c: "clients (w_hub w') i = Some (fold offered (map PresenceFrame snap @ missed) (new_client u))" by blast
  let ?fs = "map PresenceFrame snap @ missed" and ?c = "fold offered (map PresenceFrame snap @ missed) (new_client u)"
  have "if length ?fs \<le> 64 then ?c = (new_client u)\<lparr>cl_send := ?fs\<rparr>
     else cl_send ?c = take 64 ?fs \<and> cl_closed ?c \<and> cl_connClosed ?c \<and> cl_control ?c = [(1008, ''slow consumer'')] \<and>
       (\<forall>s p. (writePump_step (sv_redis sv))\<^sup>*\<^sup>* (pump_start ?c s) p \<longrightarrow> pu_wire p = [])"
  proof (cases "length ?fs \<le> 64")
    case True
    then show ?thesis unfolding offered_new by (simp add: sendQueueSize_def)
  next
    case False
    let ?d = "closeWith ClosePolicyViolation ''slow consumer'' ((new_client u)\<lparr>cl_send := take sendQueueSize ?fs\<rparr>)"
    have d: "?c = ?d" using False unfolding offered_new by (simp add: sendQueueSize_def)
    have closed: "cl_send ?d = take 64 ?fs" "cl_closed ?d" "cl_connClosed ?d" "cl_control ?d = [(1008, ''slow consumer'')]"
      by (simp_all add: closeWith_def Let_def new_client_def sendQueueSize_def ClosePolicyViolation_def)
    have "\<forall>s p. (writePump_step (sv_redis sv))\<^sup>*\<^sup>* (pump_start ?d s) p \<longrightarrow> pu_wire p = []"
      by (intro allI impI) (rule dead_connection_silent [OF _ closed(3)])
    with False closed show ?thesis unfolding d by (simp only: if_False simp_thms)
  qed
  with w' c show ?thesis by blast
qed

lemma member_is_presence_names [simp]:
  "member_is ''type'' ''type''" "\<not> member_is ''type'' ''userId''" "\<not> member_is ''type'' ''username''"
  "\<not> member_is ''type'' ''status''" "\<not> member_is ''type'' ''isSnapshot''" "\<not> member_is ''userId'' ''type''"
  "member_is ''userId'' ''userId''" "\<not> member_is ''userId'' ''username''" "\<not> member_is ''userId'' ''status''"
  "\<not> member_is ''userId'' ''isSnapshot''" "\<not> member_is ''username'' ''type''" "\<not> member_is ''username'' ''userId''"
  "member_is ''username'' ''username''" "\<not> member_is ''username'' ''status''" "\<not> member_is ''username'' ''isSnapshot''"
  "\<not> member_is ''status'' ''type''" "\<not> member_is ''status'' ''userId''" "\<not> member_is ''status'' ''username''"
  "member_is ''status'' ''status''" "\<not> member_is ''status'' ''isSnapshot''" "\<not> member_is ''isSnapshot'' ''type''"
  "\<not> member_is ''isSnapshot'' ''userId''" "\<not> member_is ''isSnapshot'' ''username''" "\<not> member_is ''isSnapshot'' ''status''"
  "member_is ''isSnapshot'' ''isSnapshot''"
  by code_simp+

text \<open>
  C27: who learns that someone is online. Every event that some instance publishes is read back
  unchanged by the subscriber of this one, and on a working database it is offered once to every
  open connection here of every live account that has its subject as a contact, and to no other.
\<close>

theorem presence_reaches_followers:
  assumes "sv_users sv = pg_user_store ilike collate" "db_ok (w_db v)" "faults (w_db v) = []" "hub_ok (w_hub v)"
    "min_int64 \<le> pe_UserID ev" "pe_UserID ev \<le> max_int64"
  shows "decode_presence (presence_json ev) = Some ev \<and>
    presence_subscriber_step sv (presence_json ev) v = to_followers (pe_UserID ev) (PresenceFrame ev) v"
proof -
  have dec: "decode_presence (presence_json ev) = Some ev"
    using assms(5,6)
    by (cases "pe_IsSnapshot ev")
      (simp_all add: decode_presence_def presence_json_def get_string_def get_bool_def get_int_def)
  then show ?thesis
    by (rule_tac pg_fanout [OF assms(1-4), where u = "pe_UserID ev" and f = "PresenceFrame ev"])
      (simp add: presence_subscriber_step_def)
qed

theorem presence_reaches_followers_witness:
  "\<exists>c. clients (w_hub (presence_subscriber_step demo_server (presence_json (status_event 1 ''alice'' ''online'')) erase_world)) 30
     = Some c \<and> cl_send c = [PresenceFrame (status_event 1 ''alice'' ''online'')]"
proof -
  let ?ev = "status_event 1 ''alice'' ''online''"
  have pre: "db_ok (w_db erase_world)" "faults (w_db erase_world) = []" "hub_ok (w_hub erase_world)"
    "w_hub erase_world = demo_hub" "pe_UserID ?ev = 1"
    by (simp_all add: erase_world_def hub_ok_demo status_event_def)
  have bob: "30 \<in> set (user_clients 2 demo_hub)" "clients demo_hub 30 = Some (demo_client 2 ''bob'')"
    by (simp_all add: demo_hub_def addClient_def NewHub_def user_clients_def Let_def demo_client_def)
  have "(2, 1) \<in> graph (tb (w_db erase_world))" "live_account (w_db erase_world) 2 \<noteq> None"
    by (simp_all add: erase_world_def graph_def live_account_def select_one_def live_def demo_defs)
  with bob have "\<exists>f. (f, 1) \<in> graph (tb (w_db erase_world)) \<and> live_account (w_db erase_world) f \<noteq> None \<and>
      30 \<in> set (user_clients f demo_hub)" by blast
  with presence_reaches_followers [OF demo_server_simps(1) pre(1-3), of ?ev] pre(4,5) bob(2)
  have "clients (w_hub (presence_subscriber_step demo_server (presence_json ?ev) erase_world)) 30 =
      Some (offered (PresenceFrame ?ev) (demo_client 2 ''bob''))" by simp
  then show ?thesis by (simp add: offered_def demo_client_def sendQueueSize_def)
qed

text \<open>Bob reconnects with everything up to message 1 seen.\<close>

definition ws_request :: request where
  "ws_request = (demo_request ''GET'' [] None)\<lparr>rq_user := Some \<lparr>au_ID = 2, au_Username = ''bob''\<rparr>,
     rq_query := [(''sinceId'', FormatInt 1)]\<rparr>"

theorem ws_connect_delivers_witness:
  "\<exists>w' c. WebSocketHandler demo_server (\<lambda>_ _. None) (\<lambda>_. True) 40 ws_request erase_world = (hijacked, w') \<and>
     clients (w_hub w') 30 = Some c \<and> map (\<lambda>f. case f of MessageFrame m \<Rightarrow> Body m | _ \<Rightarrow> []) (cl_send c) = [''lunch?'']"
proof -
  have n: "fst (ParseInt (lookup ''sinceId'' (rq_query ws_request))) = 1"
    by (simp add: ws_request_def lookup_def ParseInt_FormatInt)
  have cu: "CurrentUser ws_request = Some \<lparr>au_ID = 2, au_Username = ''bob''\<rparr>"
    by (simp add: ws_request_def CurrentUser_def)
  have box: "mailbox demo_db = map display [demo_msg 1 1 2 ''hi bob'' ''a1'', demo_msg 2 2 1 ''hi alice'' ''b1'',
                        demo_msg 3 1 2 ''lunch?'' ''a2'']"
    by (simp add: mailbox_def demo_db_def demo_msg_def)
  have pre: "db_ok (w_db erase_world)" "faults (w_db erase_world) = []" "hub_ok (w_hub erase_world)" "clients (w_hub erase_world) 40 = None"
    by (simp_all add: erase_world_def hub_ok_demo)
      (simp add: demo_hub_def addClient_def NewHub_def Let_def)
  have bob: "30 \<in> set (user_clients 2 demo_hub)" "clients demo_hub 30 = Some (demo_client 2 ''bob'')"
    by (simp_all add: demo_hub_def addClient_def NewHub_def user_clients_def Let_def demo_client_def)
  note out = ws_connect_delivers [where hs = "\<lambda>_ _. None" and check = "\<lambda>_. True",
        OF demo_server_simps(1,2) pre cu refl n refl, unfolded AuthUser.select_convs]
  obtain w' where run: "WebSocketHandler demo_server (\<lambda>_ _. None) (\<lambda>_. True) 40 ws_request erase_world = (hijacked, w')"
    and others: "\<forall>j c. j \<noteq> 40 \<longrightarrow> clients (w_hub erase_world) j = Some c \<longrightarrow> clients (w_hub w') j =
       Some (if j \<in> set (user_clients 2 (w_hub erase_world)) then fold offered (map MessageFrame
         (filter (\<lambda>m. RecipientID m = 2 \<and> (0 :: int) \<le> 1 \<and> 1 < ID m \<and> DeletedAt m = None) (mailbox (w_db erase_world)))) c else c)"
    using out by blast
  have "clients (w_hub w') 30 = Some (offered (MessageFrame (display (demo_msg 3 1 2 ''lunch?'' ''a2''))) (demo_client 2 ''bob''))"
    using others bob by (simp add: erase_world_def box) (simp add: demo_msg_def)
  with run show ?thesis by (simp add: offered_def demo_client_def sendQueueSize_def demo_msg_def scanMsg_def selectCols_def)
qed

end
