(* ===== verification/Router.thy ===== *)
theory Router
  imports Admin_Handlers WebSocket
begin

text \<open>
  \<open>router.go\<close>: the table of routes, the middleware in front of each, and the whole service of one
  HTTP request. Matching is done by gorilla/mux, a parameter: from the table and the request it
  gives an answer of its own (404, 405) or a route with the values of the template's variables.
  The OpenTelemetry wrapper around the router and the Prometheus handler are third-party code:
  the first adds nothing the model sees, the second is a parameter.
\<close>

section \<open>Routes\<close>

datatype route =
    RMetrics | RHealth | RHealthz | RLive | RReady
  | RRegister | RLogin | RRefresh | RLogout
  | RListUsers | RChangePassword | RSendMessage | RListMessages | RMarkMessagesRead | RDeleteMessage
  | RContacts | RNewContact | ROldContact | RAccount
  | RInvites | RNewInvite | RResetInvite
  | RUploadKey | RGetKey | RPushToken | RWSTicket
  | RInternalPushToken
  | RWS

text \<open>Who may pass: each subrouter or wrapper of \<open>NewRouter\<close> is one class of access.\<close>

datatype clearance = Public | Throttled | Protected | Admin | Internal | Socket

fun access :: "route \<Rightarrow> clearance" where
  "access RRegister = Throttled"
| "access RLogin = Throttled"
| "access RListUsers = Protected"
| "access RChangePassword = Protected"
| "access RSendMessage = Protected"
| "access RListMessages = Protected"
| "access RMarkMessagesRead = Protected"
| "access RDeleteMessage = Protected"
| "access RContacts = Protected"
| "access RNewContact = Protected"
| "access ROldContact = Protected"
| "access RAccount = Protected"
| "access RInvites = Admin"
| "access RNewInvite = Admin"
| "access RResetInvite = Admin"
| "access RUploadKey = Protected"
| "access RGetKey = Protected"
| "access RPushToken = Protected"
| "access RWSTicket = Protected"
| "access RInternalPushToken = Internal"
| "access RWS = Socket"
| "access _ = Public"

text \<open>The table in the order of registration: path template and methods.\<close>

type_synonym route_table = "(route \<times> string \<times> string list) list"

definition routes :: route_table where
  "routes =
    [(RMetrics, ''/metrics'', [''GET'']), (RHealth, ''/health'', [''GET'']), (RHealthz, ''/healthz'', [''GET'']),
     (RLive, ''/health/live'', [''GET'']), (RReady, ''/health/ready'', [''GET'']),
     (RRegister, ''/api/v1/register'', [''POST'', ''OPTIONS'']), (RLogin, ''/api/v1/login'', [''POST'', ''OPTIONS'']),
     (RRefresh, ''/api/v1/refresh'', [''POST'', ''OPTIONS'']), (RLogout, ''/api/v1/logout'', [''POST'', ''OPTIONS'']),
     (RListUsers, ''/api/v1/users'', [''GET'', ''OPTIONS'']),
     (RChangePassword, ''/api/v1/users/me/password'', [''PATCH'', ''OPTIONS'']),
     (RSendMessage, ''/api/v1/messages'', [''POST'', ''OPTIONS'']),
     (RListMessages, ''/api/v1/messages'', [''GET'', ''OPTIONS'']),
     (RMarkMessagesRead, ''/api/v1/messages/read'', [''POST'', ''OPTIONS'']),
     (RDeleteMessage, ''/api/v1/messages/{id}'', [''DELETE'', ''OPTIONS'']),
     (RContacts, ''/api/v1/contacts'', [''GET'', ''OPTIONS'']), (RNewContact, ''/api/v1/contacts'', [''POST'', ''OPTIONS'']),
     (ROldContact, ''/api/v1/contacts/{username}'', [''DELETE'', ''OPTIONS'']),
     (RAccount, ''/api/v1/account'', [''DELETE'', ''OPTIONS'']),
     (RInvites, ''/api/v1/admin/invites'', [''GET'', ''OPTIONS'']),
     (RNewInvite, ''/api/v1/admin/invites'', [''POST'', ''OPTIONS'']),
     (RResetInvite, ''/api/v1/admin/invites/{code}/reset'', [''POST'', ''OPTIONS'']),
     (RUploadKey, ''/api/v1/keys'', [''PUT'', ''OPTIONS'']), (RGetKey, ''/api/v1/keys/{username}'', [''GET'', ''OPTIONS'']),
     (RPushToken, ''/api/v1/users/me/push-token'', [''PUT'', ''OPTIONS'']),
     (RInternalPushToken, ''/internal/users/{id}/push-token'', [''GET'']),
     (RWSTicket, ''/api/v1/ws/ticket'', [''POST'', ''OPTIONS'']), (RWS, ''/api/v1/ws'', [''GET''])]"

definition route_template :: "route \<Rightarrow> string option" where
  "route_template p = map_option fst (map_of routes p)"

definition route_methods :: "route \<Rightarrow> string list" where
  "route_methods p = (case map_of routes p of None \<Rightarrow> [] | Some (_, ms) \<Rightarrow> ms)"

type_synonym mux = "route_table \<Rightarrow> request \<Rightarrow> response + route \<times> (string \<times> string) list"

text \<open>mux gives a route of the table that was registered for the request's method.\<close>

definition mux_law :: "mux \<Rightarrow> bool" where
  "mux_law m \<longleftrightarrow> (\<forall>table r p vars. m table r = Inr (p, vars) \<longrightarrow>
     (\<exists>tpl ms. (p, tpl, ms) \<in> set table \<and> rq_method r \<in> set ms))"

section \<open>The router\<close>

text \<open>The arguments of \<open>NewRouter\<close> that are not in \<open>server\<close>, and what stands for other libraries.\<close>

record router_config =
  rc_allowedOrigins :: "string list"
  rc_env :: string
  rc_adminUsername :: string
  rc_serviceSecret :: string

record 'w router_lib =
  rl_mux :: mux
  rl_uuid :: "string \<Rightarrow> string"
  rl_tls :: "request \<Rightarrow> bool"
  rl_handshake :: handshake
  rl_metrics :: "'w handler"

text \<open>The limiters that \<open>NewRouter\<close> creates.\<close>

definition router_limiters :: "('d, 's, 'l) world \<Rightarrow> ('d, 's, 'l) world" where
  "router_limiters w =
     w\<lparr>w_ipLimiter := NewKeyedLimiter 5 10 (10 * minute), w_idLimiter := NewKeyedLimiter 2 4 (10 * minute),
       w_userLimiter := NewKeyedLimiter 10 20 (10 * minute)\<rparr>"

definition WSTicketRoute :: "('d, 's, 'l) server \<Rightarrow> ('d, 's, 'l) world handler" where
  "WSTicketRoute sv r w =
     (if CurrentUser r = None then on_rd (WSTicketHandler (sv_redis sv) None r) w
      else case draw w of (e, w1) \<Rightarrow> on_rd (WSTicketHandler (sv_redis sv) e r) w1)"

text \<open>Each route's handler with its body limit; \<open>i\<close> is the address of a client the request allocates.\<close>

fun endpoint ::
  "('d, 's, 'l) server \<Rightarrow> router_config \<Rightarrow> ('d, 's, 'l) world router_lib \<Rightarrow> nat \<Rightarrow> route \<Rightarrow> ('d, 's, 'l) world handler" where
  "endpoint sv cfg lib i RMetrics = rl_metrics lib"
| "endpoint sv cfg lib i RHealth = HealthHandler"
| "endpoint sv cfg lib i RHealthz = HealthHandler"
| "endpoint sv cfg lib i RLive = LiveHandler"
| "endpoint sv cfg lib i RReady = ReadyHandler sv"
| "endpoint sv cfg lib i RRegister = MaxBodyBytes 1048576 (RegisterHandler sv)"
| "endpoint sv cfg lib i RLogin = MaxBodyBytes 1048576 (LoginHandler sv)"
| "endpoint sv cfg lib i RRefresh = MaxBodyBytes 1048576 (RefreshHandler sv)"
| "endpoint sv cfg lib i RLogout = MaxBodyBytes 1048576 (LogoutHandler sv)"
| "endpoint sv cfg lib i RListUsers = ListUsersHandler sv"
| "endpoint sv cfg lib i RChangePassword = MaxBodyBytes 1048576 (ChangePasswordHandler sv)"
| "endpoint sv cfg lib i RSendMessage = MaxBodyBytes 1048576 (SendMessageHandler sv)"
| "endpoint sv cfg lib i RListMessages = ListMessagesHandler sv"
| "endpoint sv cfg lib i RMarkMessagesRead = MaxBodyBytes 1048576 (MarkReadHandler sv)"
| "endpoint sv cfg lib i RDeleteMessage = DeleteMessageHandler sv"
| "endpoint sv cfg lib i RContacts = ListContactsHandler sv"
| "endpoint sv cfg lib i RNewContact = MaxBodyBytes 1048576 (AddContactHandler sv)"
| "endpoint sv cfg lib i ROldContact = RemoveContactHandler sv"
| "endpoint sv cfg lib i RAccount = MaxBodyBytes 1048576 (DeleteAccountHandler sv)"
| "endpoint sv cfg lib i RInvites = AdminListInvitesHandler sv"
| "endpoint sv cfg lib i RNewInvite = MaxBodyBytes 1048576 (AdminCreateInviteHandler sv)"
| "endpoint sv cfg lib i RResetInvite = AdminResetInviteHandler sv"
| "endpoint sv cfg lib i RUploadKey = MaxBodyBytes 4096 (UploadKeyHandler sv)"
| "endpoint sv cfg lib i RGetKey = GetKeyHandler sv"
| "endpoint sv cfg lib i RPushToken = MaxBodyBytes 512 (RegisterPushTokenHandler sv)"
| "endpoint sv cfg lib i RInternalPushToken = InternalGetPushTokenHandler sv"
| "endpoint sv cfg lib i RWSTicket = MaxBodyBytes 1048576 (WSTicketRoute sv)"
| "endpoint sv cfg lib i RWS =
     WebSocketHandler sv (rl_handshake lib) (NewUpgrader (rc_allowedOrigins cfg) (rc_env cfg)) i"

definition ip_limit :: "('d, 's, 'l) server \<Rightarrow> ('d, 's, 'l) world handler \<Rightarrow> ('d, 's, 'l) world handler" where
  "ip_limit sv = LoginIPRateLimit (sv_limits sv) w_now w_ipLimiter (\<lambda>l w. w\<lparr>w_ipLimiter := l\<rparr>)"

definition user_limit :: "('d, 's, 'l) server \<Rightarrow> ('d, 's, 'l) world handler \<Rightarrow> ('d, 's, 'l) world handler" where
  "user_limit sv = PerUserRateLimit (sv_limits sv) w_now w_userLimiter (\<lambda>l w. w\<lparr>w_userLimiter := l\<rparr>)"

fun guard :: "('d, 's, 'l) server \<Rightarrow> router_config \<Rightarrow> clearance \<Rightarrow> ('d, 's, 'l) world handler \<Rightarrow> ('d, 's, 'l) world handler" where
  "guard sv cfg Public h = h"
| "guard sv cfg Throttled h = ip_limit sv h"
| "guard sv cfg Protected h = AuthMiddleware sv (user_limit sv h)"
| "guard sv cfg Admin h = AuthMiddleware sv (user_limit sv (AdminOnly (rc_adminUsername cfg) h))"
| "guard sv cfg Internal h = InternalServiceAuth (rc_serviceSecret cfg) h"
| "guard sv cfg Socket h = WSAuthMiddleware sv h"

text \<open>One request through the router, for any choice \<open>E\<close> of endpoints.\<close>

definition serve_with ::
  "(route \<Rightarrow> ('d, 's, 'l) world handler) \<Rightarrow> ('d, 's, 'l) server \<Rightarrow> router_config \<Rightarrow> ('d, 's, 'l) world router_lib \<Rightarrow>
   ('d, 's, 'l) world handler" where
  "serve_with E sv cfg lib r w =
     (case rl_mux lib routes r of
        Inl resp \<Rightarrow> (resp, w)
      | Inr (p, vars) \<Rightarrow>
          RequestID (rl_uuid lib) (\<lambda>rid.
            CORSMiddleware (rc_allowedOrigins cfg) (\<lambda>r w.
              fst (AccessLogAndMetrics (route_template p) (rl_tls lib r) rid (guard sv cfg (access p) (E p)) r w)))
            (r\<lparr>rq_vars := vars\<rparr>) w)"

definition NewRouter ::
  "('d, 's, 'l) server \<Rightarrow> router_config \<Rightarrow> ('d, 's, 'l) world router_lib \<Rightarrow> nat \<Rightarrow> ('d, 's, 'l) world handler" where
  "NewRouter sv cfg lib i = serve_with (endpoint sv cfg lib i) sv cfg lib"

section \<open>What the guards let through\<close>

text \<open>
  What a guard may change before it refuses or lets pass: which statements the database already
  failed, a ticket that a handshake spends, drawn random bytes, and two of the limiters; no row.
\<close>

definition untouched :: "clearance \<Rightarrow> (db, 's, 'l) world \<Rightarrow> (db, 's, 'l) world \<Rightarrow> bool" where
  "untouched c w w1 \<longleftrightarrow>
     w_hub w1 = w_hub w \<and> w_jobs w1 = w_jobs w \<and> w_now w1 = w_now w \<and> w_idLimiter w1 = w_idLimiter w \<and>
     db_ok (w_db w1) \<and> tb (w_db w1) = tb (w_db w) \<and> (c \<noteq> Socket \<longrightarrow> w_rd w1 = w_rd w)"

definition bearer_user ::
  "(signing_method \<Rightarrow> string \<Rightarrow> string \<Rightarrow> bool) \<Rightarrow> (db, 's, 'l) server \<Rightarrow> (db, 's, 'l) world \<Rightarrow> request \<Rightarrow> AuthUser \<Rightarrow> bool" where
  "bearer_user verifies sv w r u \<longleftrightarrow>
     (\<exists>tok claims h. bearer_token (lookup ''Authorization'' (rq_header r)) = Some tok \<and>
        verifies (HMAC h) (jm_secret (sv_mgr sv)) tok \<and>
        jwt_Parse (sv_jwt sv) (sv_mgr sv) (w_now w) tok = Some claims \<and> w_now w < cm_ExpiresAt claims \<and>
        live_account (w_db w) (cm_UserID claims) \<noteq> None \<and>
        u = \<lparr>au_ID = cm_UserID claims, au_Username = cm_Username claims\<rparr>)"

text \<open>\<open>r1\<close> is the request as the handler behind the guard sees it.\<close>

fun cleared ::
  "(signing_method \<Rightarrow> string \<Rightarrow> string \<Rightarrow> bool) \<Rightarrow> (db, 's, 'l) server \<Rightarrow> router_config \<Rightarrow> (db, 's, 'l) world \<Rightarrow>
   clearance \<Rightarrow> request \<Rightarrow> request \<Rightarrow> bool" where
  "cleared verifies sv cfg w Public r r1 \<longleftrightarrow> r1 = r"
| "cleared verifies sv cfg w Throttled r r1 \<longleftrightarrow> r1 = r"
| "cleared verifies sv cfg w Protected r r1 \<longleftrightarrow>
     (\<exists>u. bearer_user verifies sv w r u \<and> r1 = r\<lparr>rq_user := Some u\<rparr>)"
| "cleared verifies sv cfg w Admin r r1 \<longleftrightarrow>
     (\<exists>u. bearer_user verifies sv w r u \<and> r1 = r\<lparr>rq_user := Some u\<rparr> \<and> au_Username u = rc_adminUsername cfg)"
| "cleared verifies sv cfg w Internal r r1 \<longleftrightarrow>
     lookup ''X-Service-Secret'' (rq_header r) = rc_serviceSecret cfg \<and> r1 = r"
| "cleared verifies sv cfg w Socket r r1 \<longleftrightarrow>
     (\<exists>u. r1 = r\<lparr>rq_user := Some u\<rparr> \<and> live_account (w_db w) (au_ID u) \<noteq> None \<and>
        (fst (redeem_ticket (sv_redis sv) (lookup ''ticket'' (rq_query r)) (w_rd w)) = Some u \<or> bearer_user verifies sv w r u))"

fun refusals :: "clearance \<Rightarrow> nat set" where
  "refusals Public = {}"
| "refusals Throttled = {429}"
| "refusals Protected = {401, 429}"
| "refusals Admin = {401, 403, 429}"
| "refusals Internal = {403}"
| "refusals Socket = {401, 500}"

lemma user_limit_runs:
  assumes "user_limit sv h r w = (resp, w')"
  obtains l where "w' = w\<lparr>w_userLimiter := l\<rparr>" "rs_status resp = 429"
  | l where "h r (w\<lparr>w_userLimiter := l\<rparr>) = (resp, w')"
proof (cases "CurrentUser r")
  case None
  with assms have "h r (w\<lparr>w_userLimiter := w_userLimiter w\<rparr>) = (resp, w')"
    by (simp add: user_limit_def PerUserRateLimit_def)
  then show thesis by (rule that(2))
next
  case (Some u)
  then show thesis
    using assms that
    by (auto simp: user_limit_def PerUserRateLimit_def limited_def split: prod.splits bool.splits)
qed

lemma ip_limit_runs:
  assumes "ip_limit sv h r w = (resp, w')"
  obtains l where "w' = w\<lparr>w_ipLimiter := l\<rparr>" "rs_status resp = 429"
  | l where "h r (w\<lparr>w_ipLimiter := l\<rparr>) = (resp, w')"
  using assms that
  by (auto simp: ip_limit_def LoginIPRateLimit_def limited_def split: prod.splits bool.splits)

lemma untouched_refl: "db_ok (w_db w) \<Longrightarrow> untouched c w w"
  by (simp add: untouched_def)

lemma untouched_limiters [simp]:
  "untouched c w (w1\<lparr>w_userLimiter := l\<rparr>) = untouched c w w1" "untouched c w (w1\<lparr>w_ipLimiter := l\<rparr>) = untouched c w w1"
  by (simp_all add: untouched_def)

lemma untouched_db: "same_but_db w w1 \<Longrightarrow> db_ok (w_db w1) \<Longrightarrow> tb (w_db w1) = tb (w_db w) \<Longrightarrow> untouched c w w1"
  by (simp add: untouched_def same_but_db_fields)

lemma auth_runs:
  assumes "sv_users sv = pg_user_store ilike collate" "db_ok (w_db w)" "jwt_laws (sv_jwt sv) verifies"
    "rq_method r \<noteq> ''OPTIONS''" "AuthMiddleware sv next r w = (resp, w')"
  obtains w1 where "untouched c w w1" "rs_status resp = 401" "w' = w1"
  | w1 u where "untouched c w w1" "bearer_user verifies sv w r u" "next (r\<lparr>rq_user := Some u\<rparr>) w1 = (resp, w')"
proof -
  from AuthMiddleware_gate [OF assms] obtain w1 where w1: "same_but_db w w1" "db_ok (w_db w1)" "tb (w_db w1) = tb (w_db w)"
    and runs: "(rs_status resp = 401 \<and> w' = w1) \<or>
     (\<exists>tok claims u h. bearer_token (lookup ''Authorization'' (rq_header r)) = Some tok \<and>
        verifies (HMAC h) (jm_secret (sv_mgr sv)) tok \<and>
        jwt_Parse (sv_jwt sv) (sv_mgr sv) (w_now w) tok = Some claims \<and> w_now w < cm_ExpiresAt claims \<and>
        live_account (w_db w) (cm_UserID claims) = Some u \<and>
        (resp, w') = next (r\<lparr>rq_user := Some \<lparr>au_ID = cm_UserID claims, au_Username = cm_Username claims\<rparr>\<rparr>) w1)"
    by blast
  have un: "untouched c w w1" using w1 by (rule untouched_db)
  from runs show thesis
  proof (elim disjE exE conjE)
    fix tok claims u h
    assume t: "bearer_token (lookup ''Authorization'' (rq_header r)) = Some tok"
        "verifies (HMAC h) (jm_secret (sv_mgr sv)) tok"
        "jwt_Parse (sv_jwt sv) (sv_mgr sv) (w_now w) tok = Some claims" "w_now w < cm_ExpiresAt claims"
        "live_account (w_db w) (cm_UserID claims) = Some u"
      and n: "(resp, w') = next (r\<lparr>rq_user := Some \<lparr>au_ID = cm_UserID claims, au_Username = cm_Username claims\<rparr>\<rparr>) w1"
    from t have "bearer_user verifies sv w r \<lparr>au_ID = cm_UserID claims, au_Username = cm_Username claims\<rparr>"
      unfolding bearer_user_def by blast
    from that(2) [OF un this n [symmetric]] show thesis .
  qed (use that(1) un in blast)
qed

lemma guard_runs:
  assumes "sv_users sv = pg_user_store ilike collate" "db_ok (w_db w)" "jwt_laws (sv_jwt sv) verifies"
    "redis_laws (sv_redis sv) view" "rq_method r \<noteq> ''OPTIONS''" "guard sv cfg c h r w = (resp, w')"
  shows "\<exists>w1. untouched c w w1 \<and> ((rs_status resp \<in> refusals c \<and> w' = w1) \<or>
    (\<exists>r1. cleared verifies sv cfg w c r r1 \<and> h r1 w1 = (resp, w')))"
proof -
  have refused: ?thesis if "untouched c w w'" "rs_status resp \<in> refusals c" using that by blast
  have passed: ?thesis if "untouched c w w1" "cleared verifies sv cfg w c r r1" "h r1 w1 = (resp, w')" for w1 r1
    using that by blast
  have self: "untouched c w w" using assms(2) by (rule untouched_refl)
  show ?thesis
  proof (cases c)
    case Public
    then show ?thesis using passed [of w r] self assms(6) by simp
  next
    case Throttled
    with assms(6) have "ip_limit sv h r w = (resp, w')" by simp
    then show ?thesis
    proof (rule ip_limit_runs)
      fix l
      assume "w' = w\<lparr>w_ipLimiter := l\<rparr>" "rs_status resp = 429"
      with Throttled self show ?thesis by (intro refused) simp_all
    next
      fix l
      assume "h r (w\<lparr>w_ipLimiter := l\<rparr>) = (resp, w')"
      with Throttled self show ?thesis by (intro passed [of "w\<lparr>w_ipLimiter := l\<rparr>" r]) simp_all
    qed
  next
    case Protected
    with assms(6) have "AuthMiddleware sv (user_limit sv h) r w = (resp, w')" by simp
    then show ?thesis
    proof (rule auth_runs [OF assms(1-3,5), where c = c])
      fix w1 u
      assume a: "untouched c w w1" "bearer_user verifies sv w r u" "user_limit sv h (r\<lparr>rq_user := Some u\<rparr>) w1 = (resp, w')"
      from a(3) show ?thesis
      proof (rule user_limit_runs)
        fix l
        assume "h (r\<lparr>rq_user := Some u\<rparr>) (w1\<lparr>w_userLimiter := l\<rparr>) = (resp, w')"
        with Protected a(1,2) show ?thesis
          by (intro passed [of "w1\<lparr>w_userLimiter := l\<rparr>" "r\<lparr>rq_user := Some u\<rparr>"]) auto
      next
        fix l
        assume "w' = w1\<lparr>w_userLimiter := l\<rparr>" "rs_status resp = 429"
        with Protected a(1) show ?thesis by (intro refused) simp_all
      qed
    next
      fix w1
      assume "untouched c w w1" "rs_status resp = 401" "w' = w1"
      with Protected show ?thesis by (intro refused) simp_all
    qed
  next
    case Admin
    with assms(6) have "AuthMiddleware sv (user_limit sv (AdminOnly (rc_adminUsername cfg) h)) r w = (resp, w')" by simp
    then show ?thesis
    proof (rule auth_runs [OF assms(1-3,5), where c = c])
      fix w1 u
      assume a: "untouched c w w1" "bearer_user verifies sv w r u"
        "user_limit sv (AdminOnly (rc_adminUsername cfg) h) (r\<lparr>rq_user := Some u\<rparr>) w1 = (resp, w')"
      from a(3) show ?thesis
      proof (rule user_limit_runs)
        fix l
        assume n: "AdminOnly (rc_adminUsername cfg) h (r\<lparr>rq_user := Some u\<rparr>) (w1\<lparr>w_userLimiter := l\<rparr>) = (resp, w')"
        show ?thesis
        proof (cases "au_Username u = rc_adminUsername cfg")
          case True
          with n a Admin show ?thesis
            by (intro passed [of "w1\<lparr>w_userLimiter := l\<rparr>" "r\<lparr>rq_user := Some u\<rparr>"])
              (auto simp: AdminOnly_def CurrentUser_def)
        next
          case False
          with n a Admin show ?thesis by (intro refused) (auto simp: AdminOnly_def CurrentUser_def)
        qed
      next
        fix l
        assume "w' = w1\<lparr>w_userLimiter := l\<rparr>" "rs_status resp = 429"
        with Admin a(1) show ?thesis by (intro refused) simp_all
      qed
    next
      fix w1
      assume "untouched c w w1" "rs_status resp = 401" "w' = w1"
      with Admin show ?thesis by (intro refused) simp_all
    qed
  next
    case Internal
    show ?thesis
    proof (cases "lookup ''X-Service-Secret'' (rq_header r) = rc_serviceSecret cfg")
      case True
      with Internal assms(6) self show ?thesis by (intro passed [of w r]) (simp_all add: InternalServiceAuth_def)
    next
      case False
      with Internal assms(6) self show ?thesis by (intro refused) (auto simp: InternalServiceAuth_def)
    qed
  next
    case Socket
    with assms(6) have "WSAuthMiddleware sv h r w = (resp, w')" by simp
    from WSAuthMiddleware_gate [OF assms(1-4) this] obtain w1
      where w1: "w1 = w\<lparr>w_db := w_db w1, w_rd := w_rd w1\<rparr>" "db_ok (w_db w1)" "tb (w_db w1) = tb (w_db w)"
        and runs: "rs_status resp \<in> {401, 500} \<and> w' = w1 \<or>
          (\<exists>user. live_account (w_db w) (au_ID user) \<noteq> None \<and> (resp, w') = h (r\<lparr>rq_user := Some user\<rparr>) w1 \<and>
            (fst (redeem_ticket (sv_redis sv) (lookup ''ticket'' (rq_query r)) (w_rd w)) = Some user \<or> bearer_user verifies sv w r user))"
      unfolding bearer_user_def by fastforce
    have un: "untouched c w w1" by (subst w1(1)) (use w1(2,3) Socket in \<open>simp add: untouched_def\<close>)
    from runs show ?thesis
    proof (elim disjE exE conjE)
      assume "rs_status resp \<in> {401, 500}" "w' = w1"
      with un Socket show ?thesis by (intro refused) simp_all
    next
      fix user
      assume "live_account (w_db w) (au_ID user) \<noteq> None" "(resp, w') = h (r\<lparr>rq_user := Some user\<rparr>) w1"
        "fst (redeem_ticket (sv_redis sv) (lookup ''ticket'' (rq_query r)) (w_rd w)) = Some user"
      with Socket show ?thesis by (intro passed [OF un, of "r\<lparr>rq_user := Some user\<rparr>"]) auto
    next
      fix user
      assume "live_account (w_db w) (au_ID user) \<noteq> None" "(resp, w') = h (r\<lparr>rq_user := Some user\<rparr>) w1"
        "bearer_user verifies sv w r user"
      with Socket show ?thesis by (intro passed [OF un, of "r\<lparr>rq_user := Some user\<rparr>"]) auto
    qed
  qed
qed

section \<open>The whole way in\<close>

lemma cleared_entropy [simp]: "cleared verifies sv cfg (w\<lparr>w_entropy := es\<rparr>) c r r1 = cleared verifies sv cfg w c r r1"
  by (cases c) (simp_all add: bearer_user_def)

lemma untouched_entropy [simp]:
  "untouched c (w\<lparr>w_entropy := es\<rparr>) w1 = untouched c w w1" "untouched c w (w1\<lparr>w_entropy := es\<rparr>) = untouched c w w1"
  by (simp_all add: untouched_def)

lemma RequestID_runs:
  assumes "RequestID uuid next r w = (resp, w')"
  obtains es where "resp = handler_panic" "w' = w\<lparr>w_entropy := es\<rparr>"
  | es rid resp1 where "next rid r (w\<lparr>w_entropy := es\<rparr>) = (resp1, w')" "rs_status resp = rs_status resp1"
      "rs_payload resp = rs_payload resp1"
proof -
  let ?g = "lookup ''X-Request-Id'' (rq_header r)"
  let ?d = "if ?g \<noteq> [] then (Some ?g, w) else case draw w of (bs, w1) \<Rightarrow> (map_option uuid bs, w1)"
  obtain x w1 where d: "?d = (x, w1)" by fastforce
  have "\<exists>es. w1 = w\<lparr>w_entropy := es\<rparr>"
  proof (cases "?g = []")
    case True
    with d obtain bs where "draw w = (bs, w1)" by (auto split: prod.splits)
    then show ?thesis by (rule draw_cases) blast
  next
    case False
    with d have "w1 = w\<lparr>w_entropy := w_entropy w\<rparr>" by simp
    then show ?thesis by blast
  qed
  then obtain es where w1: "w1 = w\<lparr>w_entropy := es\<rparr>" by blast
  show thesis
  proof (cases x)
    case None
    have "resp = handler_panic \<and> w' = w1"
      using assms unfolding RequestID_def Let_def d None by simp
    with w1 show thesis by (intro that(1) [of es]) simp_all
  next
    case (Some rid)
    obtain resp1 w2 where n: "next rid r w1 = (resp1, w2)" by fastforce
    have "(resp, w') = (set_before [(''X-Request-Id'', rid)] resp1, w2)"
      using assms unfolding RequestID_def Let_def d Some by (simp add: n)
    with n w1 show thesis by (intro that(2) [of rid es resp1]) (simp_all add: set_before_def)
  qed
qed

lemma CORS_runs:
  assumes "CORSMiddleware allowed next r w = (resp, w')"
  shows "if rq_method r = ''OPTIONS'' then w' = w \<and> rs_status resp \<in> {204, 403}
    else \<exists>resp1. next r w = (resp1, w') \<and> rs_status resp = rs_status resp1 \<and> rs_payload resp = rs_payload resp1"
  using assms by (auto simp: CORSMiddleware_def Let_def split: if_splits prod.splits)

lemma route_methods_of: "(p, tpl, ms) \<in> set routes \<Longrightarrow> route_methods p = ms"
proof -
  assume "(p, tpl, ms) \<in> set routes"
  moreover have "distinct (map fst routes)" by (simp add: routes_def)
  ultimately have "map_of routes p = Some (tpl, ms)" by (simp add: map_of_is_SomeI)
  then show ?thesis by (simp add: route_methods_def)
qed

text \<open>The answer after \<open>AccessLogAndMetrics\<close> recovered a panic.\<close>

definition recovered :: "response \<Rightarrow> response" where
  "recovered out = (if out = handler_panic then writeJSONError 500 ''internal server error'' else out)"

text \<open>
  C12: nobody gets past the router's guards. Whatever the handlers are, a request that mux gives to
  a route is either answered before its handler, with one of the statuses of the route's guard and
  without a change to a row, the hub or a pending goroutine, or its handler runs, exactly once and
  with its answer passed on: then the method is one the route was registered for and not
  \<open>OPTIONS\<close>; a protected route has an unexpired token under the server's secret of a live account
  and sees that identity; an admin route also has the administrator's name; an internal route has
  the service secret; and a WebSocket handshake has a ticket or such a token, and a live account.
\<close>

theorem router_guards:
  assumes "sv_users sv = pg_user_store ilike collate" "db_ok (w_db w)" "jwt_laws (sv_jwt sv) verifies"
    "redis_laws (sv_redis sv) view" "mux_law (rl_mux lib)" "rl_mux lib routes r = Inr (p, vars)"
    "serve_with E sv cfg lib r w = (resp, w')"
  shows "\<exists>w1. untouched (access p) w w1 \<and>
    (w' = w1 \<and> (resp = handler_panic \<or>
       rs_status resp \<in> (if rq_method r = ''OPTIONS'' then {204, 403} else refusals (access p))) \<or>
     rq_method r \<in> set (route_methods p) - {''OPTIONS''} \<and>
     (\<exists>r1 out. cleared verifies sv cfg w (access p) (r\<lparr>rq_vars := vars\<rparr>) r1 \<and> E p r1 w1 = (out, w') \<and>
        rs_status resp = rs_status (recovered out) \<and> rs_payload resp = rs_payload (recovered out)))"
proof -
  let ?r = "r\<lparr>rq_vars := vars\<rparr>"
  let ?log = "\<lambda>rid r w. fst (AccessLogAndMetrics (route_template p) (rl_tls lib r) rid (guard sv cfg (access p) (E p)) r w)"
  have allowed: "rq_method r \<in> set (route_methods p)"
    using assms(5,6) route_methods_of unfolding mux_law_def by metis
  have run: "RequestID (rl_uuid lib) (\<lambda>rid. CORSMiddleware (rc_allowedOrigins cfg) (?log rid)) ?r w = (resp, w')"
    using assms(6,7) by (simp add: serve_with_def)
  then show ?thesis
  proof (rule RequestID_runs)
    fix es
    assume "resp = handler_panic" "w' = w\<lparr>w_entropy := es\<rparr>"
    with assms(2) show ?thesis by (intro exI [of _ w']) (simp add: untouched_refl)
  next
    fix es rid resp1
    let ?w = "w\<lparr>w_entropy := es\<rparr>"
    assume c: "CORSMiddleware (rc_allowedOrigins cfg) (?log rid) ?r ?w = (resp1, w')"
      and same: "rs_status resp = rs_status resp1" "rs_payload resp = rs_payload resp1"
    show ?thesis
    proof (cases "rq_method r = ''OPTIONS''")
      case True
      with CORS_runs [OF c] same assms(2) show ?thesis by (intro exI [of _ w']) (simp add: untouched_refl)
    next
      case False
      with CORS_runs [OF c] obtain resp2 where log: "?log rid ?r ?w = (resp2, w')"
        and same2: "rs_status resp1 = rs_status resp2" "rs_payload resp1 = rs_payload resp2" by auto
      obtain out w2 where g: "guard sv cfg (access p) (E p) ?r ?w = (out, w2)" by fastforce
      with log have out: "resp2 = recovered out" "w2 = w'"
        by (simp_all add: AccessLogAndMetrics_def recovered_def Let_def split: if_splits)
      have ok: "db_ok (w_db ?w)" "rq_method ?r \<noteq> ''OPTIONS''" using assms(2) False by simp_all
      from guard_runs [OF assms(1) ok(1) assms(3,4) ok(2) g] obtain w1 where un: "untouched (access p) w w1"
        and runs: "rs_status out \<in> refusals (access p) \<and> w2 = w1 \<or>
          (\<exists>r1. cleared verifies sv cfg w (access p) ?r r1 \<and> E p r1 w1 = (out, w2))" by auto
      have "rs_status out \<in> refusals (access p) \<Longrightarrow> recovered out = out"
        by (cases "access p") (auto simp: recovered_def handler_panic_def)
      with runs same same2 out un allowed False show ?thesis by (intro exI [of _ w1]) auto
    qed
  qed
qed

text \<open>A mux that knows one path only; a listing of contacts without a token stops at the guard.\<close>

definition demo_mux :: "route \<Rightarrow> mux" where
  "demo_mux p table r =
     (case find (\<lambda>(q, tpl, ms). q = p \<and> rq_method r \<in> set ms) table of
        None \<Rightarrow> Inl (http_Error ''method not allowed'' 405) | Some (q, _) \<Rightarrow> Inr (q, []))"

definition demo_config :: router_config where
  "demo_config = \<lparr>rc_allowedOrigins = [''https://chat.example''], rc_env = ''prod'',
     rc_adminUsername = ''alice'', rc_serviceSecret = ''s3''\<rparr>"

definition demo_lib :: "route \<Rightarrow> (db, mem_server, nat) world router_lib" where
  "demo_lib p = \<lparr>rl_mux = demo_mux p, rl_uuid = id, rl_tls = (\<lambda>_. True), rl_handshake = (\<lambda>_ _. None),
     rl_metrics = (\<lambda>r w. (no_content 200, w))\<rparr>"

lemma demo_mux_law: "mux_law (demo_mux p)"
  by (auto simp: mux_law_def demo_mux_def find_Some_iff split: option.splits) (metis nth_mem)

theorem router_guards_witness:
  "\<exists>resp w'. NewRouter demo_server demo_config (demo_lib RContacts) 40 (demo_request ''GET'' [] None) demo_world = (resp, w') \<and>
     rs_status resp \<in> {0, 401, 429} \<and> tb (w_db w') = tb demo_db"
proof -
  let ?r = "demo_request ''GET'' [] None"
  obtain resp w' where run: "serve_with (endpoint demo_server demo_config (demo_lib RContacts) 40) demo_server demo_config
      (demo_lib RContacts) ?r demo_world = (resp, w')" by fastforce
  have mux: "rl_mux (demo_lib RContacts) routes ?r = Inr (RContacts, [])"
    by (simp add: demo_lib_def demo_mux_def routes_def)
  have law: "mux_law (rl_mux (demo_lib RContacts))" by (simp add: demo_lib_def demo_mux_law)
  have none: "\<not> bearer_user (\<lambda>meth key tok. meth = HMAC ''HS256'' \<and> key = ''k'') demo_server demo_world (?r\<lparr>rq_vars := []\<rparr>) u" for u
    by (simp add: bearer_user_def bearer_token_def lookup_def split_n2_none)
  have pre: "db_ok (w_db demo_world)" "jwt_laws (sv_jwt demo_server) (\<lambda>meth key tok. meth = HMAC ''HS256'' \<and> key = ''k'')"
    "redis_laws (sv_redis demo_server) mem_observe"
    using demo_jwt_laws mem_redis_laws by simp_all
  from router_guards [OF demo_server_simps(1) pre law mux run] none
  have "tb (w_db w') = tb demo_db \<and> (resp = handler_panic \<or> rs_status resp \<in> {401, 429})"
    by (auto simp: untouched_def)
  with run show ?thesis by (auto simp: NewRouter_def handler_panic_def)
qed

end
