(* ===== verification/Server_Runs.thy ===== *)
theory Server_Runs
  imports Router Store_History
begin

text \<open>
  A running server: requests through the router, goroutines, the two Redis subscribers, the pumps
  of the WebSocket connections, other instances writing to the same database, and time, in any
  order. The handlers rely on one law of the stores, that each operation leads from a database to
  one that may follow it, where the operations that write for an account may ask for a guard \<open>G\<close>
  on that account; the locale states it for any such relation and guard and carries it through
  every handler. The interpretation here is the PostgreSQL store with its histories, which need no
  guard; \<open>Erasure\<close> gives another.
\<close>

section \<open>Handlers over evolving stores\<close>

text \<open>
  What may happen to a world: the database evolves, the hub stays consistent, and the counters get
  further calls that the client library accepts.
\<close>

definition counts_on :: "metric_op list \<Rightarrow> metric_op list \<Rightarrow> bool" where
  "counts_on ms ms' \<longleftrightarrow> (\<exists>ops. ms' = ms @ ops \<and> (\<forall>op \<in> set ops. op_ok op))"

lemma counts_on_refl [simp]: "counts_on ms ms"
  by (simp add: counts_on_def)

lemma counts_on_trans: "counts_on a b \<Longrightarrow> counts_on b c \<Longrightarrow> counts_on a c"
  by (auto simp: counts_on_def)

lemma counts_on_snoc: "counts_on a b \<Longrightarrow> op_ok m \<Longrightarrow> counts_on a (b @ [m])"
  by (auto simp: counts_on_def)

definition evolves :: "('d \<Rightarrow> 'd \<Rightarrow> bool) \<Rightarrow> ('d, 's, 'l) world \<Rightarrow> ('d, 's, 'l) world \<Rightarrow> bool" where
  "evolves R w w' \<longleftrightarrow> R (w_db w) (w_db w') \<and> (hub_ok (w_hub w) \<longrightarrow> hub_ok (w_hub w')) \<and>
     counts_on (w_metrics w) (w_metrics w')"

text \<open>The request carries a user for whom the guard holds, or none.\<close>

definition guarded :: "('d \<Rightarrow> int64 \<Rightarrow> bool) \<Rightarrow> request \<Rightarrow> ('d, 's, 'l) world \<Rightarrow> bool" where
  "guarded G r w \<longleftrightarrow> (\<forall>u. CurrentUser r = Some u \<longrightarrow> G (w_db w) (au_ID u))"

locale evolving_stores =
  fixes us :: "'d user_storer"
    and ms :: "'d message_storer"
    and R :: "'d \<Rightarrow> 'd \<Rightarrow> bool"
    and G :: "'d \<Rightarrow> int64 \<Rightarrow> bool"
  assumes R_refl: "R d d"
    and R_trans: "R d d1 \<Longrightarrow> R d1 d2 \<Longrightarrow> R d d2"
    and accounts_ops: "R d (snd (us_RegisterWithInvite us c n h d))" "R d (snd (us_GetUserByUsername us n d))"
      "R d (snd (us_GetByUsername us n d))" "R d (snd (us_GetUserByID us i d))" "R d (snd (us_SearchUsers us n d))"
      "R d (snd (us_ListUsers us d))" "R d (snd (us_GetPushToken us i d))"
      "R d (snd (us_DeleteAccountGDPR us i t d))" "R d (snd (us_Ping us d))"
    and invite_ops: "R d (snd (us_AdminListInvites us d))" "R d (snd (us_AdminCreateInvite us c n ex d))"
      "R d (snd (us_AdminResetInvite us c d))"
    and contact_ops: "R d (snd (us_RemoveContact us i n d))"
      "R d (snd (us_IsContact us i j d))" "R d (snd (us_ListContacts us i d))"
      "R d (snd (us_GetContactFollowerIDs us i d))"
    and message_ops: "R d (snd (ms_GetByID ms i d))"
      "R d (snd (ms_ListConversationSince ms i j k l d))" "R d (snd (ms_ListConversationBefore ms i j k l d))"
      "R d (snd (ms_GetUnreadForUser ms i k d))" "R d (snd (ms_MarkRead ms i j d))" "R d (snd (ms_SoftDelete ms i j d))"
    and guarded_ops: "G d i \<Longrightarrow> R d (snd (us_SetPublicKey us i n d))" "G d i \<Longrightarrow> R d (snd (us_SetPushToken us i n d))"
      "G d i \<Longrightarrow> R d (snd (us_UpdatePassword us i h d))" "G d i \<Longrightarrow> R d (snd (us_AddContact us i n d))"
      "G d i \<Longrightarrow> G d j \<Longrightarrow> R d (snd (ms_CreateOrGetExisting ms i j b iv e c d))"
    and guard_found: "us_GetUserByID us i d = (Inr u, d1) \<Longrightarrow> G d1 i" "us_GetByUsername us n d = (Inr u, d1) \<Longrightarrow> G d1 (UserID u)"
    and guard_kept: "us_GetByUsername us n d = (x, d1) \<Longrightarrow> G d i \<Longrightarrow> G d1 i"
      "us_GetUserByUsername us n d = (y, d2) \<Longrightarrow> G d i \<Longrightarrow> G d2 i"
begin

lemmas ops = accounts_ops invite_ops contact_ops message_ops

lemma ev_refl: "evolves R w w"
  by (simp add: evolves_def R_refl)

lemma ev_same:
  "evolves R w0 w \<Longrightarrow> w_db w1 = w_db w \<Longrightarrow> w_hub w1 = w_hub w \<Longrightarrow> w_metrics w1 = w_metrics w \<Longrightarrow> evolves R w0 w1"
  by (simp add: evolves_def)

lemma ev_db:
  assumes "evolves R w0 w" "\<And>d. R d (snd (f d))" "\<And>x w1. evolves R w0 w1 \<Longrightarrow> evolves R w0 (snd (k x w1))"
  shows "evolves R w0 (snd (case on_db f w of (x, w1) \<Rightarrow> k x w1))"
proof -
  obtain x w1 where c: "on_db f w = (x, w1)" by fastforce
  then obtain d where d: "f (w_db w) = (x, d)" "w1 = w\<lparr>w_db := d\<rparr>" by (rule on_db_cases)
  have "R (w_db w) d" using assms(2) [of "w_db w"] d(1) by simp
  with assms(1) d(2) have "evolves R w0 w1" by (auto simp: evolves_def intro: R_trans)
  then show ?thesis using assms(3) by (simp add: c)
qed

lemma ev_rd:
  assumes "evolves R w0 w" "\<And>x w1. evolves R w0 w1 \<Longrightarrow> evolves R w0 (snd (k x w1))"
  shows "evolves R w0 (snd (case on_rd f w of (x, w1) \<Rightarrow> k x w1))"
proof -
  obtain x w1 where c: "on_rd f w = (x, w1)" by fastforce
  then have "evolves R w0 w1" using assms(1) by (auto elim!: on_rd_cases simp: evolves_def)
  then show ?thesis using assms(2) by (simp add: c)
qed

lemma ev_draw:
  assumes "evolves R w0 w" "\<And>x w1. evolves R w0 w1 \<Longrightarrow> evolves R w0 (snd (k x w1))"
  shows "evolves R w0 (snd (case draw w of (x, w1) \<Rightarrow> k x w1))"
proof -
  obtain x w1 where c: "draw w = (x, w1)" by fastforce
  then have "evolves R w0 w1" using assms(1) by (auto elim!: draw_cases simp: evolves_def)
  then show ?thesis using assms(2) by (simp add: c)
qed

lemma ev_go: "evolves R w0 w \<Longrightarrow> evolves R w0 (go_routine j w)"
  by (simp add: evolves_def go_routine_def)

lemma ev_hub: "evolves R w0 w \<Longrightarrow> (\<And>h. hub_ok h \<Longrightarrow> hub_ok (f h)) \<Longrightarrow> evolves R w0 (on_hub f w)"
  by (simp add: evolves_def on_hub_def)

lemma ev_count: "evolves R w0 w \<Longrightarrow> op_ok m \<Longrightarrow> evolves R w0 (count_metric m w)"
  by (simp add: evolves_def counts_on_snoc)

lemmas ev_rules = ev_refl ev_db ev_rd ev_draw ev_go ev_hub ev_count

text \<open>A call whose law needs the guard, and one after which the guard is known.\<close>

lemma ev_call:
  assumes "evolves R w0 w" "R (w_db w) (snd (f (w_db w)))"
    "\<And>x d. f (w_db w) = (x, d) \<Longrightarrow> evolves R w0 (w\<lparr>w_db := d\<rparr>) \<Longrightarrow> evolves R w0 (snd (k x (w\<lparr>w_db := d\<rparr>)))"
  shows "evolves R w0 (snd (case on_db f w of (x, w1) \<Rightarrow> k x w1))"
proof -
  obtain x d where f: "f (w_db w) = (x, d)" by fastforce
  moreover have "evolves R w0 (w\<lparr>w_db := d\<rparr>)"
    using assms(1,2) f by (auto simp: evolves_def intro: R_trans)
  ultimately show ?thesis using assms(3) by (simp add: on_db_def)
qed

lemma DisconnectUser_ok: "hub_ok h \<Longrightarrow> hub_ok (DisconnectUser u h)"
  unfolding DisconnectUser_def by (rule fold_close_ok)

lemma SendMessageHandler_evolves:
  assumes "sv_users sv = us" "sv_msgs sv = ms" "guarded G r w"
  shows "evolves R w (snd (SendMessageHandler sv r w))"
proof -
  have create: "R d (snd (ms_CreateOrGetExisting ms (au_ID u) (UserID rcpt) b iv e c d))"
    if "CurrentUser r = Some u" "us_GetByUsername us n (w_db w) = (Inr rcpt, d)" for u n rcpt b iv e c d
    using that assms(3) guard_found(2) guard_kept(1) guarded_ops(5) unfolding guarded_def by blast
  show ?thesis
    unfolding SendMessageHandler_def assms(1,2) Let_def
    by (auto intro!: ev_refl ev_go ev_count ev_call ops create split: option.split sum.split)
qed

lemma MarkReadHandler_evolves:
  assumes "sv_users sv = us" "sv_msgs sv = ms"
  shows "evolves R w (snd (MarkReadHandler sv r w))"
  unfolding MarkReadHandler_def assms Let_def SendReadReceiptToUser_def
  by (auto intro!: ev_rules ops sendToUser_ok split: option.split sum.split)

lemma DeleteMessageHandler_evolves:
  assumes "sv_users sv = us" "sv_msgs sv = ms"
  shows "evolves R w (snd (DeleteMessageHandler sv r w))"
  unfolding DeleteMessageHandler_def assms Let_def
  by (auto intro!: ev_rules ops split: option.split sum.split)

lemma DeleteAccountHandler_evolves:
  assumes "sv_users sv = us" "sv_msgs sv = ms"
  shows "evolves R w (snd (DeleteAccountHandler sv r w))"
  unfolding DeleteAccountHandler_def assms Let_def
  by (auto intro!: ev_rules ops DisconnectUser_ok split: option.split sum.split)

lemma ListContactsHandler_evolves:
  assumes "sv_users sv = us" "sv_msgs sv = ms"
  shows "evolves R w (snd (ListContactsHandler sv r w))"
  unfolding ListContactsHandler_def assms Let_def
  by (auto intro!: ev_rules ops split: option.split sum.split)

lemma AddContactHandler_evolves:
  assumes "sv_users sv = us" "sv_msgs sv = ms" "guarded G r w"
  shows "evolves R w (snd (AddContactHandler sv r w))"
  unfolding AddContactHandler_def assms(1,2) Let_def
  using assms(3) by (auto simp: guarded_def intro!: ev_refl ev_call guarded_ops split: option.split sum.split)

lemma RemoveContactHandler_evolves:
  assumes "sv_users sv = us" "sv_msgs sv = ms"
  shows "evolves R w (snd (RemoveContactHandler sv r w))"
  unfolding RemoveContactHandler_def assms Let_def
  by (auto intro!: ev_rules ops split: option.split sum.split)

lemma ChangePasswordHandler_evolves:
  assumes "sv_users sv = us" "sv_msgs sv = ms" "guarded G r w"
  shows "evolves R w (snd (ChangePasswordHandler sv r w))"
proof -
  have update: "evolves R w (snd (case draw v of (salt, v2) \<Rightarrow> (case GenerateFromPassword (sv_bcrypt sv) salt p of
         None \<Rightarrow> (x, v2)
       | Some h \<Rightarrow> (case on_db (us_UpdatePassword us i h) v2 of (Inl _, v3) \<Rightarrow> (y, v3) | (Inr _, v3) \<Rightarrow> (z, v3)))))"
    if "evolves R w v" "G (w_db v) i" for v i p x y z
  proof -
    obtain e v2 where d: "draw v = (e, v2)" by fastforce
    then obtain es where v2: "v2 = v\<lparr>w_entropy := es\<rparr>" by (rule draw_cases)
    have "evolves R w v2" using that(1) unfolding v2 by (rule ev_same) simp_all
    moreover have "G (w_db v2) i" using that(2) v2 by simp
    ultimately show ?thesis
      by (auto simp: d intro!: ev_call guarded_ops(3) split: option.split sum.split)
  qed
  have kept: "G d (au_ID u)" if "CurrentUser r = Some u" "us_GetUserByUsername us n (w_db w) = (x, d)" for u n x d
    using that assms(3) guard_kept(2) unfolding guarded_def by blast
  show ?thesis
    unfolding ChangePasswordHandler_def assms(1,2) Let_def
    by (auto intro!: ev_refl ev_call ops update kept split: option.split sum.split)
qed

lemma UploadKeyHandler_evolves:
  assumes "sv_users sv = us" "sv_msgs sv = ms" "guarded G r w"
  shows "evolves R w (snd (UploadKeyHandler sv r w))"
  unfolding UploadKeyHandler_def assms(1,2) Let_def
  using assms(3) by (auto simp: guarded_def intro!: ev_refl ev_go ev_call guarded_ops split: option.split sum.split)

lemma GetKeyHandler_evolves:
  assumes "sv_users sv = us" "sv_msgs sv = ms"
  shows "evolves R w (snd (GetKeyHandler sv r w))"
  unfolding GetKeyHandler_def assms Let_def
  by (auto intro!: ev_rules ops split: option.split sum.split)

lemma InternalGetPushTokenHandler_evolves:
  assumes "sv_users sv = us" "sv_msgs sv = ms"
  shows "evolves R w (snd (InternalGetPushTokenHandler sv r w))"
  unfolding InternalGetPushTokenHandler_def assms Let_def
  by (auto intro!: ev_rules ops split: option.split sum.split)

lemma RegisterPushTokenHandler_evolves:
  assumes "sv_users sv = us" "sv_msgs sv = ms" "guarded G r w"
  shows "evolves R w (snd (RegisterPushTokenHandler sv r w))"
  unfolding RegisterPushTokenHandler_def assms(1,2) Let_def
  using assms(3) by (auto simp: guarded_def intro!: ev_refl ev_go ev_call guarded_ops split: option.split sum.split)

lemma AdminListInvitesHandler_evolves:
  assumes "sv_users sv = us" "sv_msgs sv = ms"
  shows "evolves R w (snd (AdminListInvitesHandler sv r w))"
  unfolding AdminListInvitesHandler_def assms Let_def
  by (auto intro!: ev_rules ops split: option.split sum.split)

lemma AdminResetInviteHandler_evolves:
  assumes "sv_users sv = us" "sv_msgs sv = ms"
  shows "evolves R w (snd (AdminResetInviteHandler sv r w))"
  unfolding AdminResetInviteHandler_def assms Let_def
  by (auto intro!: ev_rules ops split: option.split sum.split)

lemma ReadyHandler_evolves:
  assumes "sv_users sv = us" "sv_msgs sv = ms"
  shows "evolves R w (snd (ReadyHandler sv r w))"
  unfolding ReadyHandler_def assms Let_def
  by (auto intro!: ev_rules ops split: option.split sum.split)

text \<open>The others in steps: \<open>p\<close> is a part that is done before the rest \<open>k\<close>.\<close>

lemma ev_seq:
  assumes "evolves R w0 (snd p)" "\<And>x w1. evolves R w0 w1 \<Longrightarrow> evolves R w0 (snd (k x w1))"
  shows "evolves R w0 (snd (case p of (x, w1) \<Rightarrow> k x w1))"
  using assms by (cases p) simp

lemma ev_db_step:
  assumes "on_db f w = (x, w1)" "evolves R w0 w" "\<And>d. R d (snd (f d))"
  shows "evolves R w0 w1"
  using ev_db [OF assms(2,3), of "\<lambda>x w. (x, w)"] by (simp add: assms(1))

lemma ev_db_only: "evolves R w0 w \<Longrightarrow> (\<And>d. R d (snd (f d))) \<Longrightarrow> evolves R w0 (snd (on_db f w))"
  using ev_db [of w0 w f "\<lambda>x w. (x, w)"] by simp

lemma ev_rd_only: "evolves R w0 w \<Longrightarrow> evolves R w0 (snd (on_rd f w))"
  using ev_rd [of w0 w "\<lambda>x w. (x, w)" f] by simp

lemma start_session_evolves: "evolves R w0 w \<Longrightarrow> evolves R w0 (snd (start_session sv u w))"
  unfolding start_session_def by (auto intro!: ev_rules split: option.split sum.split)

lemma idLimited_evolves: "evolves R w0 w \<Longrightarrow> evolves R w0 (snd (idLimited sv key w))"
  by (cases "idLimited sv key w") (auto simp: idLimited_def limited_def elim!: ev_same split: prod.splits)

lemma RegisterHandler_evolves:
  assumes "sv_users sv = us" "sv_msgs sv = ms"
  shows "evolves R w (snd (RegisterHandler sv r w))"
  unfolding RegisterHandler_def assms Let_def
  by (auto intro!: ev_rules ops start_session_evolves split: option.split sum.split)

lemma LoginHandler_evolves:
  assumes "sv_users sv = us" "sv_msgs sv = ms"
  shows "evolves R w (snd (LoginHandler sv r w))"
  unfolding LoginHandler_def assms Let_def
  by (auto intro!: ev_rules ops start_session_evolves split: option.split sum.split bool.split)
    (auto intro!: ev_seq idLimited_evolves ev_rules ev_db_only ops start_session_evolves split: option.split sum.split bool.split)

lemma RefreshHandler_evolves:
  assumes "sv_users sv = us" "sv_msgs sv = ms"
  shows "evolves R w (snd (RefreshHandler sv r w))"
proof -
  have "evolves R w (snd (refresh_lookup sv r w))"
    unfolding refresh_lookup_def assms by (auto intro!: ev_rules ops split: option.split sum.split)
  moreover have "evolves R w (snd (refresh_rotate sv rt user w1))" if "evolves R w w1" for rt user w1
    unfolding refresh_rotate_def using that by (auto intro!: ev_rules split: option.split sum.split)
  ultimately show ?thesis
    unfolding RefreshHandler_def by (auto intro!: ev_seq split: sum.split)
qed

lemma LogoutHandler_evolves: "evolves R w (snd (LogoutHandler sv r w))"
  unfolding LogoutHandler_def by (auto intro!: ev_refl ev_rd_only split: option.split)

lemma ListUsersHandler_evolves:
  assumes "sv_users sv = us" "sv_msgs sv = ms"
  shows "evolves R w (snd (ListUsersHandler sv r w))"
  unfolding ListUsersHandler_def assms Let_def
  by (rule ev_seq) (auto intro!: ev_refl ev_db_only ops split: sum.split)

lemma ListMessagesHandler_evolves:
  assumes "sv_users sv = us" "sv_msgs sv = ms"
  shows "evolves R w (snd (ListMessagesHandler sv r w))"
  unfolding ListMessagesHandler_def assms Let_def
  by (auto intro!: ev_rules ops split: option.split sum.split)

lemma draw_symbols_evolves: "evolves R w0 w \<Longrightarrow> evolves R w0 (snd (draw_symbols n w))"
proof (induction n arbitrary: w)
  case (Suc n)
  have "evolves R w0 (snd (draw_symbol w))"
    unfolding draw_symbol_def using Suc.prems by (rule ev_draw) (auto split: option.split list.split)
  then show ?case unfolding draw_symbols.simps
    by (rule ev_seq) (auto intro!: ev_seq Suc.IH split: option.split)
qed simp

lemma AdminCreateInviteHandler_evolves:
  assumes "sv_users sv = us" "sv_msgs sv = ms"
  shows "evolves R w (snd (AdminCreateInviteHandler sv r w))"
proof -
  have code: "evolves R w (snd (randomCode c w))" for c
    unfolding randomCode_def by (rule ev_seq) (auto intro: draw_symbols_evolves ev_refl)
  show ?thesis
    unfolding AdminCreateInviteHandler_def assms Let_def
    by (auto intro!: ev_refl code ev_seq ev_db_only ops split: option.split sum.split)
qed

lemma WSTicketRoute_evolves: "evolves R w (snd (WSTicketRoute sv r w))"
  unfolding WSTicketRoute_def by (auto intro!: ev_draw ev_rd_only ev_refl)

lemma WebSocketHandler_evolves:
  assumes "sv_users sv = us" "sv_msgs sv = ms" "clients (w_hub w) i = None"
  shows "evolves R w (snd (WebSocketHandler sv hs check i r w))"
proof -
  have add: "evolves R w (on_hub (addClient i (new_client u)) w)" for u
    using addClient_ok [of "w_hub w" i "new_client u"] assms(3) R_refl
    by (simp add: evolves_def on_hub_def client_ok_def new_client_def)
  have snap: "evolves R w (on_hub (fold (\<lambda>ev. enqueueDropSlow (PresenceFrame ev) i) evs) v)" if "evolves R w v" for evs v
    using that
  proof (rule ev_hub)
    show "hub_ok h \<Longrightarrow> hub_ok (fold (\<lambda>ev. enqueueDropSlow (PresenceFrame ev) i) evs h)" for h :: "'l hub"
      using fold_enqueue_one [of h i "map PresenceFrame evs"] unfolding fold_map comp_def by blast
  qed
  have unread: "evolves R w (deliver_unread sv u n v)" if prem: "evolves R w v" for u n v
  proof -
    have hub: "hub_ok (fold (SendMessageToUser u) xs h)" if "hub_ok h" for xs and h :: "'l hub"
      using that by (induction xs arbitrary: h) (simp_all add: SendMessageToUser_def sendToUser_ok)
    obtain res v1 where g: "on_db (ms_GetUnreadForUser ms u n) v = (res, v1)" by fastforce
    from ev_db_step [OF g prem message_ops(4)] have "evolves R w v1" .
    then show ?thesis
      using prem hub by (cases res) (auto simp: deliver_unread_def assms(2) g intro: ev_hub)
  qed
  show ?thesis
    unfolding WebSocketHandler_def assms Let_def
    by (auto intro!: ev_refl ev_count ev_seq ev_db_only ev_rd_only ops add snap unread split: option.split)
qed

lemma run_job_evolves:
  assumes "sv_users sv = us"
  shows "evolves R w (run_job sv j w)"
proof (cases j)
  case (JobKeyChanged u n)
  have hub: "hub_ok (fold (\<lambda>x. SendKeyChangedToUser x n) ids h)" if "hub_ok h" for ids and h :: "'l hub"
    using that by (induction ids arbitrary: h) (simp_all add: SendKeyChangedToUser_def sendToUser_ok)
  obtain res w1 where g: "on_db (us_GetContactFollowerIDs us u) w = (res, w1)" by fastforce
  from ev_db_step [OF g ev_refl contact_ops(4)] have "evolves R w w1" .
  with JobKeyChanged show ?thesis by (cases res) (auto simp: assms g intro: ev_hub hub)
next
  case (JobPublishCreated ev)
  obtain res w1 where g: "on_rd (PublishMessageCreated (sv_redis sv) ev) w = (res, w1)" by fastforce
  then have "evolves R w w1" using ev_rd_only [OF ev_refl, of w "PublishMessageCreated (sv_redis sv) ev"] by simp
  with JobPublishCreated show ?thesis by (cases res) (auto simp: g intro: ev_count)
qed (auto intro: ev_rd_only ev_refl)

lemma message_step_evolves:
  assumes "sv_msgs sv = ms"
  shows "evolves R w (message_subscriber_step sv msg w)"
proof -
  have created: "evolves R w (case on_db (ms_GetByID ms i) w of (Inl _, w1) \<Rightarrow> w1
     | (Inr m, w1) \<Rightarrow> on_hub (SendMessageToUser (RecipientID m) m) (on_hub (SendMessageToUser (SenderID m) m) w1))" for i
  proof -
    obtain res w1 where g: "on_db (ms_GetByID ms i) w = (res, w1)" by fastforce
    from ev_db_step [OF g ev_refl message_ops(1)] have "evolves R w w1" .
    then show ?thesis by (cases res) (auto simp: g SendMessageToUser_def intro!: ev_hub sendToUser_ok)
  qed
  have deleted: "evolves R w (on_hub (SendMessageDeletedToUsers s p m) w)" for s p m
    using ev_refl by (rule ev_hub) (simp add: SendMessageDeletedToUsers_def sendToUser_ok Let_def)
  show ?thesis
    unfolding message_subscriber_step_def assms by (auto intro!: ev_refl created deleted split: option.split)
qed

lemma presence_step_evolves:
  assumes "sv_users sv = us"
  shows "evolves R w (presence_subscriber_step sv v w)"
proof (cases "decode_presence v")
  case None
  then show ?thesis by (simp add: presence_subscriber_step_def ev_refl)
next
  case (Some ev)
  have hub: "hub_ok (fold (\<lambda>x. sendToUser x f) ids h)" if "hub_ok h" for f ids and h :: "'l hub"
    using that by (induction ids arbitrary: h) (simp_all add: sendToUser_ok)
  obtain res w1 where g: "on_db (us_GetContactFollowerIDs us (pe_UserID ev)) w = (res, w1)" by fastforce
  from ev_db_step [OF g ev_refl contact_ops(4)] have "evolves R w w1" .
  with Some show ?thesis by (cases res) (auto simp: presence_subscriber_step_def assms g intro: ev_hub hub)
qed

lemma read_message_evolves:
  assumes "sv_users sv = us" "evolves R w0 w"
  shows "evolves R w0 (read_message sv u n v w)"
proof -
  have typing: "evolves R w0 (case on_db (us_GetUserByUsername us to) v of (Inl _, w1) \<Rightarrow> w1
     | (Inr t, w1) \<Rightarrow> (case on_db (us_IsContact us u (UserID t)) w1 of (Inl _, w2) \<Rightarrow> w2
     | (Inr ok, w2) \<Rightarrow> if \<not> ok then w2 else on_hub (SendTypingToUser n (UserID t) (Username t) b) w2))" if "evolves R w0 v" for to b v
  proof -
    obtain res w1 where g: "on_db (us_GetUserByUsername us to) v = (res, w1)" by fastforce
    note 1 = ev_db_step [OF g that accounts_ops(2)]
    show ?thesis
    proof (cases res)
      case (Inr t)
      obtain ok w2 where c: "on_db (us_IsContact us u (UserID t)) w1 = (ok, w2)" by fastforce
      from ev_db_step [OF c 1 contact_ops(2)] Inr show ?thesis
        by (cases ok) (auto simp: g c SendTypingToUser_def intro!: ev_hub sendToUser_ok)
    qed (use 1 g in simp)
  qed
  show ?thesis
    unfolding read_message_def assms(1) Let_def by (auto intro!: assms(2) typing ev_count split: option.split)
qed

lemma read_step_evolves:
  assumes "sv_users sv = us"
  shows "evolves R w (snd (read_step sv i u n input w))"
proof -
  obtain ok h where a: "user_allow (sv_limits sv) (w_now w) u (w_hub w) = (ok, h)" by fastforce
  have ok: "hub_ok h = hub_ok (w_hub w)" by (rule user_allow_clients(5) [OF a])
  then have h: "evolves R w (w\<lparr>w_hub := h\<rparr>)" by (simp add: evolves_def R_refl)
  have "evolves R w (count_metric m (w\<lparr>w_hub := update_client i (closeWith k r) h\<rparr>))" if "op_ok m" for m k r
    using ok hub_ok_update [of h "closeWith k r" i] closeWith_ok that by (simp add: evolves_def R_refl counts_on_snoc)
  then show ?thesis
    using h read_message_evolves [OF assms h]
    by (cases ok; cases input) (auto simp: read_step_def a ev_refl split: option.split)
qed

lemma read_exit_evolves: "evolves R w (read_exit sv i u n w)"
  unfolding read_exit_def
proof (rule ev_hub, rule ev_rd_only, rule ev_hub, rule ev_count, rule ev_refl, rule counted_ok)
  show "hub_ok h \<Longrightarrow> hub_ok (removeClient i u h)" for h :: "'l hub" by (rule removeClient_ok)
  show "hub_ok h \<Longrightarrow> hub_ok (update_client i client_close h)" for h :: "'l hub"
    by (rule hub_ok_update) (simp_all add: client_close_def [abs_def] closeWith_ok)
qed

section \<open>Through the router\<close>

text \<open>What the guards do before the handler leaves the hub alone, and the database evolves.\<close>

lemma ev_limiters [simp]:
  "evolves R w0 (w\<lparr>w_ipLimiter := l\<rparr>) = evolves R w0 w" "evolves R w0 (w\<lparr>w_userLimiter := l\<rparr>) = evolves R w0 w"
  by (simp_all add: evolves_def)

lemma ip_limit_evolves:
  assumes "evolves R w0 w" "\<And>w1. w_hub w1 = w_hub w \<Longrightarrow> evolves R w0 w1 \<Longrightarrow> evolves R w0 (snd (h r w1))"
  shows "evolves R w0 (snd (ip_limit sv h r w))"
  using assms by (auto simp: ip_limit_def LoginIPRateLimit_def limited_def split: prod.split bool.split)

lemma user_limit_evolves:
  assumes "evolves R w0 w"
    "\<And>w1. w_hub w1 = w_hub w \<Longrightarrow> w_db w1 = w_db w \<Longrightarrow> evolves R w0 w1 \<Longrightarrow> evolves R w0 (snd (h r w1))"
  shows "evolves R w0 (snd (user_limit sv h r w))"
  using assms by (auto simp: user_limit_def PerUserRateLimit_def limited_def split: prod.split bool.split option.split)

lemma look_up_evolves:
  assumes "evolves R w0 w"
    "\<And>w1. w_hub w1 = w_hub w \<Longrightarrow> G (w_db w1) i \<Longrightarrow> evolves R w0 w1 \<Longrightarrow> evolves R w0 (snd (h w1))"
  shows "evolves R w0 (snd (case on_db (us_GetUserByID us i) w of (Inl e, w1) \<Rightarrow> (resp e, w1) | (Inr _, w1) \<Rightarrow> h w1))"
proof -
  obtain res w1 where g: "on_db (us_GetUserByID us i) w = (res, w1)" by fastforce
  then obtain d where d: "us_GetUserByID us i (w_db w) = (res, d)" "w1 = w\<lparr>w_db := d\<rparr>" by (rule on_db_cases)
  with ev_db_step [OF g assms(1) accounts_ops(4)] assms(2) guard_found(1) show ?thesis by (cases res) (auto simp: g)
qed

lemma AuthMiddleware_evolves:
  assumes "sv_users sv = us" "evolves R w0 w" "rq_method r \<noteq> ''OPTIONS''"
    and "\<And>r1 w1. w_hub w1 = w_hub w \<Longrightarrow> guarded G r1 w1 \<Longrightarrow> evolves R w0 w1 \<Longrightarrow> evolves R w0 (snd (h r1 w1))"
  shows "evolves R w0 (snd (AuthMiddleware sv h r w))"
  unfolding AuthMiddleware_def Let_def assms(1)
  using assms(2-4) by (auto simp: guarded_def CurrentUser_def intro!: look_up_evolves split: option.split)

lemma WSAuthMiddleware_evolves:
  assumes "sv_users sv = us" "evolves R w0 w"
    and "\<And>r1 w1. w_hub w1 = w_hub w \<Longrightarrow> evolves R w0 w1 \<Longrightarrow> evolves R w0 (snd (h r1 w1))"
  shows "evolves R w0 (snd (WSAuthMiddleware sv h r w))"
proof -
  obtain tu w1 where t: "on_rd (redeem_ticket (sv_redis sv) (lookup ''ticket'' (rq_query r))) w = (tu, w1)" by fastforce
  then have w1: "w_hub w1 = w_hub w" "evolves R w0 w1" using assms(2) by (auto elim!: on_rd_cases simp: evolves_def)
  have pair: "(if b then (x, v) else (y, v)) = (if b then x else y, v)" for b and x y :: response and v :: "('d, 's, 'l) world"
    by simp
  have "evolves R w0 (snd (case on_db (us_GetUserByID us i) w1 of
      (Inl err, w2) \<Rightarrow> (if errors_Is err ErrUserNotFound then (x, w2) else (y, w2)) | (Inr _, w2) \<Rightarrow> h r1 w2))" for i x y r1
    using look_up_evolves [where i = i and h = "h r1" and resp = "\<lambda>err. if errors_Is err ErrUserNotFound then x else y", OF w1(2)]
      w1(1) assms(3) unfolding pair by simp
  then show ?thesis
    unfolding WSAuthMiddleware_def t prod.case assms(1) using w1(2) by (auto split: option.split)
qed

lemma guard_evolves:
  assumes "sv_users sv = us" "evolves R w0 w" "rq_method r \<noteq> ''OPTIONS''"
    and "\<And>r1 w1. w_hub w1 = w_hub w \<Longrightarrow> (c = Protected \<longrightarrow> guarded G r1 w1) \<Longrightarrow> evolves R w0 w1 \<Longrightarrow>
      evolves R w0 (snd (h r1 w1))"
  shows "evolves R w0 (snd (guard sv cfg c h r w))"
  using assms
  by (cases c)
    (auto intro!: ip_limit_evolves user_limit_evolves AuthMiddleware_evolves WSAuthMiddleware_evolves
      simp: guarded_def InternalServiceAuth_def AdminOnly_def split: option.split)

lemma ev_trans: "evolves R w0 w1 \<Longrightarrow> evolves R w1 w2 \<Longrightarrow> evolves R w0 w2"
  by (auto simp: evolves_def intro: R_trans counts_on_trans)

lemmas handlers_evolve =
  RegisterHandler_evolves LoginHandler_evolves RefreshHandler_evolves ListUsersHandler_evolves
  ListMessagesHandler_evolves MarkReadHandler_evolves
  DeleteMessageHandler_evolves ListContactsHandler_evolves RemoveContactHandler_evolves
  DeleteAccountHandler_evolves AdminListInvitesHandler_evolves AdminCreateInviteHandler_evolves
  AdminResetInviteHandler_evolves GetKeyHandler_evolves InternalGetPushTokenHandler_evolves ReadyHandler_evolves

lemmas guarded_handlers_evolve =
  ChangePasswordHandler_evolves SendMessageHandler_evolves AddContactHandler_evolves UploadKeyHandler_evolves
  RegisterPushTokenHandler_evolves

lemma guarded_body [simp]: "guarded G (r\<lparr>rq_body := b\<rparr>) w = guarded G r w"
  by (simp add: guarded_def CurrentUser_def)

lemma endpoint_evolves:
  assumes "sv_users sv = us" "sv_msgs sv = ms" "clients (w_hub w) i = None" "\<And>r w. snd (rl_metrics lib r w) = w"
    "access p = Protected \<longrightarrow> guarded G r w"
  shows "evolves R w (snd (endpoint sv cfg lib i p r w))"
  using WebSocketHandler_evolves [OF assms(1-3)]
  using assms(5)
  by (cases p) (simp_all add: handlers_evolve [OF assms(1,2)] guarded_handlers_evolve [OF assms(1,2)] LogoutHandler_evolves WSTicketRoute_evolves
      MaxBodyBytes_def HealthHandler_def LiveHandler_def ev_refl assms(4))

lemma NewRouter_evolves:
  assumes "sv_users sv = us" "sv_msgs sv = ms" "clients (w_hub w) i = None" "\<And>r w. snd (rl_metrics lib r w) = w"
  shows "evolves R w (snd (NewRouter sv cfg lib i r w))"
proof (cases "rl_mux lib routes r")
  case (Inl resp)
  then show ?thesis by (simp add: NewRouter_def serve_with_def ev_refl)
next
  case (Inr pv)
  obtain p vars where pv: "pv = (p, vars)" by fastforce
  let ?h = "guard sv cfg (access p) (endpoint sv cfg lib i p)"
  let ?log = "\<lambda>rid r w. fst (AccessLogAndMetrics (route_template p) (rl_tls lib r) rid ?h r w)"
  have guarded: "evolves R w (snd (?h r1 w1))" if "evolves R w w1" "rq_method r1 \<noteq> ''OPTIONS''" "w_hub w1 = w_hub w" for r1 w1
  proof (rule guard_evolves [OF assms(1) that(1,2)])
    fix r2 w2
    assume "w_hub w2 = w_hub w1" and g: "access p = Protected \<longrightarrow> guarded G r2 w2" and e: "evolves R w w2"
    with assms(3) that(3) have "clients (w_hub w2) i = None" by simp
    from ev_trans [OF e endpoint_evolves [OF assms(1,2) this assms(4) g]]
    show "evolves R w (snd (endpoint sv cfg lib i p r2 w2))" .
  qed
  have logged: "snd (?log rid r1 w1) = snd (?h r1 w1)" for rid r1 w1
    by (simp add: AccessLogAndMetrics_def Let_def split: prod.split)
  obtain resp w' where run: "NewRouter sv cfg lib i r w = (resp, w')" by fastforce
  then have "RequestID (rl_uuid lib) (\<lambda>rid. CORSMiddleware (rc_allowedOrigins cfg) (?log rid)) (r\<lparr>rq_vars := vars\<rparr>) w = (resp, w')"
    by (simp add: NewRouter_def serve_with_def Inr pv)
  then have "evolves R w w'"
  proof (rule RequestID_runs)
    fix es rid resp1
    let ?w = "w\<lparr>w_entropy := es\<rparr>"
    assume c: "CORSMiddleware (rc_allowedOrigins cfg) (?log rid) (r\<lparr>rq_vars := vars\<rparr>) ?w = (resp1, w')"
    have e: "evolves R w ?w" by (rule ev_same [OF ev_refl]) simp_all
    show "evolves R w w'"
    proof (cases "rq_method r = ''OPTIONS''")
      case True
      with CORS_runs [OF c] e show ?thesis by simp
    next
      case False
      with CORS_runs [OF c] have "w' = snd (?log rid (r\<lparr>rq_vars := vars\<rparr>) ?w)" by (auto dest: arg_cong [of _ _ snd])
      with guarded [OF e] False show ?thesis by (simp only: logged) simp
    qed
  qed (auto intro: ev_same [OF ev_refl])
  with run show ?thesis by simp
qed

end

section \<open>One instance of the server\<close>

text \<open>
  What one instance does by itself: a request, a goroutine that runs, an event on one of the two
  Redis channels, a turn of a read pump and its end, a write pump that takes frames, a client that
  closes, the shutdown of the hub, and fresh random bytes.
\<close>

inductive instance_step ::
  "('d, 's, 'l) server \<Rightarrow> router_config \<Rightarrow> ('d, 's, 'l) world router_lib \<Rightarrow> ('d, 's, 'l) world \<Rightarrow> ('d, 's, 'l) world \<Rightarrow> bool"
  for sv cfg lib where
  request: "clients (w_hub w) i = None \<Longrightarrow> instance_step sv cfg lib w (snd (NewRouter sv cfg lib i r w))"
| goroutine: "j \<in> set (w_jobs w) \<Longrightarrow>
    instance_step sv cfg lib w (run_job sv j (w\<lparr>w_jobs := remove1 j (w_jobs w)\<rparr>))"
| message: "instance_step sv cfg lib w (message_subscriber_step sv msg w)"
| presence: "instance_step sv cfg lib w (presence_subscriber_step sv v w)"
| reads: "instance_step sv cfg lib w (snd (read_step sv i u n input w))"
| disconnects: "instance_step sv cfg lib w (read_exit sv i u n w)"
| writes: "instance_step sv cfg lib w (on_hub (update_client i (\<lambda>c. c\<lparr>cl_send := drop k (cl_send c)\<rparr>)) w)"
| closes: "instance_step sv cfg lib w (on_hub (update_client i client_close) w)"
| shutdown: "instance_step sv cfg lib w (on_hub (CloseAll reason) w)"
| entropy: "instance_step sv cfg lib w (w\<lparr>w_entropy := es\<rparr>)"

context evolving_stores begin

lemma instance_step_evolves:
  assumes "sv_users sv = us" "sv_msgs sv = ms" "\<And>r w. snd (rl_metrics lib r w) = w" "instance_step sv cfg lib w w'"
  shows "evolves R w w'"
  using assms(4)
proof (cases rule: instance_step.cases)
  case (request i r)
  show ?thesis unfolding request(1) by (rule NewRouter_evolves [OF assms(1,2) request(2) assms(3)])
next
  case (goroutine j)
  have "evolves R (w\<lparr>w_jobs := remove1 j (w_jobs w)\<rparr>) w'"
    unfolding goroutine(1) by (rule run_job_evolves [OF assms(1)])
  then show ?thesis by (simp add: evolves_def)
next
  case (message msg)
  show ?thesis unfolding message by (rule message_step_evolves [OF assms(2)])
next
  case (presence v)
  show ?thesis unfolding presence by (rule presence_step_evolves [OF assms(1)])
next
  case (reads i u n input)
  show ?thesis unfolding reads by (rule read_step_evolves [OF assms(1)])
next
  case (disconnects i u n)
  show ?thesis unfolding disconnects by (rule read_exit_evolves)
next
  case (writes i k)
  have "hub_ok h \<Longrightarrow> hub_ok (update_client i (\<lambda>c. c\<lparr>cl_send := drop k (cl_send c)\<rparr>) h)" for h :: "'c hub"
    by (rule hub_ok_update) (auto simp: client_ok_def)
  then show ?thesis unfolding writes by (rule ev_hub [OF ev_refl])
next
  case (closes i)
  have "hub_ok h \<Longrightarrow> hub_ok (update_client i client_close h)" for h :: "'c hub"
    by (rule hub_ok_update) (simp_all add: client_close_def [abs_def] closeWith_ok)
  then show ?thesis unfolding closes by (rule ev_hub [OF ev_refl])
next
  case (shutdown reason)
  have "hub_ok h \<Longrightarrow> hub_ok (CloseAll reason h)" for h :: "'c hub"
    unfolding CloseAll_def by (rule fold_close_ok)
  then show ?thesis unfolding shutdown by (rule ev_hub [OF ev_refl])
next
  case (entropy es)
  then show ?thesis by (auto intro: ev_same [OF ev_refl])
qed

end

text \<open>The PostgreSQL stores and their histories.\<close>

lemma history_step: "(\<And>r d'. f d = (r, d') \<Longrightarrow> store_step d d') \<Longrightarrow> store_history d (snd (f d))"
  by (cases "f d") auto

lemma history_read: "agree d (snd (f d)) \<Longrightarrow> store_history d (snd (f d))"
  by (rule r_into_rtranclp) (rule store_step.read)

lemma write_histories:
  "store_history d (snd (RegisterWithInvite c n h d))" "store_history d (snd (SetPublicKey i k d))"
  "store_history d (snd (SetPushToken i k d))" "store_history d (snd (UpdatePassword i h d))"
  "store_history d (snd (DeleteAccountGDPR i t d))" "store_history d (snd (AdminCreateInvite c n ex d))"
  "store_history d (snd (AdminResetInvite c d))" "store_history d (snd (AddContact i n d))"
  "store_history d (snd (RemoveContact i n d))" "store_history d (snd (CreateOrGetExisting i j b iv e c d))"
  "store_history d (snd (MarkRead i j d))" "store_history d (snd (SoftDelete i j d))"
  by (rule history_step, erule store_step.register store_step.public_key store_step.push_token store_step.password
      store_step.erase store_step.create_invite store_step.reset_invite store_step.add_contact
      store_step.remove_contact store_step.send store_step.mark store_step.delete)+

interpretation pg_runs: evolving_stores "pg_user_store ilike collate" pg_message_store store_history "\<lambda>_ _. True"
  by unfold_locales
    (simp_all add: pg_user_store_def pg_message_store_def write_histories history_read user_reads_agree message_reads_agree)

section \<open>A running server\<close>

text \<open>
  An instance among others that may do anything to the shared database and Redis, and time. The
  steps of the instance are whole requests and goroutines; what \<open>Hub_Race\<close> shows to be possible
  within them is an event of its own: a sender that found a client open before it was closed sends
  on the closed channel and panics. Where nothing recovers the panic the process, and with it the
  run, ends there; after a recovered one the run goes on.
\<close>

inductive server_step ::
  "(db, 's, 'l) server \<Rightarrow> router_config \<Rightarrow> (db, 's, 'l) world router_lib \<Rightarrow> (db, 's, 'l) world \<Rightarrow> (db, 's, 'l) world \<Rightarrow> bool"
  for sv cfg lib where
  own: "instance_step sv cfg lib w w' \<Longrightarrow> server_step sv cfg lib w w'"
| stray_send: "clients (w_hub w) i = Some c \<Longrightarrow> cl_sendClosed c \<Longrightarrow>
    server_step sv cfg lib w (on_hub (\<lambda>h. h\<lparr>panicked := True\<rparr>) w)"
| other_instances: "store_history (w_db w) d \<Longrightarrow> server_step sv cfg lib w (w\<lparr>w_db := d, w_rd := s\<rparr>)"
| time: "0 \<le> dt \<Longrightarrow> server_step sv cfg lib w
    (w\<lparr>w_now := w_now w + dt, w_db := (w_db w)\<lparr>clock := clock (w_db w) + dt\<rparr>\<rparr>)"

lemma server_step_evolves:
  assumes "sv_users sv = pg_user_store ilike collate" "sv_msgs sv = pg_message_store"
    "\<And>r w. snd (rl_metrics lib r w) = w" "server_step sv cfg lib w w'"
  shows "evolves store_history w w'"
  using assms(4)
proof (cases rule: server_step.cases)
  case own
  then show ?thesis by (rule pg_runs.instance_step_evolves [OF assms(1-3)])
next
  case (stray_send i c)
  then show ?thesis by (simp add: evolves_def on_hub_def hub_ok_def)
next
  case (other_instances d s)
  then show ?thesis by (simp add: evolves_def)
next
  case (time dt)
  then show ?thesis by (auto simp: evolves_def intro: store_step.tick)
qed

text \<open>
  C14: what no run of the server can break. From a consistent database and hub, after any number of
  requests to any route with any contents, goroutines, events of the two Redis channels, turns of
  read pumps, disconnections, a shutdown, whatever other instances do to the database, failing
  statements and the passing of time, in any order, each of them as one step, and after sends that
  panic because they raced a close: the schema's constraints hold, the maps of the hub and its
  clients are consistent, an account that was erased stays erased, a live account keeps its id and
  name, and the counters have only got calls the client library accepts (none of them panics on
  its labels), so that none has fallen. Nothing is claimed about the absence of the panics.
\<close>

theorem server_keeps_invariants:
  assumes "sv_users sv = pg_user_store ilike collate" "sv_msgs sv = pg_message_store"
    "\<And>r w. snd (rl_metrics lib r w) = w" "db_ok (w_db w)" "hub_ok (w_hub w)"
    "(server_step sv cfg lib)\<^sup>*\<^sup>* w w'"
  shows "db_ok (w_db w') \<and> hub_ok (w_hub w') \<and> known_ids (w_db w) \<subseteq> known_ids (w_db w') \<and>
    (\<forall>i \<in> known_ids (w_db w). live_account (w_db w) i = None \<longrightarrow> live_account (w_db w') i = None) \<and>
    (\<forall>i u u'. live_account (w_db w) i = Some u \<longrightarrow> live_account (w_db w') i = Some u' \<longrightarrow> Username u' = Username u) \<and>
    counts_on (w_metrics w) (w_metrics w') \<and>
    (\<forall>c ls. co_kind c = Counter \<longrightarrow> series_value c ls (w_metrics w) \<le> series_value c ls (w_metrics w'))"
proof -
  from assms(6) have "evolves store_history w w'"
  proof (induction rule: rtranclp_induct)
    case base
    show ?case by (rule pg_runs.ev_refl)
  next
    case (step w1 w2)
    from pg_runs.ev_trans [OF step(3) server_step_evolves [OF assms(1-3) step(2)]] show ?case .
  qed
  then have h: "store_history (w_db w) (w_db w')" and hub: "hub_ok (w_hub w')"
    and counts: "counts_on (w_metrics w) (w_metrics w')" using assms(5) by (simp_all add: evolves_def)
  have "series_value c ls (w_metrics w) \<le> series_value c ls (w_metrics w')" if "co_kind c = Counter" for c ls
    using counts counter_monotone [OF _ that] by (auto simp: counts_on_def)
  then show ?thesis using history_keeps_accounts [OF assms(4) h] hub counts by blast
qed

text \<open>The shutdown that closes all clients, and a send that raced it.\<close>

theorem server_keeps_invariants_witness:
  "\<exists>w'. (server_step demo_server demo_config (demo_lib RContacts))\<^sup>*\<^sup>* erase_world w' \<and>
     panicked (w_hub w') \<and> db_ok (w_db w') \<and> hub_ok (w_hub w')"
proof -
  let ?step = "server_step demo_server demo_config (demo_lib RContacts)"
  have pre: "db_ok (w_db erase_world)" "hub_ok (w_hub erase_world)"
    by (simp_all add: erase_world_def hub_ok_demo)
  have metrics: "snd (rl_metrics (demo_lib RContacts) r w) = w" for r w by (simp add: demo_lib_def)
  let ?w0 = "on_hub (CloseAll ''bye'') erase_world"
  have bye: "?step erase_world ?w0" by (intro server_step.own instance_step.shutdown)
  have cl: "\<exists>c. clients (w_hub ?w0) 30 = Some c \<and> cl_sendClosed c"
    by (simp add: on_hub_def erase_world_def demo_hub_def CloseAll_def all_clients_def addClient_def NewHub_def user_clients_def
        Let_def demo_client_def closeWith_def)
  then obtain c where c: "clients (w_hub ?w0) 30 = Some c" "cl_sendClosed c" by blast
  let ?w' = "on_hub (\<lambda>h. h\<lparr>panicked := True\<rparr>) ?w0"
  have "?step ?w0 ?w'" by (rule server_step.stray_send [OF c])
  with bye have run: "?step\<^sup>*\<^sup>* erase_world ?w'" by (rule converse_rtranclp_into_rtranclp [OF _ r_into_rtranclp])
  moreover have "panicked (w_hub ?w')" by (simp add: on_hub_def)
  ultimately show ?thesis
    using server_keeps_invariants [OF demo_server_simps(1,2) metrics pre(1,2) run] by blast
qed

end
