(* ===== verification/Notifier.thy ===== *)
theory Notifier
  imports Router
begin

text \<open>
  The notification service (\<open>notification-service/internal/notifier\<close>): for every message that the
  server announced on Redis it asks whether the recipient is connected anywhere, fetches a push
  token from the server and tries to deliver, with retries. The HTTP transport to the server and
  the push backend behind \<open>deliver\<close> are parameters; the trace is in \<open>Tracing\<close>, the duration histogram
  is left out.
\<close>

section \<open>Delivery with retries\<close>

definition maxAttempts :: nat where "maxAttempts = 3"

definition initialBackoff :: time where "initialBackoff = second"

datatype delivery = Delivered | CtxErr | Exhausted

text \<open>
  \<open>deliver n\<close> says whether the n-th attempt succeeds, \<open>ctx_done n\<close> whether the context ends before
  the wait after it does. The result is what the loop returns, with the attempts made and the
  waits that were completed.
\<close>

function deliver_loop ::
  "(nat \<Rightarrow> bool) \<Rightarrow> (nat \<Rightarrow> bool) \<Rightarrow> nat \<Rightarrow> time \<Rightarrow> time list \<Rightarrow> delivery \<times> nat \<times> time list" where
  "deliver_loop deliver ctx_done attempt backoff waits =
     (if attempt > maxAttempts then (Exhausted, attempt - 1, waits)
      else if deliver attempt then (Delivered, attempt, waits)
      else if attempt = maxAttempts then (Exhausted, attempt, waits)
      else if ctx_done attempt then (CtxErr, attempt, waits)
      else deliver_loop deliver ctx_done (attempt + 1) (backoff * 2) (waits @ [backoff]))"
  by pat_completeness auto

termination
  by (relation "measure (\<lambda>(deliver, ctx_done, attempt, backoff, waits). maxAttempts + 1 - attempt)") auto

declare deliver_loop.simps [simp del]

definition deliverWithRetry :: "(nat \<Rightarrow> bool) \<Rightarrow> (nat \<Rightarrow> bool) \<Rightarrow> delivery \<times> nat \<times> time list" where
  "deliverWithRetry deliver ctx_done = deliver_loop deliver ctx_done 1 initialBackoff []"

text \<open>The backend as it is: it fails only if the context is done within its five milliseconds.\<close>

definition deliver_stub :: "(nat \<Rightarrow> bool) \<Rightarrow> nat \<Rightarrow> bool" where
  "deliver_stub ctx_done_early n \<longleftrightarrow> \<not> ctx_done_early n"

section \<open>The client of the server's internal API\<close>

text \<open>
  \<open>http.NewRequestWithContext\<close> and \<open>http.Client.Do\<close> for a GET with headers: the error of either,
  or status and the body as the JSON value it starts with.
\<close>

datatype do_error = BuildFailed string | RequestFailed string

type_synonym 'n http_do = "string \<Rightarrow> (string \<times> string) list \<Rightarrow> 'n \<Rightarrow> (do_error + nat \<times> jv option) \<times> 'n"

record PushTokenClient =
  pc_serverURL :: string
  pc_secret :: string

definition push_token_url :: "PushTokenClient \<Rightarrow> int64 \<Rightarrow> string" where
  "push_token_url c userID = pc_serverURL c @ ''/internal/users/'' @ FormatInt userID @ ''/push-token''"

definition decode_push_token :: "jv option \<Rightarrow> string option" where
  "decode_push_token body =
     (case body of None \<Rightarrow> None | Some v \<Rightarrow>
        (case members v of None \<Rightarrow> None | Some ms \<Rightarrow> get_string ''pushToken'' ms))"

definition client_GetPushToken :: "PushTokenClient \<Rightarrow> 'n http_do \<Rightarrow> int64 \<Rightarrow> 'n \<Rightarrow> (string + string) \<times> 'n" where
  "client_GetPushToken c do_req userID n =
     (case do_req (push_token_url c userID) [(''X-Service-Secret'', pc_secret c)] n of
        (Inl (BuildFailed e), n1) \<Rightarrow> (Inl (''build request: '' @ e), n1)
      | (Inl (RequestFailed e), n1) \<Rightarrow> (Inl (''request failed: '' @ e), n1)
      | (Inr (status, body), n1) \<Rightarrow>
          if status = 404 then (Inr [], n1)
          else if status \<noteq> 200 then (Inl (''server returned '' @ FormatInt (int status)), n1)
          else case decode_push_token body of
                 None \<Rightarrow> (Inl ''decode response: invalid'', n1)
               | Some t \<Rightarrow> (Inr t, n1))"

section \<open>Handling an event\<close>

record counters =
  ct_sent :: nat
  ct_skipped :: nat
  ct_errors :: nat

definition isOnline :: "'s redis \<Rightarrow> int64 \<Rightarrow> 's \<Rightarrow> (string + bool) \<times> 's" where
  "isOnline R userID s =
     (case rd_Get R (''presence:conns:'' @ FormatInt userID) s of
        (Inl RedisNil, s1) \<Rightarrow> (Inr False, s1)
      | (Inl (RedisErr e), s1) \<Rightarrow> (Inl e, s1)
      | (Inr v, s1) \<Rightarrow> (case parse_int64 v of Inl _ \<Rightarrow> (Inl ''invalid integer'', s1) | Inr n \<Rightarrow> (Inr (n > 0), s1)))"

text \<open>
  \<open>handle\<close>; \<open>deliver t n\<close> is the backend's n-th attempt with token \<open>t\<close>. The last component of the
  result is the token a delivery succeeded with.
\<close>

definition handle ::
  "'s redis \<Rightarrow> PushTokenClient \<Rightarrow> 'n http_do \<Rightarrow> (string \<Rightarrow> nat \<Rightarrow> bool) \<Rightarrow> (nat \<Rightarrow> bool) \<Rightarrow> MessageCreatedEvent \<Rightarrow>
   's \<times> 'n \<times> counters \<Rightarrow> ('s \<times> 'n \<times> counters) \<times> string option" where
  "handle R c do_req deliver ctx_done ev st =
     (case st of (s, n, ct) \<Rightarrow>
     (case isOnline R (mc_RecipientID ev) s of (checked, s1) \<Rightarrow>
      if checked = Inr True then ((s1, n, ct\<lparr>ct_skipped := ct_skipped ct + 1\<rparr>), None)
      else case client_GetPushToken c do_req (mc_RecipientID ev) n of (fetched, n1) \<Rightarrow>
      let pushToken = (case fetched of Inl _ \<Rightarrow> [] | Inr t \<Rightarrow> t) in
      if pushToken = [] then ((s1, n1, ct\<lparr>ct_skipped := ct_skipped ct + 1\<rparr>), None)
      else case deliverWithRetry (deliver pushToken) ctx_done of (outcome, _) \<Rightarrow>
      if outcome = Delivered then ((s1, n1, ct\<lparr>ct_sent := ct_sent ct + 1\<rparr>), Some pushToken)
      else ((s1, n1, ct\<lparr>ct_errors := ct_errors ct + 1\<rparr>), None)))"

text \<open>
  \<open>Run\<close>: what its \<open>select\<close> may see next, and for a sequence of it the events for which a goroutine
  is started, with the error it returned, or \<open>None\<close> while it still waits.
\<close>

datatype run_input = Cancelled | ChannelClosed | Payload jv

fun notifier_Run :: "run_input list \<Rightarrow> MessageCreatedEvent list \<times> string option option" where
  "notifier_Run [] = ([], None)"
| "notifier_Run (Cancelled # xs) = ([], Some None)"
| "notifier_Run (ChannelClosed # xs) = ([], Some (Some ''subscription channel closed''))"
| "notifier_Run (Payload v # xs) =
     (case decode_created v of
        None \<Rightarrow> notifier_Run xs
      | Some ev \<Rightarrow> apfst ((#) ev) (notifier_Run xs))"

lemma Run_starts_published:
  assumes "\<forall>ev \<in> set evs. event_ids_ok ev \<and> distinct (map fst (mc_TraceContext ev))"
  shows "notifier_Run (map (Payload \<circ> created_json) evs @ xs) = apfst ((@) evs) (notifier_Run xs)"
  using assms by (induction evs) (simp_all add: event_roundtrip apfst_def map_prod_def split: prod.split)

section \<open>Retries are bounded\<close>

lemma deliver_loop_unfold:
  "deliverWithRetry d c =
     (if d 1 then (Delivered, 1, [])
      else if c 1 then (CtxErr, 1, [])
      else if d 2 then (Delivered, 2, [second])
      else if c 2 then (CtxErr, 2, [second])
      else if d 3 then (Delivered, 3, [second, 2 * second])
      else (Exhausted, 3, [second, 2 * second]))"
proof -
  have 3: "deliver_loop d c 3 b ws = (if d 3 then (Delivered, 3, ws) else (Exhausted, 3, ws))" for b ws
    by (subst deliver_loop.simps) (simp add: maxAttempts_def)
  have 2: "deliver_loop d c 2 b ws = (if d 2 then (Delivered, 2, ws) else if c 2 then (CtxErr, 2, ws)
      else deliver_loop d c 3 (b * 2) (ws @ [b]))" for b ws
    by (subst deliver_loop.simps) (simp add: maxAttempts_def)
  have 1: "deliver_loop d c 1 b ws = (if d 1 then (Delivered, 1, ws) else if c 1 then (CtxErr, 1, ws)
      else deliver_loop d c 2 (b * 2) (ws @ [b]))" for b ws
    by (subst deliver_loop.simps) (simp add: maxAttempts_def numeral_2_eq_2)
  show ?thesis unfolding deliverWithRetry_def 1 2 3 by (simp add: initialBackoff_def)
qed

text \<open>
  C16: the retry loop always ends: after at most three attempts and at most three seconds of
  waiting, which double from one second. It reports a delivery exactly if one of the first three
  attempts succeeds before which no attempt succeeded and no wait was cut off; it reports the
  context's error exactly if a wait was cut off first; and otherwise it has tried three times.
\<close>

theorem deliver_terminates:
  "case deliverWithRetry d c of (outcome, attempts, waits) \<Rightarrow>
     attempts \<in> {1, 2, 3} \<and> waits = take (attempts - 1) [second, 2 * second] \<and> sum_list waits \<le> 3 * second \<and>
     (\<forall>n \<in> {1..<attempts}. \<not> d n \<and> \<not> c n) \<and>
     outcome = (if d attempts then Delivered else if attempts < 3 then CtxErr else Exhausted) \<and>
     (outcome = CtxErr \<longrightarrow> c attempts) \<and>
     (outcome = Delivered \<longleftrightarrow> (\<exists>n \<in> {1..3}. d n \<and> (\<forall>m \<in> {1..<n}. \<not> c m)))"
proof -
  have iv: "{Suc 0..<2} = {Suc 0}" "{Suc 0..<3} = {Suc 0, 2}" "{Suc 0..3} = {Suc 0, 2, 3}" by auto
  have some: "(\<exists>n \<in> {Suc 0..3}. d n \<and> (\<forall>m \<in> {Suc 0..<n}. \<not> c m)) \<longleftrightarrow>
      d (Suc 0) \<or> d 2 \<and> \<not> c (Suc 0) \<or> d 3 \<and> \<not> c (Suc 0) \<and> \<not> c 2"
    unfolding iv(3) by (simp add: iv(1,2))
  show ?thesis
    by (cases "d (Suc 0)"; cases "c (Suc 0)"; cases "d 2"; cases "c 2"; cases "d 3")
      (simp_all add: deliver_loop_unfold iv(1,2) some)
qed

text \<open>A backend that works on the third attempt.\<close>

theorem deliver_terminates_witness:
  "deliverWithRetry (\<lambda>n. n = 3) (\<lambda>_. False) = (Delivered, 3, [second, 2 * second])"
proof -
  obtain outcome attempts waits where run: "deliverWithRetry (\<lambda>n. n = 3) (\<lambda>_. False) = (outcome, attempts, waits)"
    using prod_cases3 by blast
  from deliver_terminates [of "\<lambda>n. n = 3" "\<lambda>_. False"]
  have "outcome = Delivered" "attempts \<in> {1, 2, 3}" "waits = take (attempts - 1) [second, 2 * second]"
    "outcome = (if attempts = 3 then Delivered else if attempts < 3 then CtxErr else Exhausted)"
    unfolding run by auto
  then show ?thesis unfolding run by auto
qed

section \<open>From the stored message to the notification\<close>

text \<open>
  The transport when it reaches the server: \<open>to_request\<close> is the request that \<open>net/http\<close> makes of
  the URL and the headers. A panic above the access log ends the connection without an answer.
\<close>

definition over_http ::
  "('d, 's, 'l) server \<Rightarrow> router_config \<Rightarrow> ('d, 's, 'l) world router_lib \<Rightarrow> nat \<Rightarrow>
   (string \<Rightarrow> (string \<times> string) list \<Rightarrow> request) \<Rightarrow> ('d, 's, 'l) world http_do" where
  "over_http sv cfg lib i to_request url hs w =
     (case NewRouter sv cfg lib i (to_request url hs) w of (resp, w') \<Rightarrow>
        (if resp = handler_panic then Inl (RequestFailed ''EOF'')
         else Inr (rs_status resp, case rs_payload resp of Json v \<Rightarrow> Some v | _ \<Rightarrow> None), w'))"

text \<open>The request is a GET with these headers, and mux finds the route of its URL.\<close>

definition transport_law ::
  "('d, 's, 'l) world router_lib \<Rightarrow> PushTokenClient \<Rightarrow> (string \<Rightarrow> (string \<times> string) list \<Rightarrow> request) \<Rightarrow> bool" where
  "transport_law lib c to_request \<longleftrightarrow>
     (\<forall>u hs. let r = to_request (push_token_url c u) hs in
        rq_method r = ''GET'' \<and> rq_header r = hs \<and>
        rl_mux lib routes r = Inr (RInternalPushToken, [(''id'', FormatInt u)]))"

definition stored_push_token :: "int64 \<Rightarrow> tables \<Rightarrow> string" where
  "stored_push_token u t =
     (case select_one (\<lambda>r. ur_id r = u) (users t) of
        None \<Rightarrow> [] | Some r \<Rightarrow> (case ur_push_token r of None \<Rightarrow> [] | Some k \<Rightarrow> k))"

lemma member_is_pushToken [simp]: "member_is ''pushToken'' ''pushToken''"
  by code_simp

lemma push_token_fetched:
  assumes "sv_users sv = pg_user_store ilike collate" "faults (w_db w) = []" "w_entropy w = Some bs # es"
    "transport_law lib c to_request" "0 < u" "u \<le> max_int64"
  shows "client_GetPushToken c (over_http sv cfg lib i to_request) u w =
    (if pc_secret c = rc_serviceSecret cfg then Inr (stored_push_token u (tb (w_db w)))
     else Inl ''server returned 403'', w\<lparr>w_entropy := es\<rparr>)"
proof -
  let ?r = "to_request (push_token_url c u) [(''X-Service-Secret'', pc_secret c)]"
  have r: "rq_method ?r = ''GET''" "rq_header ?r = [(''X-Service-Secret'', pc_secret c)]"
    "rl_mux lib routes ?r = Inr (RInternalPushToken, [(''id'', FormatInt u)])"
    using assms(4) unfolding transport_law_def Let_def by blast+
  have h: "lookup ''X-Service-Secret'' (rq_header ?r) = pc_secret c" "lookup ''X-Request-Id'' (rq_header ?r) = []"
    "lookup ''Origin'' (rq_header ?r) = []"
    by (simp_all add: r(2) lookup_def)
  have id: "parse_int64 (lookup ''id'' [(''id'', FormatInt u)]) = Inr u"
    using assms(5,6) parse_int64_FormatInt [of u] by (simp add: lookup_def)
  let ?w1 = "w\<lparr>w_entropy := es\<rparr>"
  let ?r1 = "?r\<lparr>rq_vars := [(''id'', FormatInt u)]\<rparr>"
  define found where "found = (case select_one (\<lambda>r. ur_id r = u) (users (tb (w_db w))) of
      None \<Rightarrow> http_Error ''not found'' 404
    | Some x \<Rightarrow> json_body 200 (JObj [(''pushToken'', JStr (stored_push_token u (tb (w_db w))))]))"
  define out where "out = (if pc_secret c = rc_serviceSecret cfg then found else http_Error ''forbidden'' 403)"
  have "InternalGetPushTokenHandler sv ?r1 ?w1 = (found, ?w1)"
    using id assms(2,5)
    by (simp add: InternalGetPushTokenHandler_def on_db_def assms(1) pg_user_store_def GetPushToken_def found_def
        stored_push_token_def split: option.split)
  then have guarded: "guard sv cfg (access RInternalPushToken) (endpoint sv cfg lib i RInternalPushToken) ?r1 ?w1 = (out, ?w1)"
    using h(1) by (cases "pc_secret c = rc_serviceSecret cfg") (simp_all add: InternalServiceAuth_def out_def)
  have status: "rs_status out = (if pc_secret c \<noteq> rc_serviceSecret cfg then 403
      else if select_one (\<lambda>r. ur_id r = u) (users (tb (w_db w))) = None then 404 else 200)"
    by (simp add: out_def found_def split: option.split)
  then have nz: "rs_status out \<noteq> 0" by (simp split: if_split)
  then have calm: "out \<noteq> handler_panic" by (auto simp: handler_panic_def)
  let ?log = "\<lambda>rid r w. fst (AccessLogAndMetrics (route_template RInternalPushToken) (rl_tls lib r) rid
    (guard sv cfg (access RInternalPushToken) (endpoint sv cfg lib i RInternalPushToken)) r w)"
  have log: "?log rid ?r1 ?w1 = (out, ?w1)" for rid
    unfolding AccessLogAndMetrics_def guarded using calm by (simp add: Let_def)
  have cors: "CORSMiddleware (rc_allowedOrigins cfg) (?log rid) ?r1 ?w1 = (set_before [] out, ?w1)" for rid
    unfolding CORSMiddleware_def log Let_def using h(3) r(1) by simp
  have h2: "lookup ''X-Request-Id'' (rq_header ?r1) = []" using h(2) by simp
  have run: "NewRouter sv cfg lib i ?r w = (set_before [(''X-Request-Id'', rl_uuid lib bs)] (set_before [] out), ?w1)"
    unfolding NewRouter_def serve_with_def r(3) sum.case prod.case RequestID_def h2 Let_def
    by (simp only: draw_def assms(3) list.case prod.case option.case option.map if_False simp_thms cors)
  have same: "rs_status (set_before hs out) = rs_status out" "rs_payload (set_before hs out) = rs_payload out"
    "rs_status (set_before hs (set_before [] out)) = rs_status out"
    "rs_payload (set_before hs (set_before [] out)) = rs_payload out" for hs
    by (simp_all add: set_before_def)
  have "set_before hs (set_before [] out) \<noteq> handler_panic" for hs
    using same(3) [of hs] nz by (metis handler_panic_def response.select_convs(1))
  then have "over_http sv cfg lib i to_request (push_token_url c u) [(''X-Service-Secret'', pc_secret c)] w =
      (Inr (rs_status out, case rs_payload out of Json v \<Rightarrow> Some v | _ \<Rightarrow> None), ?w1)"
    unfolding over_http_def run prod.case same(3,4) by simp
  moreover have "FormatInt 403 = ''403''" by code_simp
  ultimately show ?thesis
    unfolding client_GetPushToken_def using status
    by (auto simp: out_def found_def stored_push_token_def decode_push_token_def get_string_def json_body_def
        writeJSON_def split: option.split)
qed

lemma isOnline_counts:
  assumes "redis_laws R view" "counts conns (view s)" "int (conns u) \<le> max_int64"
    "\<And>e. fst (rd_Get R (conns_key u) s) \<noteq> Inl (RedisErr e)"
  obtains s' where "isOnline R u s = (Inr (0 < conns u), s')"
proof -
  have key: "''presence:conns:'' @ FormatInt u = conns_key u" by (simp add: conns_key_def presenceConnsKey_def)
  obtain res s' where g: "rd_Get R (conns_key u) s = (res, s')" by fastforce
  have rd: "reads view id (conns_key u) s (res, s')" using redis_lawsD(1) [OF assms(1), of "conns_key u" s] g by simp
  have str: "rv_str (view s) (conns_key u) = (if conns u = 0 then None else Some (FormatInt (int (conns u))))"
    using assms(2) by (simp add: counts_def)
  have parse: "parse_int64 (FormatInt (int (conns u))) = Inr (int (conns u))"
    using assms(3) by (intro parse_int64_FormatInt) simp_all
  have "isOnline R u s = (Inr (0 < conns u), s')"
  proof (cases res)
    case (Inl e)
    then have "e = RedisNil" using assms(4) g by (cases e) auto
    with rd Inl str show ?thesis unfolding isOnline_def key g by (auto simp: reads_def split: if_splits)
  next
    case (Inr v)
    with rd str have "0 < conns u" "v = FormatInt (int (conns u))" by (auto simp: reads_def split: if_splits)
    with Inr parse show ?thesis unfolding isOnline_def key g by simp
  qed
  then show thesis by (rule that)
qed

text \<open>
  C15: who gets a push notification, across the two services. With Redis answering and counting
  connections as the presence store does, and the server reachable with the shared secret: a
  recipient with an open connection anywhere is skipped, and the server is not asked; so is one
  with no push token on record; everyone else is delivered to with exactly the token the server
  stores, if one of the bounded attempts succeeds, and counted as an error otherwise. Asking
  changes nothing on the server but the random bytes of a request id.
\<close>

theorem notify_offline_recipient:
  assumes "sv_users sv = pg_user_store ilike collate" "faults (w_db w) = []" "w_entropy w = Some bs # es"
    "transport_law lib c to_request" "pc_secret c = rc_serviceSecret cfg"
    "redis_laws R view" "counts conns (view s)" "\<And>e. fst (rd_Get R (conns_key u) s) \<noteq> Inl (RedisErr e)"
    "u = mc_RecipientID ev" "0 < u" "u \<le> max_int64" "int (conns u) \<le> max_int64"
    "token = stored_push_token u (tb (w_db w))"
  shows "\<exists>s'. handle R c (over_http sv cfg lib i to_request) deliver ctx_done ev (s, w, ct) =
    (if 0 < conns u then ((s', w, ct\<lparr>ct_skipped := ct_skipped ct + 1\<rparr>), None)
     else if token = [] then ((s', w\<lparr>w_entropy := es\<rparr>, ct\<lparr>ct_skipped := ct_skipped ct + 1\<rparr>), None)
     else if fst (deliverWithRetry (deliver token) ctx_done) = Delivered
     then ((s', w\<lparr>w_entropy := es\<rparr>, ct\<lparr>ct_sent := ct_sent ct + 1\<rparr>), Some token)
     else ((s', w\<lparr>w_entropy := es\<rparr>, ct\<lparr>ct_errors := ct_errors ct + 1\<rparr>), None))"
proof -
  from isOnline_counts [OF assms(6,7,12,8)] obtain s' where on: "isOnline R u s = (Inr (0 < conns u), s')" .
  show ?thesis
    unfolding handle_def prod.case
    using on push_token_fetched [OF assms(1-4,10,11), of cfg i] assms(5,9,13)
    by (intro exI [of _ s']) (simp add: Let_def split: prod.split)
qed

text \<open>Bob is offline and has a token; the router's mux reads the id off the URL.\<close>

definition demo_client_config :: PushTokenClient where
  "demo_client_config = \<lparr>pc_serverURL = ''http://s'', pc_secret = ''s3''\<rparr>"

definition url_request :: "string \<Rightarrow> (string \<times> string) list \<Rightarrow> request" where
  "url_request url hs = (demo_request ''GET'' hs None)\<lparr>rq_query := [(''url'', url)]\<rparr>"

definition url_lib :: "(db, mem_server, nat) world router_lib" where
  "url_lib = (demo_lib RInternalPushToken)\<lparr>rl_mux := (\<lambda>table r. Inr (RInternalPushToken,
     [(''id'', let t = drop 24 (lookup ''url'' (rq_query r)) in take (length t - 11) t)]))\<rparr>"

lemma url_transport: "pc_serverURL c = ''http://s'' \<Longrightarrow> transport_law url_lib c url_request"
  by (simp add: transport_law_def url_lib_def url_request_def push_token_url_def lookup_def Let_def)

lemma demo_push_token: "stored_push_token 2 (tb (w_db demo_world)) = ''push-bob''"
  by (simp add: stored_push_token_def select_one_def demo_defs)

theorem notify_offline_recipient_witness:
  "\<exists>st. handle calm_redis demo_client_config (over_http demo_server demo_config url_lib 40 url_request)
     (\<lambda>t. deliver_stub (\<lambda>_. False)) (\<lambda>_. False)
     \<lparr>mc_MessageID = 3, mc_SenderID = 1, mc_RecipientID = 2, mc_ClientMessageID = ''a2'', mc_TraceContext = []\<rparr>
     (mem_empty, demo_world, \<lparr>ct_sent = 0, ct_skipped = 0, ct_errors = 0\<rparr>) = (st, Some ''push-bob'') \<and>
     snd (snd st) = \<lparr>ct_sent = 1, ct_skipped = 0, ct_errors = 0\<rparr>"
proof -
  have transport: "transport_law url_lib demo_client_config url_request"
    by (rule url_transport) (simp add: demo_client_config_def)
  have pre: "faults (w_db demo_world) = []" "w_entropy demo_world = Some ''r1'' # [Some ''r2'']"
    "pc_secret demo_client_config = rc_serviceSecret demo_config"
    by (simp_all add: demo_client_config_def demo_config_def)
  have calm: "fst (rd_Get calm_redis (conns_key 2) mem_empty) \<noteq> Inl (RedisErr e)" for e
    by (simp add: calm_ops(1) ask_str_def split: option.split)
  have "deliverWithRetry (deliver_stub (\<lambda>_. False)) (\<lambda>_. False) = (Delivered, 1, [])"
    by (simp add: deliver_loop_unfold deliver_stub_def)
  with notify_offline_recipient [OF demo_server_simps(1) pre(1,2) transport pre(3) calm_redis_laws counts_empty calm
      _ _ _ _ demo_push_token [symmetric], of "\<lparr>mc_MessageID = 3, mc_SenderID = 1, mc_RecipientID = 2, mc_ClientMessageID = ''a2'', mc_TraceContext = []\<rparr>"
      40 "\<lambda>t. deliver_stub (\<lambda>_. False)" "\<lambda>_. False" "\<lparr>ct_sent = 0, ct_skipped = 0, ct_errors = 0\<rparr>"]
  show ?thesis by auto
qed

end
