(* ===== verification/Startup.thy ===== *)
theory Startup
  imports Database_URL Server_Runs Notifier
begin

text \<open>
  The two \<open>main\<close> functions (\<open>cmd/server/main.go\<close>, \<open>cmd/notifier/main.go\<close>): from the environment
  to a process that serves, or to the exit that comes first, and the loops that restart a
  subscriber. Tracing and Sentry are started by \<open>Tracing\<close> and \<open>Observability\<close>; logging is left out.
\<close>

section \<open>Configuration\<close>

definition parseAllowedOrigins :: "string \<Rightarrow> string list" where
  "parseAllowedOrigins s =
     (if s = [] then [] else filter (\<lambda>p. p \<noteq> []) (map TrimSpace (split_on (CHR '','') s)))"

text \<open>A variable with a default.\<close>

definition env_or :: "getenv \<Rightarrow> string \<Rightarrow> string \<Rightarrow> string" where
  "env_or getenv k d = (if getenv k = [] then d else getenv k)"

definition main_jwtSecret :: "getenv \<Rightarrow> aws \<Rightarrow> string \<Rightarrow> exit + string" where
  "main_jwtSecret getenv A env =
     or_exit (ResolveSecret getenv A ''JWT_SECRET'' ''/onyxchat/prod/JWT_SECRET'') (\<lambda>jwtSecret.
     if env = ''prod'' \<and> jwtSecret = []
     then Inl (Fatal ''JWT_SECRET is required in prod (set SM_ENV=prod and JWT_SECRET)'')
     else if env \<noteq> ''prod'' \<and> jwtSecret = [] then Inr ''dev-insecure-jwt-secret-change-me''
     else Inr jwtSecret)"

record redis_options =
  ro_Addr :: string
  ro_DialTimeout :: time
  ro_ReadTimeout :: time
  ro_WriteTimeout :: time
  ro_TLS12 :: bool        \<comment> \<open>a \<open>TLSConfig\<close> with minimal version 1.2\<close>
  ro_Password :: string

definition base_redisOptions :: "getenv \<Rightarrow> redis_options" where
  "base_redisOptions getenv =
     \<lparr>ro_Addr = env_or getenv ''SM_REDIS_ADDR'' ''redis:6379'', ro_DialTimeout = 5 * second,
      ro_ReadTimeout = 10 * second, ro_WriteTimeout = 5 * second, ro_TLS12 = False, ro_Password = []\<rparr>"

definition main_redisOptions :: "getenv \<Rightarrow> aws \<Rightarrow> string \<Rightarrow> exit + redis_options" where
  "main_redisOptions getenv A env =
     (if env = ''prod''
      then or_exit (ResolveSecret getenv A ''SM_REDIS_AUTH_TOKEN'' ''/onyxchat/prod/SM_REDIS_AUTH_TOKEN'')
             (\<lambda>p. Inr ((base_redisOptions getenv)\<lparr>ro_TLS12 := True, ro_Password := p\<rparr>))
      else Inr (base_redisOptions getenv))"

definition main_serviceSecret :: "getenv \<Rightarrow> string" where
  "main_serviceSecret getenv = env_or getenv ''INTERNAL_SERVICE_SECRET'' ''dev-insecure-service-secret''"

definition main_adminUsername :: "getenv \<Rightarrow> string \<Rightarrow> exit + string" where
  "main_adminUsername getenv env =
     (let adminUsername = getenv ''SM_ADMIN_USERNAME'' in
      if env = ''prod'' \<and> adminUsername = [] then Inl (Fatal ''SM_ADMIN_USERNAME is required in prod'')
      else if adminUsername = [] then Inr ''admin''
      else Inr adminUsername)"

definition main_allowedOrigins :: "getenv \<Rightarrow> string \<Rightarrow> exit + string list" where
  "main_allowedOrigins getenv env =
     (let allowedOrigins = parseAllowedOrigins (getenv ''SM_ALLOWED_ORIGINS'') in
      if env = ''prod'' \<and> length allowedOrigins = 0 then Inl (Fatal ''SM_ALLOWED_ORIGINS is required in prod'')
      else if env \<noteq> ''prod'' \<and> length allowedOrigins = 0 then Inr [''http://localhost:5173'']
      else Inr allowedOrigins)"

section \<open>Starting the server\<close>

text \<open>What answers outside the process; \<open>ou_Listen\<close> is the error of binding the address, if any.\<close>

record outside =
  ou_aws :: aws
  ou_Open :: "string \<Rightarrow> string option"
  ou_Ping :: "db_pool \<Rightarrow> string option"
  ou_migrate :: migrate
  ou_RedisPing :: "redis_options \<Rightarrow> string option"
  ou_Listen :: "string \<Rightarrow> string option"

record started =
  st_addr :: string
  st_db :: db_pool
  st_redis :: redis_options
  st_jwtMgr :: JWTManager
  st_router :: router_config

definition main_connect :: "getenv \<Rightarrow> outside \<Rightarrow> string \<Rightarrow> exit + string \<times> db_pool \<times> redis_options" where
  "main_connect getenv ext env =
     or_exit (main_jwtSecret getenv (ou_aws ext) env) (\<lambda>jwtSecret.
     or_exit (MustOpen getenv (ou_aws ext) (ou_Open ext) (ou_Ping ext)) (\<lambda>db.
     case RunMigrations (ou_migrate ext) db of
       Some e \<Rightarrow> Inl (Fatal ''failed to run migrations'')
     | None \<Rightarrow>
     or_exit (main_redisOptions getenv (ou_aws ext) env) (\<lambda>redisOpts.
     case ou_RedisPing ext redisOpts of
       Some e \<Rightarrow> Inl (Fatal ''failed to connect to Redis'')
     | None \<Rightarrow> Inr (jwtSecret, db, redisOpts))))"

definition server_main :: "getenv \<Rightarrow> outside \<Rightarrow> exit + started" where
  "server_main getenv ext =
     (let env = env_or getenv ''SM_ENV'' ''dev''; addr = env_or getenv ''SM_SERVER_ADDR'' '':8080'' in
     or_exit (main_connect getenv ext env) (\<lambda>(jwtSecret, db, redisOpts).
     case NewJWTManager jwtSecret of
       None \<Rightarrow> Inl (Panic ''NewJWTManager: secret must not be empty'')
     | Some jwtMgr \<Rightarrow>
     let serviceSecret = main_serviceSecret getenv in
     or_exit (main_adminUsername getenv env) (\<lambda>adminUsername.
     or_exit (main_allowedOrigins getenv env) (\<lambda>allowedOrigins.
     case ou_Listen ext addr of
       Some e \<Rightarrow> Inl (Fatal ''listen failed'')
     | None \<Rightarrow>
     Inr \<lparr>st_addr = addr, st_db = db, st_redis = redisOpts, st_jwtMgr = jwtMgr,
          st_router = \<lparr>rc_allowedOrigins = allowedOrigins, rc_env = env, rc_adminUsername = adminUsername,
                       rc_serviceSecret = serviceSecret\<rparr>\<rparr>))))"

section \<open>Starting the notification service\<close>

record notifier_started =
  ns_redis :: redis_options
  ns_client :: PushTokenClient
  ns_metricsAddr :: string

definition notifier_main :: "getenv \<Rightarrow> (redis_options \<Rightarrow> string option) \<Rightarrow> exit + notifier_started" where
  "notifier_main getenv redis_ping =
     (let redisOpts = base_redisOptions getenv in
      case redis_ping redisOpts of
        Some e \<Rightarrow> Inl (Fatal ''failed to connect to Redis'')
      | None \<Rightarrow>
          let serverURL = env_or getenv ''ONYXCHAT_SERVER_URL'' ''http://server:8080'';
              serviceSecret = env_or getenv ''INTERNAL_SERVICE_SECRET'' ''dev-insecure-service-secret'';
              metricsAddr = env_or getenv ''NOTIF_METRICS_ADDR'' '':9091''
          in Inr \<lparr>ns_redis = redisOpts, ns_client = \<lparr>pc_serverURL = serverURL, pc_secret = serviceSecret\<rparr>,
                  ns_metricsAddr = metricsAddr\<rparr>)"

section \<open>Restart loops\<close>

text \<open>
  A goroutine that runs a subscriber again and again until its context is cancelled, at time
  \<open>cancel\<close> if ever: for the duration and the error of each run, the times between which the runs
  happen. The server's loop waits two seconds after every run, the notifier's only after an error.
\<close>

definition ctx_done :: "time option \<Rightarrow> time \<Rightarrow> bool" where
  "ctx_done cancel t = (case cancel of None \<Rightarrow> False | Some c \<Rightarrow> c \<le> t)"

fun supervise :: "bool \<Rightarrow> time option \<Rightarrow> time \<Rightarrow> (time \<times> string option) list \<Rightarrow> (time \<times> time) list" where
  "supervise always cancel t [] = []"
| "supervise always cancel t ((d, err) # rs) =
     (if ctx_done cancel t then []
      else (t, t + d) #
        (if always \<or> err \<noteq> None
         then if ctx_done cancel (t + d + 2 * second) then []
              else supervise always cancel (t + d + 2 * second) rs
         else supervise always cancel (t + d) rs))"

definition startSubscriber :: "time option \<Rightarrow> time \<Rightarrow> (time \<times> string option) list \<Rightarrow> (time \<times> time) list" where
  "startSubscriber = supervise True"

definition notifier_loop :: "time option \<Rightarrow> time \<Rightarrow> (time \<times> string option) list \<Rightarrow> (time \<times> time) list" where
  "notifier_loop = supervise False"

section \<open>What a started server guarantees\<close>

lemma parseAllowedOrigins_set: "set (parseAllowedOrigins s) = TrimSpace ` set (split_on (CHR '','') s) - {[]}"
proof (cases "s = []")
  case True
  have "TrimSpace [] = []" by code_simp
  with True show ?thesis by (simp add: parseAllowedOrigins_def)
next
  case False
  then show ?thesis by (auto simp: parseAllowedOrigins_def)
qed

lemma origin_set_parsed: "set (origin_set (parseAllowedOrigins s)) = set (parseAllowedOrigins s)"
  unfolding origin_set_def parseAllowedOrigins_def by (auto simp: image_iff TrimSpace_idem)

lemma NewJWTManager_cases: "NewJWTManager s = (if s = [] then None else Some \<lparr>jm_secret = s, jm_ttl = 15 * minute\<rparr>)"
  by (simp add: NewJWTManager_def)

lemma main_jwtSecret_Inr:
  "main_jwtSecret getenv A env = Inr s \<longleftrightarrow>
     (\<exists>r. ResolveSecret getenv A ''JWT_SECRET'' ''/onyxchat/prod/JWT_SECRET'' = Inr r \<and>
        (if r \<noteq> [] then s = r else env \<noteq> ''prod'' \<and> s = ''dev-insecure-jwt-secret-change-me''))"
  by (auto simp: main_jwtSecret_def or_exit_Inr)

lemma main_jwtSecret_nonempty: "main_jwtSecret getenv A env = Inr s \<Longrightarrow> s \<noteq> []"
  by (auto simp: main_jwtSecret_Inr split: if_split_asm)

lemma main_connect_Inr:
  "main_connect getenv ext env = Inr (s, db, ro) \<longleftrightarrow>
     main_jwtSecret getenv (ou_aws ext) env = Inr s \<and> MustOpen getenv (ou_aws ext) (ou_Open ext) (ou_Ping ext) = Inr db \<and>
     RunMigrations (ou_migrate ext) db = None \<and> main_redisOptions getenv (ou_aws ext) env = Inr ro \<and> ou_RedisPing ext ro = None"
  by (auto simp: main_connect_def or_exit_Inr split: option.splits)

lemma server_main_Inr:
  assumes "env = env_or getenv ''SM_ENV'' ''dev''"
  shows "server_main getenv ext = Inr st \<longleftrightarrow>
     (\<exists>s db ro admin origins.
        main_connect getenv ext env = Inr (s, db, ro) \<and>
        main_adminUsername getenv env = Inr admin \<and> main_allowedOrigins getenv env = Inr origins \<and>
        ou_Listen ext (env_or getenv ''SM_SERVER_ADDR'' '':8080'') = None \<and>
        st = \<lparr>st_addr = env_or getenv ''SM_SERVER_ADDR'' '':8080'', st_db = db, st_redis = ro,
          st_jwtMgr = \<lparr>jm_secret = s, jm_ttl = 15 * minute\<rparr>,
          st_router = \<lparr>rc_allowedOrigins = origins, rc_env = env, rc_adminUsername = admin,
                       rc_serviceSecret = main_serviceSecret getenv\<rparr>\<rparr>)"
proof (cases "main_connect getenv ext env")
  case (Inl e)
  then show ?thesis by (simp add: server_main_def Let_def assms)
next
  case (Inr c)
  obtain s db ro where c: "c = (s, db, ro)" by (cases c) blast
  have "s \<noteq> []" using Inr unfolding c main_connect_Inr by (auto dest: main_jwtSecret_nonempty)
  with Inr show ?thesis
    unfolding server_main_def Let_def assms [symmetric] c NewJWTManager_cases by (auto simp: or_exit_Inr split: option.split)
qed

text \<open>
  What a start needs, told without the code's functions. A secret is the variable, if it is not
  empty, and otherwise what the parameter store holds.
\<close>

definition secret_found :: "getenv \<Rightarrow> aws \<Rightarrow> string \<Rightarrow> string \<Rightarrow> string \<Rightarrow> bool" where
  "secret_found getenv A k path s \<longleftrightarrow>
     (if getenv k \<noteq> [] then s = getenv k
      else aws_LoadDefaultConfig A = None \<and> aws_GetParameter A path = Inr (Some s))"

definition dsn_found :: "getenv \<Rightarrow> aws \<Rightarrow> string \<Rightarrow> bool" where
  "dsn_found getenv A dsn \<longleftrightarrow>
     (if getenv ''SM_DB_DSN'' \<noteq> [] then dsn = getenv ''SM_DB_DSN''
      else aws_LoadDefaultConfig A = None \<and>
        (\<exists>v ms u p. aws_GetSecretValue A (getenv ''SM_DB_SECRET_ARN'') = Inr (Some (Some v)) \<and> members v = Some ms \<and>
           get_string ''username'' ms = Some u \<and> get_string ''password'' ms = Some p \<and>
           dsn = ''postgres://'' @ u @ '':'' @ QueryEscape p @ ''@'' @ getenv ''SM_DB_HOST'' @ '':'' @ getenv ''SM_DB_PORT'' @ ''/'' @
             getenv ''SM_DB_NAME''))"

lemma ResolveSecret_found: "ResolveSecret getenv A k path = Inr s \<longleftrightarrow> secret_found getenv A k path s"
  by (auto simp: ResolveSecret_def secret_found_def Let_def deref_def split: option.split sum.split)

lemma resolveDBDSN_found: "resolveDBDSN getenv A = Inr dsn \<longleftrightarrow> dsn_found getenv A dsn"
  by (auto simp: resolveDBDSN_def dsn_found_def Let_def or_exit_Inr deref_def decode_creds_def dsn_of_def
      split: option.splits sum.splits)

lemma MustOpen_found:
  "MustOpen getenv A open_err ping_err = Inr db \<longleftrightarrow>
     (\<exists>dsn. dsn_found getenv A dsn \<and> open_err dsn = None \<and> ping_err db = None \<and>
        db = \<lparr>po_dsn = dsn, po_MaxOpenConns = 8, po_MaxIdleConns = 8, po_ConnMaxLifetime = 300 * second, po_ConnMaxIdleTime = 60 * second\<rparr>)"
  unfolding MustOpen_def or_exit_Inr resolveDBDSN_found
  by (auto simp: Let_def maxOpenConnsPerTask_def  split: option.splits)

lemma RunMigrations_ok:
  "RunMigrations M db = None \<longleftrightarrow> mg_iofs M = None \<and> mg_WithInstance M db = None \<and> mg_New M = None \<and>
     mg_Up M \<in> {None, Some ErrNoChange} \<and> mg_Version M \<in> {None, Some ErrNilVersion}"
  by (auto simp: RunMigrations_def split: if_split_asm)

lemma parseAllowedOrigins_none: "parseAllowedOrigins s = [] \<longleftrightarrow> (\<forall>part \<in> set (split_on (CHR '','') s). TrimSpace part = [])"
proof -
  have "parseAllowedOrigins s = [] \<longleftrightarrow> TrimSpace ` set (split_on (CHR '','') s) - {[]} = {}"
    unfolding parseAllowedOrigins_set [symmetric] by simp
  then show ?thesis by auto
qed

text \<open>
  C28: exactly when a server comes up. It starts serving if and only if: the JWT secret is in the
  environment or, AWS being configured, in the parameter store, and is not empty in production; a
  connection string is in the environment or the database secret decodes to one, the pool of eight
  connections opens on it and answers a ping; every stage of the migrations succeeds, where having
  nothing to migrate and having no version are no errors; Redis answers under the address of the
  environment, in production over TLS with the resolved password and elsewhere without either; in
  production an administrator is named and some part of the origins is not blank; and the address
  can be bound. In every other case the process ends before it serves.
\<close>

theorem startup_exact:
  assumes "A = ou_aws ext" "M = ou_migrate ext" "isProd \<longleftrightarrow> getenv ''SM_ENV'' = ''prod''"
  shows "(\<exists>st. server_main getenv ext = Inr st) \<longleftrightarrow>
    (\<exists>jwt. secret_found getenv A ''JWT_SECRET'' ''/onyxchat/prod/JWT_SECRET'' jwt \<and> (isProd \<longrightarrow> jwt \<noteq> [])) \<and>
    (\<exists>dsn db. dsn_found getenv A dsn \<and> ou_Open ext dsn = None \<and> ou_Ping ext db = None \<and> mg_WithInstance M db = None \<and>
       db = \<lparr>po_dsn = dsn, po_MaxOpenConns = 8, po_MaxIdleConns = 8, po_ConnMaxLifetime = 300 * second, po_ConnMaxIdleTime = 60 * second\<rparr>) \<and>
    mg_iofs M = None \<and> mg_New M = None \<and> mg_Up M \<in> {None, Some ErrNoChange} \<and> mg_Version M \<in> {None, Some ErrNilVersion} \<and>
    (\<exists>pw. (if isProd then secret_found getenv A ''SM_REDIS_AUTH_TOKEN'' ''/onyxchat/prod/SM_REDIS_AUTH_TOKEN'' pw else pw = []) \<and>
       ou_RedisPing ext \<lparr>ro_Addr = (if getenv ''SM_REDIS_ADDR'' = [] then ''redis:6379'' else getenv ''SM_REDIS_ADDR''),
         ro_DialTimeout = 5 * second, ro_ReadTimeout = 10 * second, ro_WriteTimeout = 5 * second, ro_TLS12 = isProd,
         ro_Password = pw\<rparr> = None) \<and>
    (isProd \<longrightarrow> getenv ''SM_ADMIN_USERNAME'' \<noteq> [] \<and>
       (\<exists>part \<in> set (split_on (CHR '','') (getenv ''SM_ALLOWED_ORIGINS'')). TrimSpace part \<noteq> [])) \<and>
    ou_Listen ext (if getenv ''SM_SERVER_ADDR'' = [] then '':8080'' else getenv ''SM_SERVER_ADDR'') = None"
proof -
  define env where "env = env_or getenv ''SM_ENV'' ''dev''"
  have isProd: "env = ''prod'' \<longleftrightarrow> isProd" by (simp add: env_def env_or_def assms(3))
  have jwt: "(\<exists>s. main_jwtSecret getenv A env = Inr s) \<longleftrightarrow>
      (\<exists>jwt. secret_found getenv A ''JWT_SECRET'' ''/onyxchat/prod/JWT_SECRET'' jwt \<and> (isProd \<longrightarrow> jwt \<noteq> []))"
    unfolding main_jwtSecret_Inr ResolveSecret_found using isProd by (auto split: if_split)
  have db: "(\<exists>db. MustOpen getenv A (ou_Open ext) (ou_Ping ext) = Inr db \<and> RunMigrations M db = None) \<longleftrightarrow>
      (\<exists>dsn db. dsn_found getenv A dsn \<and> ou_Open ext dsn = None \<and> ou_Ping ext db = None \<and> mg_WithInstance M db = None \<and>
         db = \<lparr>po_dsn = dsn, po_MaxOpenConns = 8, po_MaxIdleConns = 8, po_ConnMaxLifetime = 300 * second, po_ConnMaxIdleTime = 60 * second\<rparr>) \<and>
      mg_iofs M = None \<and> mg_New M = None \<and> mg_Up M \<in> {None, Some ErrNoChange} \<and> mg_Version M \<in> {None, Some ErrNilVersion}"
    unfolding MustOpen_found RunMigrations_ok by blast
  have redis: "(\<exists>ro. main_redisOptions getenv A env = Inr ro \<and> ou_RedisPing ext ro = None) \<longleftrightarrow>
      (\<exists>pw. (if isProd then secret_found getenv A ''SM_REDIS_AUTH_TOKEN'' ''/onyxchat/prod/SM_REDIS_AUTH_TOKEN'' pw else pw = []) \<and>
       ou_RedisPing ext \<lparr>ro_Addr = (if getenv ''SM_REDIS_ADDR'' = [] then ''redis:6379'' else getenv ''SM_REDIS_ADDR''),
         ro_DialTimeout = 5 * second, ro_ReadTimeout = 10 * second, ro_WriteTimeout = 5 * second, ro_TLS12 = isProd,
         ro_Password = pw\<rparr> = None)"
    unfolding main_redisOptions_def isProd
    by (cases isProd) (auto simp: or_exit_Inr ResolveSecret_found base_redisOptions_def env_or_def)
  have admin: "(\<exists>a. main_adminUsername getenv env = Inr a) \<longleftrightarrow> (isProd \<longrightarrow> getenv ''SM_ADMIN_USERNAME'' \<noteq> [])"
    by (simp add: main_adminUsername_def Let_def isProd)
  have origins: "(\<exists>os. main_allowedOrigins getenv env = Inr os) \<longleftrightarrow>
      (isProd \<longrightarrow> (\<exists>part \<in> set (split_on (CHR '','') (getenv ''SM_ALLOWED_ORIGINS'')). TrimSpace part \<noteq> []))"
    by (simp add: main_allowedOrigins_def Let_def isProd parseAllowedOrigins_none)
  have addr: "env_or getenv ''SM_SERVER_ADDR'' '':8080'' = (if getenv ''SM_SERVER_ADDR'' = [] then '':8080'' else getenv ''SM_SERVER_ADDR'')"
    by (simp add: env_or_def)
  have "(\<exists>st. server_main getenv ext = Inr st) \<longleftrightarrow> (\<exists>s. main_jwtSecret getenv A env = Inr s) \<and>
      (\<exists>db. MustOpen getenv A (ou_Open ext) (ou_Ping ext) = Inr db \<and> RunMigrations M db = None) \<and>
      (\<exists>ro. main_redisOptions getenv A env = Inr ro \<and> ou_RedisPing ext ro = None) \<and>
      (\<exists>a. main_adminUsername getenv env = Inr a) \<and> (\<exists>os. main_allowedOrigins getenv env = Inr os) \<and>
      ou_Listen ext (env_or getenv ''SM_SERVER_ADDR'' '':8080'') = None"
    unfolding server_main_Inr [OF env_def] main_connect_Inr assms(1,2) by blast
  then show ?thesis unfolding jwt db redis admin origins addr by blast
qed

text \<open>
  C17: a server that came up in production is closed to strangers. Its tokens are signed under the
  non-empty secret that was resolved; the administrator is the one named in the environment, and
  one is named; an upgrade to a WebSocket needs an origin, and both this check and the CORS
  middleware know exactly the trimmed non-empty parts of \<open>SM_ALLOWED_ORIGINS\<close>, of which there is
  at least one; Redis is spoken to over TLS with the resolved password; and the internal API takes
  the configured service secret. That last one alone has a public default.
\<close>

theorem prod_is_closed:
  assumes "server_main getenv ext = Inr st" "getenv ''SM_ENV'' = ''prod''"
    "parts = TrimSpace ` set (split_on (CHR '','') (getenv ''SM_ALLOWED_ORIGINS'')) - {[]}"
  shows "jm_secret (st_jwtMgr st) \<noteq> [] \<and>
    ResolveSecret getenv (ou_aws ext) ''JWT_SECRET'' ''/onyxchat/prod/JWT_SECRET'' = Inr (jm_secret (st_jwtMgr st)) \<and>
    rc_adminUsername (st_router st) = getenv ''SM_ADMIN_USERNAME'' \<and> getenv ''SM_ADMIN_USERNAME'' \<noteq> [] \<and>
    parts \<noteq> {} \<and> set (origin_set (rc_allowedOrigins (st_router st))) = parts \<and>
    (\<forall>r. NewUpgrader (rc_allowedOrigins (st_router st)) (rc_env (st_router st)) r \<longleftrightarrow> lookup ''Origin'' (rq_header r) \<in> parts) \<and>
    ro_TLS12 (st_redis st) \<and>
    ResolveSecret getenv (ou_aws ext) ''SM_REDIS_AUTH_TOKEN'' ''/onyxchat/prod/SM_REDIS_AUTH_TOKEN'' = Inr (ro_Password (st_redis st)) \<and>
    rc_serviceSecret (st_router st) =
      (if getenv ''INTERNAL_SERVICE_SECRET'' = [] then ''dev-insecure-service-secret'' else getenv ''INTERNAL_SERVICE_SECRET'')"
proof -
  have env: "''prod'' = env_or getenv ''SM_ENV'' ''dev''" using assms(2) by (simp add: env_or_def)
  from assms(1) obtain s db ro admin origins where st: "main_connect getenv ext ''prod'' = Inr (s, db, ro)"
      "main_adminUsername getenv ''prod'' = Inr admin" "main_allowedOrigins getenv ''prod'' = Inr origins"
    and [simp]: "st = \<lparr>st_addr = env_or getenv ''SM_SERVER_ADDR'' '':8080'', st_db = db, st_redis = ro,
        st_jwtMgr = \<lparr>jm_secret = s, jm_ttl = 15 * minute\<rparr>,
        st_router = \<lparr>rc_allowedOrigins = origins, rc_env = ''prod'', rc_adminUsername = admin,
                     rc_serviceSecret = main_serviceSecret getenv\<rparr>\<rparr>"
    unfolding server_main_Inr [OF env] by blast
  have jwt: "s \<noteq> []" "ResolveSecret getenv (ou_aws ext) ''JWT_SECRET'' ''/onyxchat/prod/JWT_SECRET'' = Inr s"
    and redis: "ro_TLS12 ro"
      "ResolveSecret getenv (ou_aws ext) ''SM_REDIS_AUTH_TOKEN'' ''/onyxchat/prod/SM_REDIS_AUTH_TOKEN'' = Inr (ro_Password ro)"
    using st(1) by (auto simp: main_connect_Inr main_jwtSecret_Inr main_redisOptions_def or_exit_Inr split: if_split_asm)
  have admin: "admin = getenv ''SM_ADMIN_USERNAME''" "getenv ''SM_ADMIN_USERNAME'' \<noteq> []"
    using st(2) by (simp_all add: main_adminUsername_def Let_def split: if_split_asm)
  have origins: "origins = parseAllowedOrigins (getenv ''SM_ALLOWED_ORIGINS'')" "origins \<noteq> []"
    using st(3) by (auto simp: main_allowedOrigins_def Let_def split: if_split_asm)
  have allowed: "set (origin_set origins) = parts" "set origins = parts" "parts \<noteq> {}"
    using origins unfolding assms(3) parseAllowedOrigins_set [symmetric] by (simp_all add: origin_set_parsed)
  moreover have "NewUpgrader origins ''prod'' r \<longleftrightarrow> lookup ''Origin'' (rq_header r) \<in> parts" for r
    using allowed(1) assms(3) unfolding NewUpgrader_def Let_def origin_set_def by auto
  ultimately show ?thesis
    using jwt redis admin by (simp add: main_serviceSecret_def env_or_def)
qed

text \<open>A production environment; a request that names no origin is not upgraded.\<close>

definition demo_vars :: getenv where
  "demo_vars = demo_env
     [(''SM_ENV'', ''prod''), (''JWT_SECRET'', ''j''), (''SM_DB_DSN'', ''postgres://db''), (''SM_REDIS_AUTH_TOKEN'', ''t''),
      (''SM_ADMIN_USERNAME'', ''alice''), (''SM_ALLOWED_ORIGINS'', '' https://a , ,https://b'')]"

definition demo_outside :: outside where
  "demo_outside =
     \<lparr>ou_aws = \<lparr>aws_LoadDefaultConfig = Some ''no region'', aws_GetParameter = (\<lambda>_. Inl []), aws_GetSecretValue = (\<lambda>_. Inl [])\<rparr>,
      ou_Open = (\<lambda>_. None), ou_Ping = (\<lambda>_. None),
      ou_migrate = \<lparr>mg_iofs = None, mg_WithInstance = (\<lambda>_. None), mg_New = None, mg_Up = Some ErrNoChange, mg_Version = None\<rparr>,
      ou_RedisPing = (\<lambda>_. None), ou_Listen = (\<lambda>_. None)\<rparr>"

lemma demo_parts:
  "TrimSpace ` set (split_on (CHR '','') '' https://a , ,https://b'') - {[]} = {''https://a'', ''https://b''}"
  "parseAllowedOrigins '' https://a , ,https://b'' = [''https://a'', ''https://b'']"
  by code_simp+

lemma demo_var:
  "demo_vars ''SM_ENV'' = ''prod''" "demo_vars ''SM_ALLOWED_ORIGINS'' = '' https://a , ,https://b''"
  "demo_vars ''JWT_SECRET'' = ''j''" "demo_vars ''SM_DB_DSN'' = ''postgres://db''" "demo_vars ''SM_REDIS_AUTH_TOKEN'' = ''t''"
  "demo_vars ''SM_ADMIN_USERNAME'' = ''alice''" "demo_vars ''INTERNAL_SERVICE_SECRET'' = []"
  by (simp_all add: demo_vars_def demo_env_def)

lemma demo_secrets:
  "secret_found demo_vars A ''JWT_SECRET'' p ''j''" "dsn_found demo_vars A ''postgres://db''"
  "secret_found demo_vars A ''SM_REDIS_AUTH_TOKEN'' p ''t''"
  "split_on (CHR '','') '' https://a , ,https://b'' = ['' https://a '', '' '', ''https://b'']" "TrimSpace ''https://b'' = ''https://b''"
  by (simp_all add: secret_found_def dsn_found_def demo_var) code_simp+

lemma demo_starts: "\<exists>st. server_main demo_vars demo_outside = Inr st"
proof -
  have "ResolveSecret demo_vars A ''JWT_SECRET'' p = Inr ''j''" "resolveDBDSN demo_vars A = Inr ''postgres://db''"
    "ResolveSecret demo_vars A ''SM_REDIS_AUTH_TOKEN'' p = Inr ''t''" for A p
    by (simp_all only: ResolveSecret_found resolveDBDSN_found demo_secrets)
  then show ?thesis
    by (simp add: server_main_def main_connect_def main_jwtSecret_def NewJWTManager_cases env_or_def demo_var demo_parts(2)
        demo_outside_def MustOpen_def RunMigrations_def main_redisOptions_def main_adminUsername_def main_allowedOrigins_def Let_def)
qed

text \<open>The demo environment starts, and neither without an answer to the ping nor on a taken address.\<close>

theorem startup_exact_witness:
  "(\<exists>st. server_main demo_vars demo_outside = Inr st) \<and>
   \<not> (\<exists>st. server_main demo_vars (demo_outside\<lparr>ou_Ping := \<lambda>_. Some ''refused''\<rparr>) = Inr st) \<and>
   \<not> (\<exists>st. server_main demo_vars (demo_outside\<lparr>ou_Listen := \<lambda>_. Some ''address in use''\<rparr>) = Inr st)"
proof (intro conjI)
  have isProd: "True \<longleftrightarrow> demo_vars ''SM_ENV'' = ''prod''" by (simp add: demo_var)
  note iff = startup_exact [where getenv = demo_vars, OF refl refl isProd]
  show "\<exists>st. server_main demo_vars demo_outside = Inr st"
    unfolding iff demo_var demo_secrets(4) 
    using demo_secrets(1-3,5) exI [where P = "secret_found demo_vars A k p" for A k p, OF demo_secrets(3)] by (auto simp: demo_outside_def)
  show "\<not> (\<exists>st. server_main demo_vars (demo_outside\<lparr>ou_Ping := \<lambda>_. Some ''refused''\<rparr>) = Inr st)"
    "\<not> (\<exists>st. server_main demo_vars (demo_outside\<lparr>ou_Listen := \<lambda>_. Some ''address in use''\<rparr>) = Inr st)"
    unfolding iff by simp_all
qed

theorem prod_is_closed_witness:
  "\<exists>st. server_main demo_vars demo_outside = Inr st \<and> jm_secret (st_jwtMgr st) = ''j'' \<and>
     \<not> NewUpgrader (rc_allowedOrigins (st_router st)) (rc_env (st_router st)) (demo_request ''GET'' [] None) \<and>
     NewUpgrader (rc_allowedOrigins (st_router st)) (rc_env (st_router st)) (demo_request ''GET'' [(''Origin'', ''https://b'')] None)"
proof -
  from demo_starts obtain st where st: "server_main demo_vars demo_outside = Inr st" by blast
  have secret: "ResolveSecret demo_vars A k p = Inr (demo_vars k)" if "demo_vars k \<noteq> []" for A k p
    using that by (simp add: ResolveSecret_def)
  from prod_is_closed [OF st demo_var(1) refl] st show ?thesis
    unfolding demo_var(2) demo_parts(1) using secret [of "''JWT_SECRET''"]
    by (auto simp: demo_var(3) lookup_def demo_request_def)
qed

text \<open>
  The default is the same on both sides and in the sources: whoever sends it passes the guard of
  the internal API of a production server that was started without the variable.
\<close>

lemma default_secret_opens_internal:
  assumes "server_main getenv ext = Inr st" "getenv ''INTERNAL_SERVICE_SECRET'' = []"
    "lookup ''X-Service-Secret'' (rq_header r) = ''dev-insecure-service-secret''"
  shows "guard sv (st_router st) Internal h r w = h r w"
proof -
  have "rc_serviceSecret (st_router st) = ''dev-insecure-service-secret''"
    using assms(1,2) unfolding server_main_Inr [OF refl] by (auto simp: main_serviceSecret_def env_or_def)
  with assms(3) show ?thesis by (simp add: InternalServiceAuth_def)
qed

section \<open>The two services agree\<close>

lemma services_agree:
  assumes "server_main getenv ext = Inr st" "notifier_main getenv' ping = Inr ns"
    "getenv ''INTERNAL_SERVICE_SECRET'' = getenv' ''INTERNAL_SERVICE_SECRET''"
  shows "pc_secret (ns_client ns) = rc_serviceSecret (st_router st)"
  using assms unfolding server_main_Inr [OF refl]
  by (auto simp: notifier_main_def Let_def main_serviceSecret_def env_or_def split: option.split_asm)

section \<open>Subscribers are restarted\<close>

lemma supervise_hd: "supervise always cancel t rs \<noteq> [] \<Longrightarrow> fst (supervise always cancel t rs ! 0) = t"
  by (cases rs) (auto split: if_split_asm)

lemma supervise_runs:
  "k < length (supervise always cancel t rs) \<Longrightarrow>
     snd (supervise always cancel t rs ! k) = fst (supervise always cancel t rs ! k) + fst (rs ! k) \<and>
     \<not> ctx_done cancel (fst (supervise always cancel t rs ! k)) \<and>
     (Suc k < length (supervise always cancel t rs) \<longrightarrow>
        fst (supervise always cancel t rs ! Suc k) = snd (supervise always cancel t rs ! k) +
          (if always \<or> snd (rs ! k) \<noteq> None then 2 * second else 0))"
proof (induction always cancel t rs arbitrary: k rule: supervise.induct)
  case (2 always cancel t d err rs)
  let ?next = "t + d + (if always \<or> err \<noteq> None then 2 * second else 0)"
  have go: "\<not> ctx_done cancel t" using 2(3) by (auto split: if_split_asm)
  define tail where "tail =
    (if (always \<or> err \<noteq> None) \<and> ctx_done cancel ?next then [] else supervise always cancel ?next rs)"
  have runs: "supervise always cancel t ((d, err) # rs) = (t, t + d) # tail"
    using go by (simp add: tail_def)
  show ?case
  proof (cases k)
    case 0
    then show ?thesis
      using go supervise_hd [of always cancel ?next rs] unfolding runs by (auto simp: tail_def split: if_split_asm)
  next
    case (Suc j)
    with 2(3) have j: "j < length tail" unfolding runs by simp
    then have tail: "tail = supervise always cancel ?next rs" "\<not> ((always \<or> err \<noteq> None) \<and> ctx_done cancel ?next)"
      by (auto simp: tail_def split: if_split_asm)
    show ?thesis
      unfolding runs Suc using 2(1,2) [OF go] j tail by (cases "always \<or> err \<noteq> None") auto
  qed
qed simp

lemma supervise_length:
  "length (supervise always cancel t rs) \<le> length rs \<and>
   (cancel = None \<longrightarrow> length (supervise always cancel t rs) = length rs)"
  by (induction always cancel t rs rule: supervise.induct) (auto simp: ctx_done_def)

text \<open>
  C30: how the restart loop of a subscriber behaves. Its runs never overlap: each takes as long as
  the subscriber ran, and the next starts two seconds after its end; none starts once the context
  is cancelled; and as long as nobody cancels it, every run is followed by another, however often
  and however fast the subscriber fails.
\<close>

theorem subscriber_restarts:
  assumes "runs = startSubscriber cancel t rs"
  shows "length runs \<le> length rs \<and> (cancel = None \<longrightarrow> length runs = length rs) \<and>
    (\<forall>k < length runs. snd (runs ! k) = fst (runs ! k) + fst (rs ! k) \<and> \<not> ctx_done cancel (fst (runs ! k)) \<and>
       (Suc k < length runs \<longrightarrow> fst (runs ! Suc k) = snd (runs ! k) + 2 * second))"
  using supervise_length [of True cancel t rs] supervise_runs [of _ True cancel t rs]
  by (simp add: assms startSubscriber_def)

theorem subscriber_restarts_witness:
  "let runs = startSubscriber (Some (9 * second)) 0 [(3 * second, Some ''closed''), (second, None), (5 * second, None)]
   in runs = [(0, 3 * second), (5 * second, 6 * second), (8 * second, 13 * second)] \<and>
      fst (runs ! 1) = snd (runs ! 0) + 2 * second \<and> fst (runs ! 2) < 9 * second"
proof -
  let ?rs = "[(3 * second, Some ''closed''), (second, None), (5 * second, None)]"
  define runs where "runs = startSubscriber (Some (9 * second)) 0 ?rs"
  have runs: "runs = [(0, 3 * second), (5 * second, 6 * second), (8 * second, 13 * second)]"
    by (simp add: runs_def startSubscriber_def ctx_done_def)
  from subscriber_restarts [OF runs_def]
  have all: "k < length runs \<Longrightarrow> \<not> ctx_done (Some (9 * second)) (fst (runs ! k)) \<and>
      (Suc k < length runs \<longrightarrow> fst (runs ! Suc k) = snd (runs ! k) + 2 * second)" for k by blast
  have "fst (runs ! Suc 0) = snd (runs ! 0) + 2 * second \<and> \<not> ctx_done (Some (9 * second)) (fst (runs ! 2))"
    using all [of 0] all [of 2] by (simp add: runs)
  with runs show ?thesis unfolding Let_def runs_def [symmetric] by (simp add: ctx_done_def)
qed

text \<open>Between its runs the notifier pauses only after an error; a run that returned none was cancelled.\<close>

lemma Run_returned:
  "snd (notifier_Run xs) = Some r \<Longrightarrow> if r = None then Cancelled \<in> set xs else ChannelClosed \<in> set xs"
  by (induction xs rule: notifier_Run.induct) (auto split: option.split_asm if_split_asm)

end
