(* ===== verification/Response_Writer.thy ===== *)
theory Response_Writer
  imports Observability
begin

text \<open>
  \<open>statusWriter\<close> and the deferred part of \<open>AccessLogAndMetrics\<close> at the level of the calls a handler
  makes on its \<open>ResponseWriter\<close>. The other theories let a handler answer with one status and one
  payload; here it is any sequence of calls, so that a panic after a part of the answer, a second
  \<open>WriteHeader\<close> and a taken-over connection are told apart. The writer below is that of
  \<open>net/http\<close>: the first \<open>WriteHeader\<close> counts, and writing or flushing without one sends 200.
\<close>

section \<open>net/http\<close>

record conn =
  cn_status :: "nat option"    \<comment> \<open>the status line sent, if any\<close>
  cn_body :: nat               \<comment> \<open>bytes of the body sent\<close>
  cn_hijacked :: bool

definition bodyAllowed :: "nat \<Rightarrow> bool" where
  "bodyAllowed code \<longleftrightarrow> \<not> (100 \<le> code \<and> code \<le> 199) \<and> code \<noteq> 204 \<and> code \<noteq> 304"

text \<open>A status of 1xx other than 101 is informational and does not end the header.\<close>

definition conn_WriteHeader :: "nat \<Rightarrow> conn \<Rightarrow> conn" where
  "conn_WriteHeader code c =
     (if cn_hijacked c \<or> cn_status c \<noteq> None \<or> (100 \<le> code \<and> code \<le> 199 \<and> code \<noteq> 101) then c
      else c\<lparr>cn_status := Some code\<rparr>)"

text \<open>\<open>Write\<close> of \<open>n\<close> bytes on a connection that takes at most \<open>k\<close>; the result is what it returns.\<close>

definition conn_Write :: "nat \<Rightarrow> nat \<Rightarrow> conn \<Rightarrow> nat \<times> conn" where
  "conn_Write n k c =
     (if cn_hijacked c then (0, c)
      else let c1 = conn_WriteHeader 200 c in
           if (case cn_status c1 of None \<Rightarrow> False | Some code \<Rightarrow> bodyAllowed code)
           then (min n k, c1\<lparr>cn_body := cn_body c1 + min n k\<rparr>) else (0, c1))"

definition conn_Flush :: "conn \<Rightarrow> conn" where
  "conn_Flush c = (if cn_hijacked c then c else conn_WriteHeader 200 c)"

text \<open>When the handler has returned.\<close>

definition conn_finish :: "conn \<Rightarrow> conn" where
  "conn_finish c = (if cn_hijacked c then c else conn_WriteHeader 200 c)"

section \<open>statusWriter\<close>

record statusWriter =
  sw_conn :: conn
  sw_status :: nat
  sw_bytesWritten :: nat

definition sw_WriteHeader :: "nat \<Rightarrow> statusWriter \<Rightarrow> statusWriter" where
  "sw_WriteHeader status sw = sw\<lparr>sw_status := status, sw_conn := conn_WriteHeader status (sw_conn sw)\<rparr>"

definition sw_Write :: "nat \<Rightarrow> nat \<Rightarrow> statusWriter \<Rightarrow> statusWriter" where
  "sw_Write n k sw =
     (case conn_Write n k (sw_conn sw) of (m, c) \<Rightarrow> sw\<lparr>sw_conn := c, sw_bytesWritten := sw_bytesWritten sw + m\<rparr>)"

definition sw_Hijack :: "statusWriter \<Rightarrow> statusWriter" where
  "sw_Hijack sw = sw\<lparr>sw_conn := (sw_conn sw)\<lparr>cn_hijacked := True\<rparr>\<rparr>"

definition sw_Flush :: "statusWriter \<Rightarrow> statusWriter" where
  "sw_Flush sw = sw\<lparr>sw_conn := conn_Flush (sw_conn sw)\<rparr>"

text \<open>What a handler does with its writer; \<open>net/http\<close> panics on a status outside three digits.\<close>

datatype writer_call = CallHeader nat | CallWrite nat nat | CallFlush | CallHijack | CallPanic

fun handler_calls :: "writer_call list \<Rightarrow> statusWriter \<Rightarrow> bool \<times> statusWriter" where
  "handler_calls [] sw = (False, sw)"
| "handler_calls (CallHeader code # cs) sw =
     (if code < 100 \<or> 999 < code then (True, sw\<lparr>sw_status := code\<rparr>) else handler_calls cs (sw_WriteHeader code sw))"
| "handler_calls (CallWrite n k # cs) sw = handler_calls cs (sw_Write n k sw)"
| "handler_calls (CallFlush # cs) sw = handler_calls cs (sw_Flush sw)"
| "handler_calls (CallHijack # cs) sw = handler_calls cs (sw_Hijack sw)"
| "handler_calls (CallPanic # cs) sw = (True, sw)"

definition fresh_writer :: statusWriter where
  "fresh_writer = \<lparr>sw_conn = \<lparr>cn_status = None, cn_body = 0, cn_hijacked = False\<rparr>, sw_status = 200, sw_bytesWritten = 0\<rparr>"

text \<open>
  \<open>AccessLogAndMetrics\<close> around such a handler: the writer as the log sees it, and what the client
  was sent in the end. \<open>errlen\<close> is the length of the error body, of which the connection takes all.
\<close>

definition log_around :: "nat \<Rightarrow> writer_call list \<Rightarrow> bool \<times> statusWriter \<times> conn" where
  "log_around errlen cs =
     (case handler_calls cs fresh_writer of (panicking, sw) \<Rightarrow>
        let sw1 = (if panicking \<and> sw_bytesWritten sw = 0 then sw_Write errlen errlen (sw_WriteHeader 500 sw) else sw)
        in (panicking, sw1, conn_finish (sw_conn sw1)))"

section \<open>Does the log tell the truth\<close>

text \<open>
  A handler that sends at most one final status, before anything else, and keeps the connection;
  it may panic at any point. The flag says that a status line has been sent.
\<close>

fun orderly :: "bool \<Rightarrow> writer_call list \<Rightarrow> bool" where
  "orderly sent [] \<longleftrightarrow> True"
| "orderly sent (CallHeader code # cs) \<longleftrightarrow> \<not> sent \<and> 200 \<le> code \<and> code \<le> 999 \<and> orderly True cs"
| "orderly sent (CallWrite n k # cs) \<longleftrightarrow> orderly True cs"
| "orderly sent (CallFlush # cs) \<longleftrightarrow> orderly True cs"
| "orderly sent (CallHijack # cs) \<longleftrightarrow> False"
| "orderly sent (CallPanic # cs) \<longleftrightarrow> True"

text \<open>The log agrees with the connection so far.\<close>

definition truthful :: "statusWriter \<Rightarrow> bool" where
  "truthful sw \<longleftrightarrow> \<not> cn_hijacked (sw_conn sw) \<and> sw_bytesWritten sw = cn_body (sw_conn sw) \<and>
     sw_status sw = (case cn_status (sw_conn sw) of None \<Rightarrow> 200 | Some code \<Rightarrow> code) \<and>
     (cn_status (sw_conn sw) = None \<longrightarrow> cn_body (sw_conn sw) = 0)"

lemma truthful_Write: "truthful sw \<Longrightarrow> truthful (sw_Write n k sw) \<and> cn_status (sw_conn (sw_Write n k sw)) \<noteq> None"
  by (auto simp: truthful_def sw_Write_def conn_Write_def conn_WriteHeader_def Let_def split: option.splits)

lemma truthful_Flush: "truthful sw \<Longrightarrow> truthful (sw_Flush sw) \<and> cn_status (sw_conn (sw_Flush sw)) \<noteq> None"
  by (auto simp: truthful_def sw_Flush_def conn_Flush_def conn_WriteHeader_def split: option.splits)

lemma truthful_Header:
  "truthful sw \<Longrightarrow> cn_status (sw_conn sw) = None \<Longrightarrow> 200 \<le> code \<Longrightarrow>
     truthful (sw_WriteHeader code sw) \<and> cn_status (sw_conn (sw_WriteHeader code sw)) \<noteq> None"
  by (auto simp: truthful_def sw_WriteHeader_def conn_WriteHeader_def)

lemma handler_calls_truthful:
  "orderly sent cs \<Longrightarrow> truthful sw \<Longrightarrow> (cn_status (sw_conn sw) \<noteq> None \<Longrightarrow> sent) \<Longrightarrow> truthful (snd (handler_calls cs sw))"
proof (induction cs arbitrary: sent sw)
  case (Cons c cs)
  show ?case
  proof (cases c)
    case (CallHeader code)
    with Cons.prems(1) have "\<not> sent" "200 \<le> code" "code \<le> 999" "orderly True cs" by simp_all
    moreover from this(1) Cons.prems(3) have "cn_status (sw_conn sw) = None" by blast
    ultimately show ?thesis
      using CallHeader Cons.IH [of True] truthful_Header [OF Cons.prems(2)] by simp
  qed (use Cons truthful_Write truthful_Flush in auto)
qed simp

text \<open>
  C37: the status and the size in the access log against what the client got, for every orderly
  handler, including one that panics. The bytes always agree. The client gets the status the
  handler sent, or 500 if it panicked before it sent one, or 200. The log has the same status,
  except in one case: after a panic between the status line and the first byte of the body it says
  500, while the client has the status that was already sent.
\<close>

theorem log_status_exact:
  assumes "orderly False cs" "handler_calls cs fresh_writer = (panicking, sw0)" "log_around errlen cs = (p, sw, c)"
  shows "p = panicking \<and> sw_bytesWritten sw = cn_body c \<and>
    cn_status c = Some (case cn_status (sw_conn sw0) of Some code \<Rightarrow> code | None \<Rightarrow> if panicking then 500 else 200) \<and>
    (if panicking \<and> cn_status (sw_conn sw0) \<noteq> None \<and> cn_body (sw_conn sw0) = 0 then sw_status sw = 500
     else cn_status c = Some (sw_status sw))"
proof -
  have "truthful fresh_writer" by (simp add: truthful_def fresh_writer_def)
  from handler_calls_truthful [OF assms(1) this] have sw0: "truthful sw0"
    by (simp add: assms(2)) (simp add: fresh_writer_def)
  define err where "err = (panicking \<and> sw_bytesWritten sw0 = 0)"
  have around: "p = panicking" "c = conn_finish (sw_conn sw)"
    "sw = (if err then sw_Write errlen errlen (sw_WriteHeader 500 sw0) else sw0)"
    using assms(3) unfolding log_around_def assms(2) err_def by (auto simp: Let_def)
  show ?thesis
  proof (cases err)
    case True
    then show ?thesis
      using sw0 around
      by (auto simp: err_def truthful_def conn_finish_def sw_Write_def conn_Write_def sw_WriteHeader_def
          conn_WriteHeader_def bodyAllowed_def Let_def split: option.splits)
  next
    case False
    then show ?thesis
      using sw0 around
      by (auto simp: err_def truthful_def conn_finish_def conn_WriteHeader_def split: option.splits)
  qed
qed

text \<open>A handler that panics after it announced 200.\<close>

theorem log_status_exact_witness:
  "case log_around 35 [CallHeader 200, CallPanic] of (p, sw, c) \<Rightarrow>
     p \<and> cn_status c = Some 200 \<and> sw_status sw = 500 \<and> sw_bytesWritten sw = cn_body c"
proof -
  obtain p sw c where run: "log_around 35 [CallHeader 200, CallPanic] = (p, sw, c)" using prod_cases3 by blast
  obtain sw0 where calls: "handler_calls [CallHeader 200, CallPanic] fresh_writer = (True, sw0)"
    "cn_status (sw_conn sw0) = Some 200" "cn_body (sw_conn sw0) = 0"
    by (simp add: sw_WriteHeader_def conn_WriteHeader_def fresh_writer_def)
  have "orderly False [CallHeader 200, CallPanic]" by simp
  from log_status_exact [OF this calls(1) run] calls(2,3) show ?thesis by (simp add: run)
qed

section \<open>The coarser view\<close>

text \<open>The calls behind an answer of the other theories; \<open>n\<close> is the length of its body.\<close>

definition calls_of :: "nat \<Rightarrow> response \<Rightarrow> writer_call list" where
  "calls_of n resp =
     (if resp = handler_panic then [CallPanic]
      else if resp = hijacked then [CallHijack]
      else CallHeader (rs_status resp) # (if rs_payload resp = Empty then [] else [CallWrite n n]))"

lemma access_log_refines_writer:
  assumes "next r w = (resp, w')" "AccessLogAndMetrics tpl tls rid next r w = ((out, w''), ob)"
    "log_around errlen (calls_of n resp) = (p, sw, c)"
    "resp \<noteq> handler_panic \<Longrightarrow> resp \<noteq> hijacked \<Longrightarrow> 200 \<le> rs_status resp \<and> rs_status resp \<le> 999"
  shows "p = ob_panic ob \<and> sw_status sw = ob_status ob \<and>
    cn_status c = (if resp = hijacked then None else Some (rs_status out))"
proof -
  note ob = access_log_observed [OF assms(1,2)]
  have "handler_panic \<noteq> hijacked" by (simp add: hijacked_def handler_panic_def)
  then show ?thesis
    using assms(3,4) ob
    by (auto simp: log_around_def fresh_writer_def calls_of_def sw_WriteHeader_def conn_WriteHeader_def sw_Write_def conn_Write_def
        sw_Hijack_def conn_finish_def writeJSONError_def writeJSON_def Let_def split: if_split_asm)
qed

end
