(* ===== verification/Hub_Race.thy ===== *)
theory Hub_Race
  imports Hub
begin

text \<open>
  \<open>enqueueDropSlow\<close> and \<open>closeWith\<close> of \<open>internal/http/ws.go\<close> at the granularity at which
  goroutines interleave. Neither holds a lock on the client, so each atomic access (the load
  and the swap of \<open>closed\<close>, the send, the close of the channel, the close frame) is a step of its
  own. The state is one client shared by any number of goroutines, each at a program point.
\<close>

datatype pc =
    E_load      \<comment> \<open>\<open>enqueueDropSlow\<close>: about to load \<open>closed\<close>\<close>
  | E_send      \<comment> \<open>loaded \<open>false\<close>, about to select on the send\<close>
  | C_swap      \<comment> \<open>\<open>closeWith\<close>: about to swap \<open>closed\<close>\<close>
  | C_close     \<comment> \<open>swapped first, about to close the channel\<close>
  | C_control   \<comment> \<open>about to write the close frame and close the connection\<close>
  | P_recv      \<comment> \<open>\<open>writePump\<close>, waiting for a message\<close>
  | Finished
  | Panicked

record shared =
  sh_closed :: bool
  sh_chanClosed :: bool
  sh_queue :: nat
  sh_controls :: nat
  sh_pc :: "nat \<Rightarrow> pc"

definition goto :: "nat \<Rightarrow> pc \<Rightarrow> shared \<Rightarrow> shared" where
  "goto i p s = s\<lparr>sh_pc := (sh_pc s)(i := p)\<rparr>"

inductive race_step :: "shared \<Rightarrow> shared \<Rightarrow> bool" where
  load_closed: "sh_pc s i = E_load \<Longrightarrow> sh_closed s \<Longrightarrow> race_step s (goto i Finished s)"
| load_open: "sh_pc s i = E_load \<Longrightarrow> \<not> sh_closed s \<Longrightarrow> race_step s (goto i E_send s)"
| send_ok: "sh_pc s i = E_send \<Longrightarrow> \<not> sh_chanClosed s \<Longrightarrow> sh_queue s < sendQueueSize \<Longrightarrow>
    race_step s (goto i Finished (s\<lparr>sh_queue := sh_queue s + 1\<rparr>))"
| send_full: "sh_pc s i = E_send \<Longrightarrow> \<not> sh_chanClosed s \<Longrightarrow> \<not> sh_queue s < sendQueueSize \<Longrightarrow>
    race_step s (goto i C_swap s)"
| send_panics: "sh_pc s i = E_send \<Longrightarrow> sh_chanClosed s \<Longrightarrow> race_step s (goto i Panicked s)"
| swap_first: "sh_pc s i = C_swap \<Longrightarrow> \<not> sh_closed s \<Longrightarrow>
    race_step s (goto i C_close (s\<lparr>sh_closed := True\<rparr>))"
| swap_again: "sh_pc s i = C_swap \<Longrightarrow> sh_closed s \<Longrightarrow> race_step s (goto i Finished s)"
| close_chan: "sh_pc s i = C_close \<Longrightarrow> race_step s (goto i C_control (s\<lparr>sh_chanClosed := True\<rparr>))"
| write_control: "sh_pc s i = C_control \<Longrightarrow>
    race_step s (goto i Finished (s\<lparr>sh_controls := sh_controls s + 1\<rparr>))"
| recv: "sh_pc s i = P_recv \<Longrightarrow> 0 < sh_queue s \<Longrightarrow> race_step s (s\<lparr>sh_queue := sh_queue s - 1\<rparr>)"
| recv_closed: "sh_pc s i = P_recv \<Longrightarrow> sh_queue s = 0 \<Longrightarrow> sh_chanClosed s \<Longrightarrow>
    race_step s (goto i C_swap s)"

text \<open>
  A closed channel still yields what is buffered; after that \<open>writePump\<close> returns and its
  deferred \<open>c.close()\<close> runs.
\<close>

inductive race_reach :: "shared \<Rightarrow> shared \<Rightarrow> bool" where
  start: "race_reach s s"
| further: "race_reach s t \<Longrightarrow> race_step t t' \<Longrightarrow> race_reach s t'"

definition initial :: "shared \<Rightarrow> bool" where
  "initial s \<longleftrightarrow>
     \<not> sh_closed s \<and> \<not> sh_chanClosed s \<and> sh_controls s = 0 \<and> sh_queue s \<le> sendQueueSize \<and>
     (\<forall>i. sh_pc s i \<in> {E_load, C_swap, P_recv, Finished})"

lemma goto_simps [simp]:
  "sh_closed (goto i p s) = sh_closed s" "sh_chanClosed (goto i p s) = sh_chanClosed s"
  "sh_queue (goto i p s) = sh_queue s" "sh_controls (goto i p s) = sh_controls s"
  "sh_pc (goto i p s) = (sh_pc s)(i := p)"
  by (simp_all add: goto_def)

section \<open>The channel is closed once\<close>

text \<open>
  The goroutine that swapped first, if any, is the one between the swap and the end of
  \<open>closeWith\<close>; until it has closed the channel, the channel is open.
\<close>

abbreviation closing :: "shared \<Rightarrow> nat \<Rightarrow> bool" where
  "closing s i \<equiv> sh_pc s i = C_close \<or> sh_pc s i = C_control"

definition closer :: "shared \<Rightarrow> nat \<Rightarrow> bool" where
  "closer s i \<longleftrightarrow>
     sh_closed s \<and> sh_controls s = 0 \<and> (sh_chanClosed s \<longleftrightarrow> sh_pc s i = C_control) \<and>
     (\<forall>j. j \<noteq> i \<longrightarrow> \<not> closing s j)"

definition one_closer :: "shared \<Rightarrow> bool" where
  "one_closer s \<longleftrightarrow>
     (\<forall>i. closing s i \<longrightarrow> closer s i) \<and>
     (sh_chanClosed s \<longrightarrow> sh_closed s) \<and> (sh_controls s \<noteq> 0 \<longrightarrow> sh_closed s) \<and>
     sh_controls s \<le> 1 \<and> sh_queue s \<le> sendQueueSize"

lemma one_closerD:
  assumes "one_closer s"
  shows "closing s i \<Longrightarrow> closer s i" "sh_chanClosed s \<Longrightarrow> sh_closed s"
    "sh_controls s \<noteq> 0 \<Longrightarrow> sh_closed s" "sh_controls s \<le> 1" "sh_queue s \<le> sendQueueSize"
  using assms by (auto simp: one_closer_def)

lemma one_closerI:
  assumes "\<And>i. closing s i \<Longrightarrow> closer s i" "sh_chanClosed s \<Longrightarrow> sh_closed s"
    "sh_controls s \<noteq> 0 \<Longrightarrow> sh_closed s" "sh_controls s \<le> 1" "sh_queue s \<le> sendQueueSize"
  shows "one_closer s"
  using assms by (auto simp: one_closer_def)

lemma closer_other: "closer s i \<Longrightarrow> j \<noteq> i \<Longrightarrow> \<not> closing s j"
  by (simp add: closer_def)

text \<open>A step of a goroutine outside the close path that does not enter it.\<close>

lemma one_closer_cong:
  assumes "one_closer s"
    "sh_closed t = sh_closed s" "sh_chanClosed t = sh_chanClosed s" "sh_controls t = sh_controls s"
    "\<And>j. (sh_pc t j = C_close) = (sh_pc s j = C_close)"
    "\<And>j. (sh_pc t j = C_control) = (sh_pc s j = C_control)"
    "sh_queue t \<le> sendQueueSize"
  shows "one_closer t"
  using assms(1,7) unfolding one_closer_def closer_def assms(2-6) by blast

lemma one_closer_goto:
  assumes "one_closer s" "\<not> closing s i" "p \<noteq> C_close" "p \<noteq> C_control"
  shows "one_closer (goto i p s)"
    "n \<le> sendQueueSize \<Longrightarrow> one_closer (goto i p (s\<lparr>sh_queue := n\<rparr>))"
  by (rule one_closer_cong [OF assms(1)]; use assms(2-) one_closerD(5) [OF assms(1)] in simp)+

lemma one_closer_step:
  assumes "race_step s t" "one_closer s"
  shows "one_closer t"
  using assms(1)
proof (cases rule: race_step.cases)
  case (swap_first i)
  have none: "\<not> closing s j" for j
    using one_closerD(1) [OF assms(2), of j] swap_first(3) unfolding closer_def by blast
  have "sh_controls s = 0" "\<not> sh_chanClosed s"
    using one_closerD(2,3) [OF assms(2)] swap_first(3) by blast+
  with none one_closerD(5) [OF assms(2)] show ?thesis
    unfolding swap_first(1) one_closer_def closer_def by simp
next
  case (close_chan i)
  then have c: "closer s i" using one_closerD(1) [OF assms(2)] by blast
  have t: "closing t j \<Longrightarrow> j = i" for j
    using closer_other [OF c, of j] close_chan(1) by (cases "j = i") auto
  have ti: "closer t i" using c close_chan unfolding closer_def by simp
  show ?thesis
  proof (rule one_closerI)
    show "closing t j \<Longrightarrow> closer t j" for j using t ti by metis
    show "sh_controls t \<le> 1" "sh_queue t \<le> sendQueueSize"
      using close_chan(1) one_closerD(4,5) [OF assms(2)] by simp_all
    show "sh_closed t" "sh_closed t" using c close_chan(1) by (simp_all add: closer_def)
  qed
next
  case (write_control i)
  then have c: "closer s i" using one_closerD(1) [OF assms(2)] by blast
  have t: "\<not> closing t j" for j
    using closer_other [OF c, of j] write_control(1) by (cases "j = i") auto
  have "sh_closed t" "sh_controls t = 1" "sh_queue t = sh_queue s"
    using c write_control(1) by (simp_all add: closer_def)
  with t one_closerD [OF assms(2)] show ?thesis by (simp add: one_closer_def)
next
  case (recv i)
  show ?thesis
    by (rule one_closer_cong [OF assms(2)]; use recv(1) one_closerD(5) [OF assms(2)] in simp)
next
  case (send_ok i)
  then show ?thesis using one_closer_goto(2) [OF assms(2), of i Finished "sh_queue s + 1"] by simp
qed (use one_closer_goto(1) [OF assms(2)] in simp_all)

lemma initial_one_closer:
  assumes "initial s"
  shows "one_closer s"
proof -
  have "sh_pc s i \<noteq> C_close \<and> sh_pc s i \<noteq> C_control" for i
  proof -
    have "sh_pc s i \<in> {E_load, C_swap, P_recv, Finished}" using assms unfolding initial_def by blast
    then show ?thesis by auto
  qed
  with assms show ?thesis unfolding one_closer_def initial_def by simp
qed

text \<open>
  C36: however senders and closers interleave, a client is closed once. In every reachable state
  at most one goroutine is past the swap of \<open>closed\<close>, it finds the channel still open (the
  \<open>recover\<close> around \<open>close(c.send)\<close> is never needed), at most one close frame is ever written, a
  closed channel means the flag is set, and the queue never exceeds its capacity.
\<close>

theorem closed_once:
  assumes "initial s" "race_reach s t"
  shows "(\<forall>i j. sh_pc t i \<in> {C_close, C_control} \<longrightarrow> sh_pc t j \<in> {C_close, C_control} \<longrightarrow> i = j) \<and>
    (\<forall>i. sh_pc t i = C_close \<longrightarrow> \<not> sh_chanClosed t) \<and> sh_controls t \<le> 1 \<and>
    (sh_chanClosed t \<longrightarrow> sh_closed t) \<and> sh_queue t \<le> sendQueueSize"
proof -
  have "one_closer t"
    using assms(2,1)
  proof (induction rule: race_reach.induct)
    case (start s)
    then show ?case by (simp add: initial_one_closer)
  next
    case (further s t t')
    then show ?case by (blast intro: one_closer_step)
  qed
  note oc = one_closerD [OF this]
  have "i = j" if "closing t i" "closing t j" for i j
    using closer_other [OF oc(1) [OF that(1)], of j] that(2) by blast
  moreover have "\<not> sh_chanClosed t" if "sh_pc t i = C_close" for i
    using oc(1) [of i] that by (simp add: closer_def)
  ultimately show ?thesis using oc(2,4,5) by blast
qed

text \<open>One goroutine sends (0) while another closes the client (1).\<close>

definition send_vs_close :: shared where
  "send_vs_close =
     \<lparr>sh_closed = False, sh_chanClosed = False, sh_queue = 0, sh_controls = 0,
      sh_pc = (\<lambda>_. Finished)(0 := E_load, 1 := C_swap)\<rparr>"

lemma initial_demo: "initial send_vs_close"
  by (simp add: initial_def send_vs_close_def)

lemma race_reach_step: "race_reach t u \<Longrightarrow> race_step s t \<Longrightarrow> race_reach s u"
  by (induction rule: race_reach.induct) (auto intro: race_reach.intros)

lemma closed_once_witness:
  "\<exists>t. race_reach send_vs_close t \<and> sh_pc t 1 = C_close \<and> \<not> sh_chanClosed t \<and> sh_controls t \<le> 1"
proof -
  let ?t = "goto 1 C_close (send_vs_close\<lparr>sh_closed := True\<rparr>)"
  have "race_step send_vs_close ?t" by (rule swap_first) (simp_all add: send_vs_close_def)
  then have r: "race_reach send_vs_close ?t" by (meson start further)
  have "sh_pc ?t 1 = C_close" by simp
  with closed_once [OF initial_demo r] r show ?thesis by blast
qed

section \<open>A send can panic\<close>

text \<open>
  C40: the check of \<open>closed\<close> does not protect the send. With one goroutine in \<open>enqueueDropSlow\<close> and
  one in \<open>closeWith\<close> on the same client, the sender can load \<open>false\<close>, the closer then set the
  flag and close the channel, and the send panics: that state is reachable from a client that
  is open and has an empty queue.
\<close>

theorem send_on_closed_reachable:
  "\<exists>t. race_reach send_vs_close t \<and> sh_pc t 0 = Panicked \<and> sh_chanClosed t \<and> initial send_vs_close"
proof -
  let ?s1 = "goto 0 E_send send_vs_close"
  let ?s2 = "goto 1 C_close (?s1\<lparr>sh_closed := True\<rparr>)"
  let ?s3 = "goto 1 C_control (?s2\<lparr>sh_chanClosed := True\<rparr>)"
  let ?s4 = "goto 0 Panicked ?s3"
  have "race_step send_vs_close ?s1" by (rule load_open) (simp_all add: send_vs_close_def)
  moreover have "race_step ?s1 ?s2" by (rule swap_first) (simp_all add: send_vs_close_def)
  moreover have "race_step ?s2 ?s3" by (rule close_chan) simp
  moreover have "race_step ?s3 ?s4" by (rule send_panics) simp_all
  ultimately have "race_reach send_vs_close ?s4" by (meson start race_reach_step)
  moreover have "sh_pc ?s4 0 = Panicked" "sh_chanClosed ?s4" by simp_all
  ultimately show ?thesis using initial_demo by blast
qed

section \<open>When it cannot\<close>

text \<open>
  Without a closer among the goroutines and with room in the queue for every goroutine that is
  still to send, nobody reaches the close path.
\<close>

definition senders :: "shared \<Rightarrow> nat set" where
  "senders s = {i. sh_pc s i = E_load \<or> sh_pc s i = E_send}"

definition room :: "shared \<Rightarrow> bool" where
  "room s \<longleftrightarrow>
     \<not> sh_closed s \<and> \<not> sh_chanClosed s \<and>
     (\<forall>i. sh_pc s i \<in> {E_load, E_send, P_recv, Finished}) \<and>
     finite (senders s) \<and> sh_queue s + card (senders s) \<le> sendQueueSize"

lemma room_pc: "room s \<Longrightarrow> sh_pc s i \<in> {E_load, E_send, P_recv, Finished}"
  by (simp add: room_def)

lemma senders_leave:
  assumes "room s" "sh_pc s i = E_send" "sh_pc s' = sh_pc s"
  shows "senders (goto i Finished s') = senders s - {i} \<and> Suc (card (senders s - {i})) = card (senders s)"
proof -
  have "i \<in> senders s" "finite (senders s)" using assms by (simp_all add: room_def senders_def)
  then show ?thesis using assms(3) by (simp add: card_Suc_Diff1 del: card_Diff_insert) (auto simp: senders_def split: if_splits)
qed

lemma room_step:
  assumes "race_step s t" "room s"
  shows "room t"
  using assms(1)
proof (cases rule: race_step.cases)
  case (load_closed i)
  then show ?thesis using assms(2) by (simp add: room_def)
next
  case (load_open i)
  then have "senders t = senders s" by (auto simp: senders_def)
  with load_open assms(2) show ?thesis by (simp add: room_def)
next
  case (send_ok i)
  note l = senders_leave [OF assms(2) send_ok(2), of "s\<lparr>sh_queue := sh_queue s + 1\<rparr>", simplified]
  from l send_ok assms(2) show ?thesis by (simp add: room_def)
next
  case (send_full i)
  have "i \<in> senders s" "finite (senders s)" using assms(2) send_full by (simp_all add: room_def senders_def)
  then have "0 < card (senders s)" using card_gt_0_iff by blast
  with send_full assms(2) show ?thesis by (simp add: room_def)
next
  case (send_panics i)
  then show ?thesis using assms(2) by (simp add: room_def)
next
  case (swap_first i)
  then show ?thesis using room_pc [OF assms(2), of i] by simp
next
  case (swap_again i)
  then show ?thesis using room_pc [OF assms(2), of i] by simp
next
  case (close_chan i)
  then show ?thesis using room_pc [OF assms(2), of i] by simp
next
  case (write_control i)
  then show ?thesis using room_pc [OF assms(2), of i] by simp
next
  case (recv i)
  have "senders (s\<lparr>sh_queue := n\<rparr>) = senders s" for n by (simp add: senders_def)
  with recv assms(2) show ?thesis by (auto simp: room_def)
next
  case (recv_closed i)
  then show ?thesis using assms(2) by (simp add: room_def)
qed

lemma room_reach:
  assumes "race_reach s t" "room s"
  shows "room t \<and> (\<forall>i. sh_pc t i \<noteq> Panicked)"
proof -
  have "room t"
    using assms by (induction rule: race_reach.induct) (simp_all add: room_step)
  moreover have "sh_pc t i \<noteq> Panicked" for i
    using room_pc [OF \<open>room t\<close>, of i] by auto
  ultimately show ?thesis by blast
qed

end
