(* ===== verification/Request_Races.thy ===== *)
theory Request_Races
  imports WebSocket
begin

text \<open>
  Requests that overlap. A handler does not run alone: between two of its statements, other
  requests may do theirs. Three overlaps in which the result differs from that of any order of the
  whole requests, each stated for every server and database of the model.
\<close>

section \<open>One refresh token, two sessions\<close>

text \<open>
  The refresh handler reads the token and later deletes it. If two requests with the same token
  have both read it before one deletes it, both are answered 200 and both new refresh tokens are
  good afterwards, although the tickets, which are read and deleted in one command, admit once.
\<close>

theorem refresh_race:
  assumes "sv_users sv = pg_user_store ilike collate" "db_ok (w_db w)" "redis_laws (sv_redis sv) view"
    "refresh_lookup sv r w = (Inr (rt, u), w1)" "refresh_lookup sv r' w1 = (Inr (rt, u'), w2)"
    "refresh_rotate sv rt u w2 = (resp1, w3)" "rs_status resp1 = 200"
    "refresh_rotate sv rt u' w3 = (resp2, w4)" "rs_status resp2 = 200"
  shows "\<exists>token1 new1 token2 new2. resp1 = writeJSON 200 (refresh_json token1 new1) \<and>
    resp2 = writeJSON 200 (refresh_json token2 new2) \<and> UserID u' = UserID u \<and>
    token_owner new2 (view (w_rd w4)) = Some (FormatInt (UserID u)) \<and>
    (new1 \<noteq> rt \<longrightarrow> token_owner new1 (view (w_rd w4)) = Some (FormatInt (UserID u)))"
proof -
  obtain s where l1: "token_owner rt (view (w_rd w)) = Some s" "parse_int64 s = Inr (UserID u)"
    "view (w_rd w1) = view (w_rd w)" "db_ok (w_db w1)"
    using refresh_lookup_ok [OF assms(1-4)] by blast
  obtain s' where l2: "token_owner rt (view (w_rd w1)) = Some s'" "parse_int64 s' = Inr (UserID u')"
    using refresh_lookup_ok [OF assms(1) l1(4) assms(3,5)] by blast
  have same: "UserID u' = UserID u" using l1 l2 by simp
  from refresh_rotate_ok [OF assms(3,6,7)] obtain token1 new1 where n1: "resp1 = writeJSON 200 (refresh_json token1 new1)"
    "token_owner new1 (view (w_rd w3)) = Some (FormatInt (UserID u))" by blast
  from refresh_rotate_ok [OF assms(3,8,9)] obtain token2 new2 where n2: "resp2 = writeJSON 200 (refresh_json token2 new2)"
    "token_owner new2 (view (w_rd w4)) = Some (FormatInt (UserID u'))"
    "\<forall>t. t \<noteq> rt \<longrightarrow> t \<noteq> new2 \<longrightarrow> token_owner t (view (w_rd w4)) = token_owner t (view (w_rd w3))" by blast
  have "new1 \<noteq> rt \<longrightarrow> token_owner new1 (view (w_rd w4)) = Some (FormatInt (UserID u))"
    using n1(2) n2(2,3) same by (cases "new1 = new2") simp_all
  with n1 n2 same show ?thesis
    by (intro exI [of _ token1] exI [of _ new1] exI [of _ token2] exI [of _ new2]) simp
qed

text \<open>Two devices of alice with the same token \<open>T\<close>.\<close>

theorem refresh_race_witness:
  "let r = demo_post [(''refresh_token'', ''T'')] in
   \<exists>u w1 w2 resp1 w3 resp2 w4. refresh_lookup calm_server r token_world = (Inr (''T'', u), w1) \<and>
     refresh_lookup calm_server r w1 = (Inr (''T'', u), w2) \<and>
     refresh_rotate calm_server ''T'' u w2 = (resp1, w3) \<and> refresh_rotate calm_server ''T'' u w3 = (resp2, w4) \<and>
     rs_status resp1 = 200 \<and> rs_status resp2 = 200 \<and>
     (\<exists>new2. token_owner new2 (mem_observe (w_rd w4)) = Some (FormatInt (UserID u)))"
proof -
  let ?r = "demo_post [(''refresh_token'', ''T'')]"
  define u :: user where "u = \<lparr>UserID = 1, Username = ''alice'', PasswordHash = ''hash-alice'', PublicKey = ''key-alice''\<rparr>"
  have f: "string_field ''refresh_token'' ?r = Some ''T''" "FormatInt 1 = ''1''" by code_simp+
  have p: "parse_int64 ''1'' = Inr 1" using parse_int64_FormatInt [of 1] f(2) by simp
  have g: "us_GetUserByID (pg_user_store (=) length) 1 demo_db = (Inr u, demo_db)"
    by (simp add: u_def pg_user_store_def GetUserByID_def select_one_def demo_defs live_def scan_user_def)
  have rv: "rv_str (mem_view (w_rd token_world)) (refreshTokenPrefix @ ''T'') = Some ''1''"
    by (simp add: token_world_def storeRefreshToken_def calm_ops f(2) on_view_def e_set_def)
  have lookup: "refresh_lookup calm_server ?r (token_world\<lparr>w_rd := s\<rparr>) = (Inr (''T'', u), token_world\<lparr>w_rd := calm s\<rparr>)"
    if "rv_str (mem_view s) (refreshTokenPrefix @ ''T'') = Some ''1''" for s
  proof -
    have "lookupRefreshToken calm_redis ''T'' s = (Inr 1, calm s)"
      by (simp add: lookupRefreshToken_def calm_ops ask_str_def that p)
    then show ?thesis
      by (simp add: refresh_lookup_def f(1) on_rd_def on_db_def calm_server_def) (simp add: token_world_def g)
  qed
  have gen: "generate calm_server u w = Some demo_token" if "w_now w = 100" for w
    using demo_token that by (simp add: generate_def calm_server_def u_def)
  have rotate: "\<exists>s'. refresh_rotate calm_server ''T'' u (token_world\<lparr>w_rd := s, w_entropy := Some e # es\<rparr>) =
      (writeJSON 200 (refresh_json demo_token (RawURLEncoding_EncodeToString e)), token_world\<lparr>w_rd := s', w_entropy := es\<rparr>)" for s e es
    by (simp add: refresh_rotate_def gen on_rd_def deleteRefreshToken_def calm_ops draw_def token_world_def
        newRefreshToken_def storeRefreshToken_def) (auto simp: demo_world_def)
  let ?s = "w_rd token_world"
  have w0: "token_world\<lparr>w_rd := ?s\<rparr> = token_world" by simp
  have l1: "refresh_lookup calm_server ?r token_world = (Inr (''T'', u), token_world\<lparr>w_rd := calm ?s\<rparr>)"
    using lookup [OF rv] unfolding w0 .
  have l2: "refresh_lookup calm_server ?r (token_world\<lparr>w_rd := calm ?s\<rparr>) = (Inr (''T'', u), token_world\<lparr>w_rd := calm (calm ?s)\<rparr>)"
    by (rule lookup) (simp add: rv calm_def)
  have e: "token_world\<lparr>w_rd := s\<rparr> = token_world\<lparr>w_rd := s, w_entropy := Some ''r1'' # [Some ''r2'']\<rparr>" for s
    by (simp add: token_world_def demo_world_def)
  from rotate [where s = "calm (calm ?s)" and e = "''r1''" and es = "[Some ''r2'']"] obtain s3 where r1: "refresh_rotate calm_server ''T'' u (token_world\<lparr>w_rd := calm (calm ?s)\<rparr>) =
      (writeJSON 200 (refresh_json demo_token (RawURLEncoding_EncodeToString ''r1'')), token_world\<lparr>w_rd := s3, w_entropy := [Some ''r2'']\<rparr>)"
    unfolding e [of "calm (calm ?s)", symmetric] by blast
  from rotate [where s = s3 and e = "''r2''" and es = "[]"] obtain s4 where r2: "refresh_rotate calm_server ''T'' u (token_world\<lparr>w_rd := s3, w_entropy := [Some ''r2'']\<rparr>) =
      (writeJSON 200 (refresh_json demo_token (RawURLEncoding_EncodeToString ''r2'')), token_world\<lparr>w_rd := s4, w_entropy := []\<rparr>)" by blast
  have ok: "sv_users calm_server = pg_user_store (=) length" "db_ok (w_db token_world)" "redis_laws (sv_redis calm_server) mem_observe"
    "rs_status (writeJSON 200 v) = 200" for v
    using calm_redis_laws by (simp_all add: calm_server_def token_world_def)
  have "\<exists>new2. token_owner new2 (mem_observe s4) = Some (FormatInt (UserID u))"
    using refresh_race [OF ok(1-3) l1 l2 r1 ok(4) r2 ok(4)] by auto
  then have "\<exists>new2. token_owner new2 (mem_observe (w_rd (token_world\<lparr>w_rd := s4, w_entropy := []\<rparr>))) = Some (FormatInt (UserID u))"
    by simp
  then show ?thesis
    unfolding Let_def using l1 l2 r1 r2 ok(4) by blast
qed

section \<open>Personal data after the erasure\<close>

text \<open>
  An upload of a key whose caller was checked before the erasure and whose update runs after it
  puts the key back into the anonymized row: the update asks for the id only.
\<close>

theorem key_after_erasure:
  assumes "db_ok d" "DeleteAccountGDPR u now d = (Inr record, d')" "faults d' = []"
  shows "\<exists>r \<in> set (users (tb (snd (SetPublicKey u k d')))). ur_id r = u \<and> \<not> live r \<and> ur_public_key r = Some k"
proof -
  from assms(2) obtain x where x: "x \<in> set (users (tb d))" "ur_id x = u" "live x" "tb d' = erased x now d"
    by (cases rule: DeleteAccountGDPR_cases) auto
  have "anonymized now x \<in> set (users (tb d'))"
    unfolding x(4) erased_def update_where_def using x(1,3) by (auto intro!: rev_image_eqI [of x])
  then have "(anonymized now x)\<lparr>ur_public_key := Some k\<rparr> \<in> set (users (tb (snd (SetPublicKey u k d'))))"
    using assms(3) x(2) by (force simp: SetPublicKey_def update_users_def stmt_def update_where_def)
  moreover have "ur_id (anonymized now x) = u" "\<not> live (anonymized now x)" using x(2) by (simp_all add: live_def anonymized_def)
  ultimately show ?thesis by (intro bexI) (auto simp: live_def)
qed

theorem key_after_erasure_witness:
  "\<exists>record d'. DeleteAccountGDPR 1 500 demo_db = (Inr record, d') \<and>
     (\<exists>r \<in> set (users (tb (snd (SetPublicKey 1 ''new'' d')))). ur_id r = 1 \<and> \<not> live r \<and> ur_public_key r = Some ''new'')"
proof -
  have "faults (demo_db\<lparr>tb := erased (demo_user 1 ''alice'') 500 demo_db\<rparr>) = []" by simp
  from key_after_erasure [OF db_ok_demo demo_gdpr this] demo_gdpr show ?thesis by blast
qed

section \<open>A connection after the erasure\<close>

text \<open>
  A handshake that passed its check before the erasure and is upgraded after it: the erasure has
  disconnected the connections there were, and nobody disconnects the new one. It is registered
  under the erased account and is offered every message the account had received.
\<close>

lemma fold_close_none:
  "clients h i = None \<Longrightarrow> clients (fold (\<lambda>j. update_client j (closeWith k r)) is h) i = None"
proof (induction "is" arbitrary: h)
  case (Cons j "is")
  have "clients (update_client j (closeWith k r) h) i = None" using Cons.prems by (auto simp: update_client_def)
  then show ?case by (simp add: Cons.IH)
qed simp

theorem connection_after_erasure:
  assumes "sv_users sv = pg_user_store ilike collate" "sv_msgs sv = pg_message_store" "db_ok (w_db w)"
    "hub_ok (w_hub w)" "clients (w_hub w) i = None"
    "DeleteAccountGDPR (au_ID u) now (w_db w) = (Inr record, d')" "faults d' = []"
    "CurrentUser r = Some u" "hs check r = None" "fst (ParseInt (lookup ''sinceId'' (rq_query r))) = 0"
  shows "\<exists>w'. WebSocketHandler sv hs check i r (on_hub (DisconnectUser (au_ID u)) (w\<lparr>w_db := d'\<rparr>)) = (hijacked, w') \<and>
    live_account d' (au_ID u) = None \<and> i \<in> set (user_clients (au_ID u) (w_hub w')) \<and>
    clients (w_hub w') i = Some (fold offered (map MessageFrame
      (filter (\<lambda>m. RecipientID m = au_ID u \<and> 0 < ID m \<and> DeletedAt m = None) (mailbox d'))) (new_client u))"
proof -
  let ?w = "on_hub (DisconnectUser (au_ID u)) (w\<lparr>w_db := d'\<rparr>)"
  have hub: "hub_ok (w_hub ?w)" "clients (w_hub ?w) i = None"
    using assms(4,5) by (simp_all add: on_hub_def DisconnectUser_def fold_close_ok fold_close_none)
  have d': "db_ok d'" using DeleteAccountGDPR_db_ok [OF assms(3,6)] .
  have gone: "live_account d' (au_ID u) = None"
    using pg.erased_gone [OF assms(3), of ilike collate "au_ID u" now] assms(6) by (simp add: pg_user_store_def)
  have alone: "(au_ID u, v) \<notin> graph (tb d')" for v
    using assms(6) by (cases rule: DeleteAccountGDPR_cases) (auto simp: erased_def graph_def)
  have db: "w_db ?w = d'" by (simp add: on_hub_def)
  from ws_connected [where w = ?w and hs = hs and check = check and r = r and n = 0, OF assms(1,2) _ _ hub assms(8-10) refl]
    d' assms(7) obtain snap w' where w': "WebSocketHandler sv hs check i r ?w = (hijacked, w')"
      "i \<in> set (user_clients (au_ID u) (w_hub w'))" "\<forall>ev \<in> set snap. (au_ID u, pe_UserID ev) \<in> graph (tb d')"
      "clients (w_hub w') i = Some (fold offered (map PresenceFrame snap @ map MessageFrame
        (filter (\<lambda>m. RecipientID m = au_ID u \<and> 0 < ID m \<and> DeletedAt m = None) (mailbox d'))) (new_client u))"
    unfolding db by auto
  then have "snap = []" using alone by (cases snap) auto
  with w' gone show ?thesis by auto
qed

end
