(* ===== verification/Erasure.thy ===== *)
theory Erasure
  imports Server_Runs
begin

text \<open>
  The promise of the account deletion over the whole life of the system: while the instances of
  the server handle requests as a whole, no request, goroutine or event touches the rows of an
  account that was erased. The operations that write for an account do not test this themselves
  (\<open>Request_Races\<close> shows what happens when requests overlap); the guard is the check of the
  authentication middleware.
\<close>

section \<open>What stays erased\<close>

definition erased_id :: "db \<Rightarrow> int64 \<Rightarrow> bool" where
  "erased_id d u \<longleftrightarrow> (\<exists>r \<in> set (users (tb d)). ur_id r = u \<and> \<not> live r)"

definition live_id :: "db \<Rightarrow> int64 \<Rightarrow> bool" where
  "live_id d u \<longleftrightarrow> (\<exists>r \<in> set (users (tb d)). ur_id r = u \<and> live r)"

text \<open>
  The rows of erased accounts stay as they are, no contact and no message is added that names one,
  and the text of their messages stays as it is.
\<close>

definition same_text :: "msg_row \<Rightarrow> msg_row \<Rightarrow> bool" where
  "same_text m m' \<longleftrightarrow> mr_body m' = mr_body m \<and> mr_iv m' = mr_iv m"

definition still_erased :: "db \<Rightarrow> db \<Rightarrow> bool" where
  "still_erased d d' \<longleftrightarrow>
     (\<forall>r \<in> set (users (tb d)). \<not> live r \<longrightarrow> r \<in> set (users (tb d'))) \<and>
     (\<forall>a b. (a, b) \<in> graph (tb d') \<longrightarrow> erased_id d a \<or> erased_id d b \<longrightarrow> (a, b) \<in> graph (tb d)) \<and>
     (\<forall>m' \<in> set (messages (tb d')). erased_id d (mr_sender_id m') \<or> erased_id d (mr_recipient_id m') \<longrightarrow>
        (\<exists>m \<in> set (messages (tb d)). mr_id m = mr_id m' \<and> mr_sender_id m = mr_sender_id m' \<and>
           mr_recipient_id m = mr_recipient_id m' \<and> (erased_id d (mr_sender_id m') \<longrightarrow> same_text m m')))"

definition keeps_erased :: "db \<Rightarrow> db \<Rightarrow> bool" where
  "keeps_erased d d' \<longleftrightarrow> store_history d d' \<and> (db_ok d \<longrightarrow> still_erased d d')"

lemma erased_not_live: "db_ok d \<Longrightarrow> live_id d u \<Longrightarrow> \<not> erased_id d u"
  using users_distinct [of d] unfolding live_id_def erased_id_def
  by (metis distinct_map inj_onD)

lemma still_erased_same:
  assumes "users (tb d') = users (tb d)" "graph (tb d') \<subseteq> graph (tb d)" "messages (tb d') = messages (tb d)"
  shows "still_erased d d'"
  using assms by (auto simp: still_erased_def same_text_def)

lemma still_erased_trans:
  assumes "still_erased d d1" "still_erased d1 d2"
  shows "still_erased d d2"
proof -
  have up: "erased_id d1 u" if "erased_id d u" for u
    using assms(1) that unfolding still_erased_def erased_id_def by blast
  show ?thesis
    unfolding still_erased_def
  proof (intro conjI ballI allI impI)
    fix m'
    assume m': "m' \<in> set (messages (tb d2))" "erased_id d (mr_sender_id m') \<or> erased_id d (mr_recipient_id m')"
    then obtain m1 where m1: "m1 \<in> set (messages (tb d1))" "mr_id m1 = mr_id m'" "mr_sender_id m1 = mr_sender_id m'"
      "mr_recipient_id m1 = mr_recipient_id m'" "erased_id d1 (mr_sender_id m') \<longrightarrow> same_text m1 m'"
      using assms(2) up unfolding still_erased_def by meson
    with m'(2) assms(1) obtain m where "m \<in> set (messages (tb d))" "mr_id m = mr_id m1" "mr_sender_id m = mr_sender_id m1"
      "mr_recipient_id m = mr_recipient_id m1" "erased_id d (mr_sender_id m1) \<longrightarrow> same_text m m1"
      unfolding still_erased_def by metis
    with m1 up show "\<exists>m \<in> set (messages (tb d)). mr_id m = mr_id m' \<and> mr_sender_id m = mr_sender_id m' \<and>
        mr_recipient_id m = mr_recipient_id m' \<and> (erased_id d (mr_sender_id m') \<longrightarrow> same_text m m')"
      by (auto simp: same_text_def intro!: bexI [of _ m])
  qed (use assms up in \<open>unfold still_erased_def, blast+\<close>)
qed

lemma keeps_erased_trans: "keeps_erased d d1 \<Longrightarrow> keeps_erased d1 d2 \<Longrightarrow> keeps_erased d d2"
  using history_ok still_erased_trans unfolding keeps_erased_def by (meson rtranclp_trans)

lemma keeps_erased_refl: "keeps_erased d d"
  by (simp add: keeps_erased_def still_erased_same)

section \<open>One operation\<close>

lemma update_users_kept:
  assumes "update_users P f d = (res, d')" "\<And>r. r \<in> set (users (tb d)) \<Longrightarrow> P r \<Longrightarrow> live r"
  shows "still_erased d d'"
  using assms(1) unfolding update_users_def
proof (cases rule: stmt_cases)
  case (fault e)
  then show ?thesis by (intro still_erased_same) (simp_all add: agreeD)
next
  case (ok d0)
  then have "users (tb d') = update_where P f (users (tb d))" "graph (tb d') = graph (tb d)" "messages (tb d') = messages (tb d)"
    by (auto simp: agreeD graph_def)
  with assms(2) show ?thesis by (force simp: still_erased_def update_where_def same_text_def)
qed

text \<open>The three updates of an account's row, under the guard.\<close>

lemma row_updates_kept:
  assumes "db_ok d" "live_id d u"
  shows "still_erased d (snd (SetPublicKey u k d))" "still_erased d (snd (SetPushToken u k d))"
    "still_erased d (snd (UpdatePassword u k d))"
proof -
  have "live r" if "r \<in> set (users (tb d))" "ur_id r = u" for r
    using erased_not_live [OF assms] that unfolding erased_id_def by blast
  then have "still_erased d (snd (update_users (\<lambda>r. ur_id r = u) f d))" for f
    by (intro update_users_kept [OF surjective_pairing]) simp
  then show "still_erased d (snd (SetPublicKey u k d))" "still_erased d (snd (SetPushToken u k d))"
    "still_erased d (snd (UpdatePassword u k d))"
    unfolding SetPublicKey_def SetPushToken_def UpdatePassword_def by blast+
qed

lemma unchanged_kept: "unchanged d d' \<Longrightarrow> still_erased d d'"
  by (rule still_erased_same) (simp_all add: unchanged_def)

lemma messages_kept:
  assumes "users (tb d') = users (tb d)" "graph (tb d') = graph (tb d)" "messages (tb d') = update_where P f (messages (tb d))"
    "\<And>m. mr_id (f m) = mr_id m \<and> mr_sender_id (f m) = mr_sender_id m \<and> mr_recipient_id (f m) = mr_recipient_id m"
    "\<And>m. P m \<Longrightarrow> \<not> erased_id d (mr_sender_id m) \<or> same_text m (f m)"
  shows "still_erased d d'"
  using assms(1,2,4,5) unfolding still_erased_def assms(3) update_where_def
  by (auto simp: same_text_def)

lemma register_kept: "still_erased d (snd (RegisterWithInvite c n h d))"
proof -
  obtain res d' where r: "RegisterWithInvite c n h d = (res, d')" by fastforce
  then have "still_erased d d'"
  proof (cases rule: RegisterWithInvite_cases)
    case ok
    then show ?thesis by (auto simp: still_erased_def registered_def graph_def same_text_def)
  qed (rule unchanged_kept)
  with r show ?thesis by simp
qed

lemma erase_kept:
  assumes "db_ok d"
  shows "still_erased d (snd (DeleteAccountGDPR u now d))"
proof -
  obtain res d' where r: "DeleteAccountGDPR u now d = (res, d')" by fastforce
  then have "still_erased d d'"
  proof (cases rule: DeleteAccountGDPR_cases)
    case (ok x)
    have "\<not> erased_id d (ur_id x)" using erased_not_live [OF assms] ok(2,4) by (auto simp: live_id_def)
    then have "\<exists>m \<in> set (messages (tb d)). mr_id m = mr_id m' \<and> mr_sender_id m = mr_sender_id m' \<and>
        mr_recipient_id m = mr_recipient_id m' \<and> (erased_id d (mr_sender_id m') \<longrightarrow> same_text m m')"
      if "m' \<in> set (messages (erased x now d))" for m'
      using that by (auto simp: erased_def update_where_def purged_def same_text_def split: if_splits)
    moreover have "r \<in> set (users (erased x now d))" if "r \<in> set (users (tb d))" "\<not> live r" for r
      using that by (force simp: erased_def update_where_def)
    moreover have "graph (erased x now d) \<subseteq> graph (tb d)" by (auto simp: erased_def graph_def)
    ultimately show ?thesis unfolding still_erased_def ok(5) by blast
  qed (rule unchanged_kept)
  with r show ?thesis by simp
qed

lemma AddContact_kept:
  assumes "db_ok d" "live_id d u"
  shows "still_erased d (snd (AddContact u n d))"
proof -
  obtain res d' where a: "AddContact u n d = (res, d')" by fastforce
  then have "still_erased d d'"
  proof (cases rule: AddContact_cases)
    case (ok x)
    then have "live_id d (ur_id x)" by (auto simp: live_id_def)
    with assms erased_not_live have fresh: "\<not> erased_id d u" "\<not> erased_id d (ur_id x)" by blast+
    have rows: "r \<in> set (users (tb d'))" if "r \<in> set (users (tb d))" for r using that ok(7) by simp
    have "(v, z) \<in> graph (tb d)" if "(v, z) \<in> graph (tb d')" "erased_id d v \<or> erased_id d z" for v z
      using that fresh unfolding ok(6) by blast
    with rows show ?thesis unfolding still_erased_def ok(8) same_text_def by blast
  qed (simp add: unchanged_kept agree_unchanged)
  with a show ?thesis by simp
qed

lemma RemoveContact_kept: "still_erased d (snd (RemoveContact u n d))"
proof -
  obtain res d' where b: "RemoveContact u n d = (res, d')" by fastforce
  then have "still_erased d d'"
  proof (cases rule: RemoveContact_cases)
    case (ok x)
    then show ?thesis by (intro still_erased_same) auto
  qed (rule unchanged_kept)
  with b show ?thesis by simp
qed

lemma send_kept:
  assumes "db_ok d" "live_id d s" "live_id d p"
  shows "still_erased d (snd (CreateOrGetExisting s p b iv e c d))"
proof -
  obtain res d' where r: "CreateOrGetExisting s p b iv e c d = (res, d')" by fastforce
  then have "still_erased d d'"
  proof (cases rule: CreateOrGetExisting_cases)
    case (inserted row)
    have "\<not> erased_id d s" "\<not> erased_id d p" using erased_not_live assms by blast+
    moreover have "mr_sender_id row = s" "mr_recipient_id row = p" using inserted(2) by (simp_all add: new_message_row_def)
    ultimately show ?thesis unfolding still_erased_def inserted(3) by (auto simp: graph_def same_text_def)
  qed (simp_all add: still_erased_same)
  with r show ?thesis by simp
qed

lemma message_updates_kept: "still_erased d (snd (MarkRead u s d))" "still_erased d (snd (SoftDelete i s d))"
proof -
  obtain res d' where a: "MarkRead u s d = (res, d')" by fastforce
  then show "still_erased d (snd (MarkRead u s d))"
  proof (cases rule: MarkRead_cases)
    case ok
    then show ?thesis
      unfolding a snd_conv
      by (intro messages_kept [where P = "unread_from u s" and f = "\<lambda>r. r\<lparr>mr_read_at := Some (clock d)\<rparr>"]) (auto dest: agreeD(1) simp: graph_def same_text_def)
  qed (simp add: a unchanged_kept agree_unchanged)
  obtain res' d1 where b: "SoftDelete i s d = (res', d1)" by fastforce
  then show "still_erased d (snd (SoftDelete i s d))"
  proof (cases rule: SoftDelete_cases)
    case (ok r)
    then show ?thesis
      unfolding b snd_conv
      by (intro messages_kept [where P = "deletable i s" and f = "\<lambda>r. r\<lparr>mr_deleted_at := Some (clock d)\<rparr>"]) (auto dest: agreeD(1) simp: graph_def same_text_def)
  qed (simp add: b unchanged_kept agree_unchanged)
qed

lemma invites_kept: "still_erased d (snd (AdminCreateInvite c n ex d))" "still_erased d (snd (AdminResetInvite c d))"
proof -
  obtain res d' where a: "AdminCreateInvite c n ex d = (res, d')" by fastforce
  then show "still_erased d (snd (AdminCreateInvite c n ex d))"
    by (cases rule: AdminCreateInvite_cases) (auto simp: a graph_def intro: unchanged_kept still_erased_same)
  obtain res' d1 where b: "AdminResetInvite c d = (res', d1)" by fastforce
  then show "still_erased d (snd (AdminResetInvite c d))"
    by (cases rule: AdminResetInvite_cases) (auto simp: b graph_def unchanged_def intro!: still_erased_same)
qed

section \<open>Every handler\<close>

lemma keepsI: "store_history d d' \<Longrightarrow> (db_ok d \<Longrightarrow> still_erased d d') \<Longrightarrow> keeps_erased d d'"
  by (simp add: keeps_erased_def)

lemma agree_keeps: "agree d d' \<Longrightarrow> keeps_erased d d'"
  by (intro keepsI r_into_rtranclp store_step.read unchanged_kept agree_unchanged)

lemma live_id_agree: "agree d d' \<Longrightarrow> live_id d' u = live_id d u"
  by (simp add: live_id_def agreeD)

lemma by_id_live:
  assumes "GetUserByID i d = (Inr u, d1)"
  shows "live_id d1 i"
  using assms unfolding GetUserByID_def
proof (cases rule: stmt_cases)
  case (ok d0)
  then show ?thesis by (auto simp: live_id_def split: option.splits dest: select_one_Some)
qed simp

lemma by_name_live:
  assumes "GetByUsername n d = (Inr u, d1)"
  shows "live_id d1 (UserID u)"
  using assms unfolding GetByUsername_def GetUserByUsername_def
proof (cases rule: stmt_cases)
  case (ok d0)
  then show ?thesis by (auto simp: live_id_def split: option.splits dest: select_one_Some)
qed simp

text \<open>The PostgreSQL stores again, now with the live account as the guard.\<close>

interpretation pg_erased: evolving_stores "pg_user_store ilike collate" pg_message_store keeps_erased live_id
proof unfold_locales
  fix d and u :: user and i :: int64 and n :: string and d1 d2 :: db and x :: "user result"
  show "keeps_erased d d" by (rule keeps_erased_refl)
  show "us_GetUserByID (pg_user_store ilike collate) i d = (Inr u, d1) \<Longrightarrow> live_id d1 i"
    by (simp add: pg_user_store_def by_id_live)
  show "us_GetByUsername (pg_user_store ilike collate) n d = (Inr u, d1) \<Longrightarrow> live_id d1 (UserID u)"
    by (simp add: pg_user_store_def by_name_live)
  show "us_GetByUsername (pg_user_store ilike collate) n d = (x, d1) \<Longrightarrow> live_id d i \<Longrightarrow> live_id d1 i"
    using live_id_agree [OF user_reads_agree(2) [where d = d and n = n], where u = i] by (simp add: pg_user_store_def)
  show "us_GetUserByUsername (pg_user_store ilike collate) n d = (x, d2) \<Longrightarrow> live_id d i \<Longrightarrow> live_id d2 i"
    using live_id_agree [OF user_reads_agree(1) [where d = d and n = n], where u = i] by (simp add: pg_user_store_def)
qed (simp_all add: pg_user_store_def pg_message_store_def keeps_erased_trans agree_keeps user_reads_agree message_reads_agree
      keepsI write_histories register_kept erase_kept RemoveContact_kept AddContact_kept row_updates_kept send_kept
      message_updates_kept invites_kept)

section \<open>The running system\<close>

text \<open>
  All instances of the server over one database: this instance, any other one (with its own
  configuration, hub, limiters and pending goroutines, but the same stores), whatever else happens
  to Redis, and time. A request is one step, as for \<open>instance_step\<close>.
\<close>

inductive fleet_step ::
  "(db, 's, 'l) server \<Rightarrow> router_config \<Rightarrow> (db, 's, 'l) world router_lib \<Rightarrow> (db, 's, 'l) world \<Rightarrow> (db, 's, 'l) world \<Rightarrow> bool"
  for sv cfg lib where
  own: "instance_step sv cfg lib w w' \<Longrightarrow> fleet_step sv cfg lib w w'"
| peer: "\<lbrakk>instance_step (sv' :: (db, 's, 'l) server) cfg' lib' p p'; sv_users sv' = sv_users sv; sv_msgs sv' = sv_msgs sv;
      \<And>r w. snd (rl_metrics lib' r w) = w; w_db p = w_db w; w_rd p = w_rd w\<rbrakk> \<Longrightarrow>
    fleet_step sv cfg lib w (w\<lparr>w_db := w_db p', w_rd := w_rd p'\<rparr>)"
| redis: "fleet_step sv cfg lib w (w\<lparr>w_rd := s\<rparr>)"
| time: "0 \<le> dt \<Longrightarrow> fleet_step sv cfg lib w
    (w\<lparr>w_now := w_now w + dt, w_db := (w_db w)\<lparr>clock := clock (w_db w) + dt\<rparr>\<rparr>)"

lemma fleet_step_keeps:
  assumes "sv_users sv = pg_user_store ilike collate" "sv_msgs sv = pg_message_store"
    "\<And>r w. snd (rl_metrics lib r w) = w" "fleet_step sv cfg lib w w'"
  shows "keeps_erased (w_db w) (w_db w')"
  using assms(4)
proof (cases rule: fleet_step.cases)
  case own
  from pg_erased.instance_step_evolves [OF assms(1-3) this] show ?thesis by (simp add: evolves_def)
next
  case (peer sv' cfg' lib' p p')
  from pg_erased.instance_step_evolves [of sv' ilike collate lib' cfg' p p'] peer assms(1,2) show ?thesis
    by (simp add: evolves_def)
next
  case (redis s)
  then show ?thesis by (simp add: keeps_erased_refl)
next
  case (time dt)
  have "store_history (w_db w) (w_db w')" using time by (auto intro: store_step.tick)
  then show ?thesis by (rule keepsI) (simp add: time still_erased_same)
qed

lemma fleet_keeps:
  assumes "(fleet_step sv cfg lib)\<^sup>*\<^sup>* w w'"
    "sv_users sv = pg_user_store ilike collate" "sv_msgs sv = pg_message_store" "\<And>r w. snd (rl_metrics lib r w) = w"
  shows "keeps_erased (w_db w) (w_db w')"
  using assms(1)
proof (induction rule: rtranclp_induct)
  case (step w1 w2)
  from keeps_erased_trans [OF step(3) fleet_step_keeps [OF assms(2-4) step(2)]] show ?case .
qed (rule keeps_erased_refl)

lemma erased_emptied:
  assumes "m \<in> set (messages (erased x now d))" "mr_sender_id m = ur_id x"
  shows "mr_body m = [] \<and> mr_iv m = None"
proof -
  from assms(1) obtain m0 where m: "m = (if mr_sender_id m0 = ur_id x then purged m0 else m0)"
    unfolding erased_def update_where_def by (simp only: tables.select_convs set_map) (erule imageE)
  with assms(2) show ?thesis by (simp add: purged_def split: if_splits)
qed

text \<open>
  C3: an erasure is final. After a successful erasure, whatever requests with whatever contents
  any number of instances then handle, whatever goroutines run, events arrive, statements fail and
  time passes: the row of the account is the anonymized one, the only one with its id; nobody has
  it as a contact and it has none; every message it sent is empty; and no message from it or to
  it has come to those there were.
\<close>

theorem erasure_is_final:
  assumes "sv_users sv = pg_user_store ilike collate" "sv_msgs sv = pg_message_store"
    "\<And>r w. snd (rl_metrics lib r w) = w" "db_ok d"
    "DeleteAccountGDPR u now d = (Inr record, w_db w)" "(fleet_step sv cfg lib)\<^sup>*\<^sup>* w w'"
  shows "(\<exists>x \<in> set (users (tb d)). ur_id x = u \<and> live x \<and>
      (\<forall>r \<in> set (users (tb (w_db w'))). ur_id r = u \<longleftrightarrow> r = anonymized now x) \<and>
      anonymized now x \<in> set (users (tb (w_db w')))) \<and>
    (\<forall>v. (u, v) \<notin> graph (tb (w_db w')) \<and> (v, u) \<notin> graph (tb (w_db w'))) \<and>
    (\<forall>m \<in> set (messages (tb (w_db w'))). mr_sender_id m = u \<longrightarrow> mr_body m = [] \<and> mr_iv m = None) \<and>
    (\<forall>m \<in> set (messages (tb (w_db w'))). mr_sender_id m = u \<or> mr_recipient_id m = u \<longrightarrow>
       mr_id m \<in> mr_id ` set (messages (tb d)))"
proof -
  let ?d = "w_db w"
  let ?e = "w_db w'"
  from assms(5) obtain x where x: "x \<in> set (users (tb d))" "ur_id x = u" "live x" "tb ?d = erased x now d"
    by (cases rule: DeleteAccountGDPR_cases) auto
  have ok: "db_ok ?d" using store_step_db_ok [OF store_step.erase [OF assms(5)] assms(4)] .
  have k: "still_erased ?d ?e" "db_ok ?e"
    using fleet_keeps [OF assms(6,1-3)] history_ok ok unfolding keeps_erased_def by blast+
  let ?a = "anonymized now x"
  have a: "?a \<in> set (users (tb ?d))" "\<not> live ?a" "ur_id ?a = u"
    using x unfolding x(4) by (auto simp: erased_def update_where_def anonymized_def live_def intro!: rev_image_eqI [of x])
  then have gone: "erased_id ?d u" unfolding erased_id_def by blast
  have kept: "?a \<in> set (users (tb ?e))" using k(1) a unfolding still_erased_def by blast
  then have row: "\<forall>r \<in> set (users (tb ?e)). ur_id r = u \<longleftrightarrow> r = ?a"
    using users_distinct [OF k(2)] a(3) unfolding distinct_map by (metis inj_onD)
  have "(a, b) \<notin> graph (tb ?d)" if "a = u \<or> b = u" for a b
    using that x(2) unfolding x(4) by (auto simp: erased_def graph_def)
  then have graph: "\<forall>v. (u, v) \<notin> graph (tb ?e) \<and> (v, u) \<notin> graph (tb ?e)"
    using k(1) gone unfolding still_erased_def by blast
  have msgs: "\<exists>m0 \<in> set (messages (tb ?d)). mr_id m0 = mr_id m \<and> (mr_sender_id m = u \<longrightarrow> mr_sender_id m0 = u \<and> same_text m0 m)"
    if "m \<in> set (messages (tb ?e))" "mr_sender_id m = u \<or> mr_recipient_id m = u" for m
    using k(1) gone that unfolding still_erased_def by metis
  have purged: "mr_body m0 = [] \<and> mr_iv m0 = None" if "m0 \<in> set (messages (tb ?d))" "mr_sender_id m0 = u" for m0
    using that x(2,4) erased_emptied by simp
  have "map mr_id (messages (erased x now d)) = map mr_id (messages (tb d))"
    by (simp add: erased_def update_where_def purged_def)
  from arg_cong [OF this, of set] have ids: "mr_id ` set (messages (tb ?d)) = mr_id ` set (messages (tb d))"
    by (simp add: x(4))
  have "mr_body m = [] \<and> mr_iv m = None" if "m \<in> set (messages (tb ?e))" "mr_sender_id m = u" for m
    using msgs [OF that(1)] that(2) purged unfolding same_text_def by auto
  moreover have "mr_id m \<in> mr_id ` set (messages (tb d))"
    if "m \<in> set (messages (tb ?e))" "mr_sender_id m = u \<or> mr_recipient_id m = u" for m
    using msgs [OF that] unfolding ids [symmetric] by (metis image_eqI)
  ultimately show ?thesis using x(1-3) row kept graph by blast
qed

text \<open>Alice erases her account, and the next request asks for contacts.\<close>

theorem erasure_is_final_witness:
  "\<exists>rec d'. DeleteAccountGDPR 1 500 demo_db = (Inr rec, d') \<and>
     (let w' = snd (NewRouter demo_server demo_config (demo_lib RContacts) 40 (demo_request ''GET'' [] None) (demo_world\<lparr>w_db := d'\<rparr>))
      in \<forall>m \<in> set (messages (tb (w_db w'))). mr_sender_id m = 1 \<longrightarrow> mr_body m = [])"
proof -
  obtain rec d' where e: "DeleteAccountGDPR 1 500 demo_db = (Inr rec, d')" using demo_gdpr by blast
  let ?w = "demo_world\<lparr>w_db := d'\<rparr>"
  let ?w' = "snd (NewRouter demo_server demo_config (demo_lib RContacts) 40 (demo_request ''GET'' [] None) ?w)"
  have "clients (w_hub ?w) 40 = None" by (simp add: NewHub_def)
  then have "fleet_step demo_server demo_config (demo_lib RContacts) ?w ?w'"
    by (intro fleet_step.own instance_step.request)
  then have run: "(fleet_step demo_server demo_config (demo_lib RContacts))\<^sup>*\<^sup>* ?w ?w'" by (rule r_into_rtranclp)
  have metrics: "snd (rl_metrics (demo_lib RContacts) r w) = w" for r w by (simp add: demo_lib_def)
  have e': "DeleteAccountGDPR 1 500 demo_db = (Inr rec, w_db ?w)" using e by simp
  from erasure_is_final [OF demo_server_simps(1,2) metrics db_ok_demo e' run] e show ?thesis
    unfolding Let_def by blast
qed

end
