(* ===== verification/Tracing.thy ===== *)
theory Tracing
  imports Notifier Database_URL
begin

text \<open>
  Tracing (\<open>tracing.go\<close> of both services, and its use around the events). What \<open>InitTracer\<close> leaves
  behind is the global state of OpenTelemetry: the provider and the propagator. The server injects
  the trace of a request into the event it publishes and the notification service extracts it; the
  trace continues exactly if both services were started with a collector.
\<close>

section \<open>Starting and stopping the tracer\<close>

text \<open>
  The default propagator of OpenTelemetry does nothing. A provider batches to an exporter at an
  address, under a resource; sampling is always on.
\<close>

datatype propagator = NoPropagator | TraceContext

record 'res tracer_provider =
  tp_endpoint :: string
  tp_resource :: 'res

record 'res otel =
  otel_provider :: "'res tracer_provider option"
  otel_propagator :: propagator

definition otel_default :: "'res otel" where
  "otel_default = \<lparr>otel_provider = None, otel_propagator = NoPropagator\<rparr>"

text \<open>
  The SDK: whether the exporter can be built for an address (\<open>Some e\<close>: the error), what
  \<open>resource.New\<close> gives for a service name with the error it may give at the same time, and
  \<open>resource.Default\<close>.
\<close>

record 'res sdk =
  sdk_exporter :: "string \<Rightarrow> string option"
  sdk_resource :: "string \<Rightarrow> 'res \<times> string option"
  sdk_default :: 'res

text \<open>The function that \<open>InitTracer\<close> returns: nothing to do, or to shut the provider down.\<close>

datatype 'res shutdown = NoShutdown | ShutdownProvider "'res tracer_provider"

definition install :: "string \<Rightarrow> 'res \<Rightarrow> 'res otel \<Rightarrow> 'res shutdown \<times> 'res otel" where
  "install addr res ot =
     (let tp = \<lparr>tp_endpoint = addr, tp_resource = res\<rparr>
      in (ShutdownProvider tp, ot\<lparr>otel_provider := Some tp, otel_propagator := TraceContext\<rparr>))"

definition server_InitTracer :: "getenv \<Rightarrow> 'res sdk \<Rightarrow> 'res otel \<Rightarrow> 'res shutdown \<times> 'res otel" where
  "server_InitTracer getenv S ot =
     (let collector_addr = getenv ''OTEL_EXPORTER_OTLP_ENDPOINT'' in
      if collector_addr = [] then (NoShutdown, ot)
      else case sdk_exporter S collector_addr of
        Some _ \<Rightarrow> (NoShutdown, ot)
      | None \<Rightarrow>
          (case sdk_resource S ''onyxchat-server'' of (res, err) \<Rightarrow>
             install collector_addr (if err \<noteq> None then sdk_default S else res) ot))"

text \<open>The notification service ignores the error of \<open>resource.New\<close> and keeps what came with it.\<close>

definition notifier_InitTracer :: "getenv \<Rightarrow> 'res sdk \<Rightarrow> 'res otel \<Rightarrow> 'res shutdown \<times> 'res otel" where
  "notifier_InitTracer getenv S ot =
     (let collector_addr = getenv ''OTEL_EXPORTER_OTLP_ENDPOINT'' in
      if collector_addr = [] then (NoShutdown, ot)
      else case sdk_exporter S collector_addr of
        Some _ \<Rightarrow> (NoShutdown, ot)
      | None \<Rightarrow> install collector_addr (fst (sdk_resource S ''notification-service'')) ot)"

text \<open>
  The call of the returned function: \<open>Shutdown\<close> gets at most five seconds of the caller's time; its
  error, if any, is only logged. The result is what is logged.
\<close>

definition shutdown_limit :: time where "shutdown_limit = 5 * second"

definition run_shutdown :: "('res tracer_provider \<Rightarrow> time \<Rightarrow> string option) \<Rightarrow> time option \<Rightarrow> 'res shutdown \<Rightarrow> string list" where
  "run_shutdown Shutdown left sh =
     (case sh of
        NoShutdown \<Rightarrow> []
      | ShutdownProvider tp \<Rightarrow>
          (case Shutdown tp (case left of None \<Rightarrow> shutdown_limit | Some t \<Rightarrow> min t shutdown_limit) of
             None \<Rightarrow> []
           | Some e \<Rightarrow> [''tracer shutdown error'']))"

section \<open>A trace across the services\<close>

text \<open>
  \<open>propagation.TraceContext\<close> is a parameter: what it writes for a span and what it reads from a
  carrier (\<open>None\<close>: no remote span, a new trace starts). It documents that what it wrote for a valid
  span is read back, and that it writes each header once.
\<close>

record 'span trace_context =
  tc_Inject :: "'span \<Rightarrow> (string \<times> string) list"
  tc_Extract :: "(string \<times> string) list \<Rightarrow> 'span option"

definition trace_context_law :: "'span trace_context \<Rightarrow> ('span \<Rightarrow> bool) \<Rightarrow> bool" where
  "trace_context_law P valid \<longleftrightarrow>
     (\<forall>sp. valid sp \<longrightarrow> tc_Extract P (tc_Inject P sp) = Some sp) \<and>
     (\<forall>sp. distinct (map fst (tc_Inject P sp))) \<and> tc_Extract P [] = None"

text \<open>\<open>SendMessageHandler\<close>: the carrier of the event for the span of the request.\<close>

definition inject_carrier :: "'span trace_context \<Rightarrow> 'res otel \<Rightarrow> 'span \<Rightarrow> (string \<times> string) list" where
  "inject_carrier P ot sp = (case otel_propagator ot of NoPropagator \<Rightarrow> [] | TraceContext \<Rightarrow> tc_Inject P sp)"

text \<open>\<open>Service.handle\<close>: the parent of the span it starts.\<close>

definition extract_parent :: "'span trace_context \<Rightarrow> 'res otel \<Rightarrow> MessageCreatedEvent \<Rightarrow> 'span option" where
  "extract_parent P ot ev =
     (case otel_propagator ot of NoPropagator \<Rightarrow> None | TraceContext \<Rightarrow> tc_Extract P (mc_TraceContext ev))"

definition collector_works :: "getenv \<Rightarrow> 'res sdk \<Rightarrow> bool" where
  "collector_works getenv S \<longleftrightarrow>
     getenv ''OTEL_EXPORTER_OTLP_ENDPOINT'' \<noteq> [] \<and> sdk_exporter S (getenv ''OTEL_EXPORTER_OTLP_ENDPOINT'') = None"

lemma InitTracer_propagator:
  "otel_propagator (snd (server_InitTracer getenv S otel_default)) = (if collector_works getenv S then TraceContext else NoPropagator)"
  "otel_propagator (snd (notifier_InitTracer getenv S otel_default)) = (if collector_works getenv S then TraceContext else NoPropagator)"
  by (simp_all add: server_InitTracer_def notifier_InitTracer_def collector_works_def install_def otel_default_def Let_def
      split: option.split prod.split)

text \<open>Whatever happens, the tracer is either off, with nothing to shut down, or on, with its provider to shut down.\<close>

theorem tracer_on_or_off:
  "server_InitTracer getenv S otel_default =
     (if collector_works getenv S
      then let tp = \<lparr>tp_endpoint = getenv ''OTEL_EXPORTER_OTLP_ENDPOINT'',
             tp_resource = (if snd (sdk_resource S ''onyxchat-server'') = None
                            then fst (sdk_resource S ''onyxchat-server'') else sdk_default S)\<rparr>
           in (ShutdownProvider tp, \<lparr>otel_provider = Some tp, otel_propagator = TraceContext\<rparr>)
      else (NoShutdown, otel_default))"
  by (auto simp: server_InitTracer_def collector_works_def install_def otel_default_def Let_def
      split: option.split prod.split)

text \<open>
  A trace continues across the services exactly if both were started with a collector that
  works. The server publishes the event of a send with the carrier of its span, as JSON; the
  notification service decodes it and takes its parent span from it, which is the span of the
  request in that case and none in every other; with tracing off on the server the event carries
  no trace context at all.
\<close>

theorem trace_continues:
  assumes "trace_context_law P valid" "valid sp" "event_ids_ok ev"
    "mc_TraceContext ev = inject_carrier P (snd (server_InitTracer env1 S1 otel_default)) sp"
  shows "\<exists>ev'. decode_created (created_json ev) = Some ev' \<and>
    extract_parent P (snd (notifier_InitTracer env2 S2 otel_default)) ev' =
      (if collector_works env1 S1 \<and> collector_works env2 S2 then Some sp else None) \<and>
    (\<not> collector_works env1 S1 \<longrightarrow> mc_TraceContext ev' = [])"
proof -
  have carrier: "mc_TraceContext ev = (if collector_works env1 S1 then tc_Inject P sp else [])"
    using assms(4) by (simp add: inject_carrier_def InitTracer_propagator)
  then have "distinct (map fst (mc_TraceContext ev))" using assms(1) by (simp add: trace_context_law_def)
  with assms(3) have "decode_created (created_json ev) = Some ev" by (rule event_roundtrip)
  moreover have "extract_parent P (snd (notifier_InitTracer env2 S2 otel_default)) ev =
      (if collector_works env1 S1 \<and> collector_works env2 S2 then Some sp else None)"
    using assms(1,2) by (simp add: extract_parent_def InitTracer_propagator carrier trace_context_law_def)
  ultimately show ?thesis using carrier by auto
qed

text \<open>Spans named by the value of their \<open>traceparent\<close> header.\<close>

definition demo_trace :: "string trace_context" where
  "demo_trace = \<lparr>tc_Inject = (\<lambda>sp. [(''traceparent'', sp)]), tc_Extract = (\<lambda>c. map_of c ''traceparent'')\<rparr>"

definition demo_sdk :: "string sdk" where
  "demo_sdk = \<lparr>sdk_exporter = (\<lambda>_. None), sdk_resource = (\<lambda>n. (n, None)), sdk_default = []\<rparr>"

theorem trace_continues_witness:
  "\<exists>ev'. decode_created (created_json \<lparr>mc_MessageID = 7, mc_SenderID = 1, mc_RecipientID = 2,
       mc_ClientMessageID = ''c'', mc_TraceContext = [(''traceparent'', ''00-ab'')]\<rparr>) = Some ev' \<and>
     extract_parent demo_trace (snd (notifier_InitTracer (\<lambda>_. ''tempo:4317'') demo_sdk otel_default)) ev' = Some ''00-ab''"
proof -
  have law: "trace_context_law demo_trace (\<lambda>_. True)" by (simp add: trace_context_law_def demo_trace_def)
  have works: "collector_works (\<lambda>_. ''tempo:4317'') demo_sdk" by (simp add: collector_works_def demo_sdk_def)
  have carrier: "mc_TraceContext \<lparr>mc_MessageID = 7, mc_SenderID = 1, mc_RecipientID = 2,
       mc_ClientMessageID = ''c'', mc_TraceContext = [(''traceparent'', ''00-ab'')]\<rparr> =
      inject_carrier demo_trace (snd (server_InitTracer (\<lambda>_. ''tempo:4317'') demo_sdk otel_default)) ''00-ab''"
    using works by (simp add: inject_carrier_def InitTracer_propagator) (simp add: demo_trace_def)
  have ids: "event_ids_ok \<lparr>mc_MessageID = 7, mc_SenderID = 1, mc_RecipientID = 2,
       mc_ClientMessageID = ''c'', mc_TraceContext = [(''traceparent'', ''00-ab'')]\<rparr>"
    by (simp add: event_ids_ok_def in_int64_def)
  from trace_continues [OF law _ ids carrier, of "\<lambda>_. ''tempo:4317''" demo_sdk] works show ?thesis by auto
qed

end
