(* ===== verification/Spec2Isabelle.thy ===== *)
theory Spec2Isabelle
  imports Startup Response_Writer Hub_Race Request_Races Erasure Tracing
begin

text \<open>
  OnyxChat: a verification library for the Go services of the repository.

  THE PROGRAM. \<open>server/onyxchat-server\<close> is a chat server: a JSON API over HTTP, WebSocket
  connections for live events, PostgreSQL for accounts, contacts, invites and messages, Redis for
  tickets, refresh tokens, presence and the events between instances. Several instances share the
  database and Redis. \<open>server/notification-service\<close> listens to the events of stored messages and
  notifies recipients that are not connected; it gets push tokens from the server's internal API.
  A request passes the router, the middleware of its route and one handler; the handler calls the
  two stores, may start a goroutine that publishes an event, and may touch the hub; subscribers on
  every instance turn events into frames for the connected clients, whose pumps write them out.

  GENERAL CONVENTIONS. A Go pair of value and error is a sum (\<open>Inl\<close> the error). State is passed
  explicitly: a store operation maps a database to a result and a database, a handler maps a
  request and a world to a response and a world. A string is a list of bytes, \<open>int64\<close> an \<open>int\<close>
  whose bounds are checked where a value enters (parsing, JSON, sequences), an instant or duration
  an \<open>int\<close> of nanoseconds. A JSON body is the value it spells (\<open>jv\<close>), decoded by Go's rules for
  field names, null and repeated members. Names are those of the source; a suffix marks the few
  that clash. Failures are explicit: the database carries a list of statements that will fail,
  Redis commands may answer with an error after having an effect or not, random bytes may be
  unavailable, and every property says what holds then.

  THE THEORIES, in order of import.
  \<^item> \<open>Prelude\<close>, \<open>Go_Strings\<close>, \<open>Base64\<close>: shared lemmas; \<open>strings\<close>, \<open>strconv\<close> and \<open>encoding/base64\<close>
    as far as used.
  \<^item> \<open>Schema\<close>: tables, constraints and transactions of \<open>internal/store/migrations\<close>; the
    invariant \<open>db_ok\<close>. \<open>Store_Interfaces\<close>: the Go types and the interfaces \<open>userStorer\<close> and
    \<open>messageStorer\<close> (\<open>stores_interfaces.go\<close>).
  \<^item> \<open>Message_Store\<close> (\<open>message_store.go\<close>), \<open>User_Store\<close> (\<open>user_store.go\<close>, \<open>admin_invite_store.go\<close>),
    \<open>Contact_Store\<close> (\<open>contact_store.go\<close>): every operation, statement by statement; that each keeps
    \<open>db_ok\<close>; paging, idempotent sends, atomic registration, single use of invites, erasure.
  \<^item> \<open>Account_Contract\<close>, \<open>Mailbox_Contract\<close>: what handlers rely on, as locales over an abstract
    map of live accounts and an abstract list of messages, interpreted on the PostgreSQL stores.
    \<open>Store_History\<close>: any sequence of store operations, failures and time, and what survives it.
  \<^item> \<open>Rate_Limit\<close> (\<open>ratelimit.go\<close>, over any limiter), \<open>Http\<close> (requests, responses,
    \<open>respond.go\<close>, \<open>client_ip.go\<close>, CORS and body limit), \<open>Redis_API\<close> (the commands used, their
    laws, and a server in memory that satisfies them), \<open>Tokens\<close> (\<open>jwt.go\<close>, \<open>refresh_token.go\<close>,
    \<open>ws_ticket.go\<close>), \<open>Presence\<close> (\<open>presence.go\<close>: counters and snapshots refine a count of
    connections per user).
  \<^item> \<open>Hub\<close> (the hub and clients of \<open>ws.go\<close> with each operation as one step, invariant \<open>hub_ok\<close>),
    \<open>Write_Pump\<close> (\<open>writePump\<close> interleaved with senders and closers, one step per access to what they
    share) and \<open>Hub_Race\<close> (a send against a close at the same granularity; that the send can panic).
  \<^item> \<open>Server\<close>: the world of a handler and the constructed dependencies. \<open>Auth\<close> (\<open>middleware.go\<close>,
    \<open>ws_auth_middleware.go\<close>), \<open>Message_Handlers\<close> with the event subscriber, \<open>Auth_Handlers\<close>,
    \<open>Request_Races\<close> (statements of two requests interleaved: what atomic requests exclude),
    \<open>Account_Handlers\<close> (also keys, passwords, push tokens and the internal API), \<open>Admin_Handlers\<close>,
    \<open>WebSocket\<close> (handshake, what a new connection gets, \<open>readPump\<close>, presence events).
  \<^item> \<open>Observability\<close> (\<open>observability_middleware.go\<close>, \<open>sentry.go\<close>, \<open>health_handlers.go\<close>) and
    \<open>Response_Writer\<close> (its \<open>statusWriter\<close>, call by call).
  \<^item> \<open>Router\<close> (\<open>router.go\<close>: all routes with guard and handler), \<open>Server_Runs\<close> (a running server as
    a step relation over whole requests and goroutines, beside which a send that raced a close may
    panic; a locale carries one law of the stores, under a guard on the account that is written
    for, through every handler), \<open>Erasure\<close> (a second instance of that locale: many
    instances of the server over one database, and what no run of theirs can undo).
  \<^item> \<open>Metrics\<close> (the collectors of both services, their registration, and the calls on them, which
    the world of a handler keeps in order) and \<open>Tracing\<close> (\<open>tracing.go\<close> of both services, and a trace
    across them).
  \<^item> \<open>Notifier\<close> (the whole of \<open>internal/notifier\<close>), \<open>Database_URL\<close> (\<open>db.go\<close>, \<open>schema.go\<close>,
    and \<open>net/url\<close> as far as the driver applies it to the connection string), \<open>Startup\<close> (both
    \<open>main.go\<close>, up to the listening socket).

  WHAT THE LEMMAS SHOW. Store theories: invariants per operation, exact outcomes on every branch,
  refinement of the abstract contracts. Handler theories: what an answer's status implies about
  the caller, the change of the tables, the goroutines started and the frames queued. Run
  theories: invariants along any interleaving (histories, races, pumps, whole server). Properties
  carry their number in the text before them; every other theorem is support or a demonstration.

  PARAMETERS. Third-party code is an argument with named laws: the limiter of
  \<open>golang.org/x/time/rate\<close>, JWT signing (\<open>jwt_laws\<close>), bcrypt, Redis (\<open>redis_laws\<close>), mux
  (\<open>mux_law\<close>), the WebSocket handshake (\<open>handshake_law\<close>), uuid, AWS clients, golang-migrate, the
  HTTP transport between the services (\<open>transport_law\<close>), the Prometheus registry
  (\<open>register_law\<close>), the trace propagator (\<open>trace_context_law\<close>), \<open>ILIKE\<close> and collation of PostgreSQL.
  Each law has an instance in a witness.

  BOUNDS AND TERMINATION. Loops over lists are structural. \<open>deliver_loop\<close> terminates by the
  attempts that are left, \<open>trim_left_by\<close> by the length of the string; unbounded loops (pumps,
  subscribers, restarts) are functions of the inputs they receive or step relations. Nothing uses
  fuel.

  NOT MODELLED. OpenTelemetry spans and the histograms of query times, because no answer and no
  stored datum depends on them and no time passes inside a handler; the SQL text of the
  migrations beyond the tables and constraints in \<open>Schema\<close>;
  \<open>net/http\<close> itself except its \<open>ResponseWriter\<close>; deadlines of the pumps
  in real time. Outside \<open>Response_Writer\<close> a handler answers once, so a panic after a part of the
  body is not told apart. \<open>read_step\<close> takes the limiter's decision and the handling of a message
  as one step. An id outside the range of PostgreSQL's integer matches no row, where the driver
  reports an error; an invite's expiry is not checked against the largest PostgreSQL date. The web
  and desktop clients, the infrastructure code and the monitoring configuration are not Go.
\<close>

section \<open>Across both services\<close>

text \<open>
  C13: a sent message finds a recipient who is away. Take a server and a notification service that
  both came up and were given the same \<open>INTERNAL_SERVICE_SECRET\<close>, or both none. When the send
  handler answers 201 to a message for the live account \<open>u\<close>, one goroutine is started; what it
  publishes to Redis, if anything, is one event, which the service decodes; and if at that time
  the presence counters show no connection of \<open>u\<close>, the server knows a push token of \<open>u\<close> and one
  of three attempts of the backend succeeds, the service delivers with exactly that token and
  counts one notification sent.
\<close>

theorem offline_recipient_is_notified:
  assumes "server_main getenv ext = Inr st" "notifier_main getenv' ping = Inr ns"
    "getenv ''INTERNAL_SERVICE_SECRET'' = getenv' ''INTERNAL_SERVICE_SECRET''"
    "sv_users sv = pg_user_store ilike collate" "sv_msgs sv = pg_message_store" "redis_laws (sv_redis sv) view"
    "db_ok (w_db w)" "msg_seq (w_db w) \<le> max_int64" "user_seq (w_db w) \<le> max_int64"
    "sv_writes sv r" "distinct (map fst (sv_trace sv r))"
    "SendMessageHandler sv r w = (resp, w')" "rs_status resp = 201"
    "decode_send r = Some req" "live_account (w_db w) u = Some rcpt" "Username rcpt = sm_RecipientUsername req"
    "redis_laws R rview" "counts conns (rview s)" "conns u = 0"
    "\<And>e. fst (rd_Get R (conns_key u) s) \<noteq> Inl (RedisErr e)"
    "transport_law lib (ns_client ns) to_request" "faults (w_db v) = []" "w_entropy v = Some bs # es"
    "token = stored_push_token u (tb (w_db v))" "token \<noteq> []" "\<exists>n \<in> {1, 2, 3}. deliver token n"
  shows "\<exists>ev s'. w_jobs w' = w_jobs w @ [JobPublishCreated ev] \<and>
    (\<forall>x. rv_pub (view (w_rd (run_job sv (JobPublishCreated ev) x))) \<in>
       {rv_pub (view (w_rd x)), rv_pub (view (w_rd x)) @ [(createdChannel, created_json ev)]}) \<and>
    notifier_Run [Payload (created_json ev)] = ([ev], None) \<and>
    handle R (ns_client ns) (over_http sv (st_router st) lib i to_request) deliver (\<lambda>_. False) ev (s, v, ct) =
      ((s', v\<lparr>w_entropy := es\<rparr>, ct\<lparr>ct_sent := ct_sent ct + 1\<rparr>), Some token)"
proof -
  from send_event [OF assms(4,5,7,8,10,9,12,13)] obtain req' rcpt' ev and m :: message where sent: "decode_send r = Some req'"
    "live_account (w_db w) (UserID rcpt') = Some rcpt'" "Username rcpt' = sm_RecipientUsername req'"
    "RecipientID m = UserID rcpt'" "event_ids_ok ev" "w_jobs w' = w_jobs w @ [JobPublishCreated ev]"
    "ev = \<lparr>mc_MessageID = ID m, mc_SenderID = SenderID m, mc_RecipientID = RecipientID m,
           mc_ClientMessageID = sm_ClientMessageID req', mc_TraceContext = sv_trace sv r\<rparr>" by blast
  have "Username rcpt' = Username rcpt" using sent(1,3) assms(14,16) by simp
  from pg.acct_name [OF assms(7) sent(2) assms(15) this] sent(4,7)
  have u: "mc_RecipientID ev = u" and trace: "mc_TraceContext ev = sv_trace sv r" by simp_all
  from live_account_row [OF assms(15)] obtain row where row: "row \<in> set (users (tb (w_db w)))" "ur_id row = u" by blast
  with assms(7,9) have range: "0 < u" "u \<le> max_int64" by (force simp: ok_defs)+
  have published: "rv_pub (view (w_rd (run_job sv (JobPublishCreated ev) x))) \<in>
      {rv_pub (view (w_rd x)), rv_pub (view (w_rd x)) @ [(createdChannel, created_json ev)]}" for x
  proof -
    obtain res s1 where p: "rd_Publish (sv_redis sv) createdChannel (created_json ev) (w_rd x) = (res, s1)" by fastforce
    have "applies view (e_publish createdChannel (created_json ev)) (\<lambda>_. True) (w_rd x) (res, s1)"
      using redis_lawsD(11) [OF assms(6), of createdChannel "created_json ev" "w_rd x"] p by simp
    from appliesD(4) [OF this] p show ?thesis
      by (auto simp: PublishMessageCreated_def on_rd_def e_publish_def split: sum.split)
  qed
  have heard: "notifier_Run [Payload (created_json ev)] = ([ev], None)"
    using Run_starts_published [of "[ev]" "[]"] sent(5) trace assms(11) by simp
  have small: "int (conns u) \<le> max_int64" using assms(19) by simp
  from isOnline_counts [OF assms(17,18) small assms(20)] obtain s'
    where away: "isOnline R u s = (Inr (0 < conns u), s')" .
  have fetched: "client_GetPushToken (ns_client ns) (over_http sv (st_router st) lib i to_request) u v =
      (Inr token, v\<lparr>w_entropy := es\<rparr>)"
    using push_token_fetched [OF assms(4,22,23,21) range, of "st_router st" i] services_agree [OF assms(1-3)] assms(24) by simp
  have "fst (deliverWithRetry (deliver token) (\<lambda>_. False)) = Delivered"
    using assms(26) by (auto simp: deliver_loop_unfold)
  then obtain rest where "deliverWithRetry (deliver token) (\<lambda>_. False) = (Delivered, rest)"
    by (metis prod.collapse)
  then have "handle R (ns_client ns) (over_http sv (st_router st) lib i to_request) deliver (\<lambda>_. False) ev (s, v, ct) =
      ((s', v\<lparr>w_entropy := es\<rparr>, ct\<lparr>ct_sent := ct_sent ct + 1\<rparr>), Some token)"
    using away fetched assms(19,25) by (simp add: handle_def u Let_def)
  with sent(6) published heard show ?thesis by blast
qed

text \<open>Alice writes to bob, who is away; the backend works on its second attempt.\<close>

definition demo_notifier_vars :: getenv where
  "demo_notifier_vars = demo_env [(''ONYXCHAT_SERVER_URL'', ''http://s'')]"

lemma demo_notifier_starts:
  "\<exists>ns. notifier_main demo_notifier_vars (\<lambda>_. None) = Inr ns \<and> pc_serverURL (ns_client ns) = ''http://s''"
  by (simp add: notifier_main_def Let_def env_or_def demo_notifier_vars_def demo_env_def)

lemma demo_bob_lives: "live_account demo_db 2 = Some (scan_user (demo_user 2 ''bob''))"
  by (simp add: live_account_def select_one_def demo_defs live_def)

theorem offline_recipient_is_notified_witness:
  "\<exists>st ns w' ev. server_main demo_vars demo_outside = Inr st \<and> notifier_main demo_notifier_vars (\<lambda>_. None) = Inr ns \<and>
     w' = snd (SendMessageHandler demo_server demo_send_request demo_world) \<and> w_jobs w' = [JobPublishCreated ev] \<and>
     snd (handle calm_redis (ns_client ns) (over_http demo_server (st_router st) url_lib 40 url_request) (\<lambda>t n. n = 2)
       (\<lambda>_. False) ev (mem_empty, demo_world, \<lparr>ct_sent = 0, ct_skipped = 0, ct_errors = 0\<rparr>)) = Some ''push-bob''"
proof -
  obtain st where st: "server_main demo_vars demo_outside = Inr st" using demo_starts by blast
  obtain ns where ns: "notifier_main demo_notifier_vars (\<lambda>_. None) = Inr ns" "pc_serverURL (ns_client ns) = ''http://s''"
    using demo_notifier_starts by blast
  obtain w' where run: "SendMessageHandler demo_server demo_send_request demo_world =
    (json_body 201 (message_json (scanMsg (new_message_row 1 2 ''x'' ''n'' False ''a9'' demo_db))), w')"
    using demo_send_runs by blast
  have secret: "demo_vars ''INTERNAL_SERVICE_SECRET'' = demo_notifier_vars ''INTERNAL_SERVICE_SECRET''"
    by (simp add: demo_var) (simp add: demo_notifier_vars_def demo_env_def)
  have db: "db_ok (w_db demo_world)" "msg_seq (w_db demo_world) \<le> max_int64" "user_seq (w_db demo_world) \<le> max_int64"
    "faults (w_db demo_world) = []" "redis_laws (sv_redis demo_server) mem_observe"
    "distinct (map fst (sv_trace demo_server demo_send_request))" "rs_status (json_body 201 x) = 201"
    "live_account (w_db demo_world) 2 = Some (scan_user (demo_user 2 ''bob''))" for x
    using mem_redis_laws by (simp_all add: demo_bob_lives, simp_all add: demo_db_def)
  have bob: "Username (scan_user (demo_user 2 ''bob'')) = ''bob''" by (simp add: demo_user_def)
  have calm: "fst (rd_Get calm_redis (conns_key 2) mem_empty) \<noteq> Inl (RedisErr e)" for e
    by (simp add: calm_ops(1) ask_str_def split: option.split)
  have backend: "\<exists>n \<in> {1, 2, 3}. (\<lambda>(t :: string) n. n = (2 :: nat)) ''push-bob'' n" by simp
  from offline_recipient_is_notified [OF st ns(1) secret demo_server_simps(1,2) db(5,1-3) demo_server_simps(12) db(6) run db(7)
      demo_decode_send db(8) _ calm_redis_laws counts_empty refl calm url_transport [OF ns(2)] db(4) demo_world_simps(6)
      demo_push_token [symmetric] _ backend,
      where i = 40 and ct = "\<lparr>ct_sent = 0, ct_skipped = 0, ct_errors = 0\<rparr>"] bob
  obtain ev s' where "w_jobs w' = [JobPublishCreated ev]"
    "handle calm_redis (ns_client ns) (over_http demo_server (st_router st) url_lib 40 url_request) (\<lambda>t n. n = 2)
       (\<lambda>_. False) ev (mem_empty, demo_world, \<lparr>ct_sent = 0, ct_skipped = 0, ct_errors = 0\<rparr>) =
     ((s', demo_world\<lparr>w_entropy := [Some ''r2'']\<rparr>, \<lparr>ct_sent = 1, ct_skipped = 0, ct_errors = 0\<rparr>), Some ''push-bob'')"
    by auto
  with st ns(1) run show ?thesis by (intro exI [of _ st] exI [of _ ns] exI [of _ w'] exI [of _ ev]) simp
qed

end
